(* ===== verification/Prelude.thy ===== *)
theory Prelude
  imports Main "HOL-Library.AList"
begin

text \<open>
  Shared vocabulary of the development.

  \<^item> \<open>('s, 'e, 'a) comp\<close> is the type of an asynchronous TypeScript function that reads and
    writes the shared state \<open>'s\<close>, returns an \<open>'a\<close> or throws an \<open>'e\<close>.  A throw keeps the
    writes made so far; only \<open>$transaction\<close> (theory \<open>Collection\<close>) undoes them.
  \<^item> \<open>preserves I m\<close> says that the computation \<open>m\<close> keeps the invariant \<open>I\<close> on every branch,
    including the throwing ones; the rules in the collection \<open>preserve_intros\<close> follow the
    structure of a handler.
  \<^item> \<open>lifecycle\<close> is the contract of a status machine: every step either keeps the status of
    an object or moves it along a declared edge.  It is interpreted on the round, bet and
    outbox machines in their own theories.
\<close>

named_theorems comp_simps "unfolding rules of the computation combinators"
named_theorems preserve_intros "introduction rules for preservation of an invariant"

subsection \<open>Computations over a shared state\<close>

type_synonym ('s, 'e, 'a) comp = "'s \<Rightarrow> ('e + 'a) \<times> 's"

definition m_return :: "'a \<Rightarrow> ('s, 'e, 'a) comp" where
  "m_return a s = (Inr a, s)"

definition m_throw :: "'e \<Rightarrow> ('s, 'e, 'a) comp" where
  "m_throw e s = (Inl e, s)"

definition m_bind :: "('s, 'e, 'a) comp \<Rightarrow> ('a \<Rightarrow> ('s, 'e, 'b) comp) \<Rightarrow> ('s, 'e, 'b) comp" where
  "m_bind m f s = (case m s of (Inl e, s') \<Rightarrow> (Inl e, s') | (Inr a, s') \<Rightarrow> f a s')"

definition m_then :: "('s, 'e, 'a) comp \<Rightarrow> ('s, 'e, 'b) comp \<Rightarrow> ('s, 'e, 'b) comp" where
  "m_then m n = m_bind m (\<lambda>_. n)"

text \<open>\<open>try { m } catch (e) { h(e) }\<close>\<close>

definition m_catch :: "('s, 'e, 'a) comp \<Rightarrow> ('e \<Rightarrow> ('s, 'e, 'a) comp) \<Rightarrow> ('s, 'e, 'a) comp" where
  "m_catch m h s = (case m s of (Inl e, s') \<Rightarrow> h e s' | (Inr a, s') \<Rightarrow> (Inr a, s'))"

definition m_gets :: "('s \<Rightarrow> 'a) \<Rightarrow> ('s, 'e, 'a) comp" where
  "m_gets f s = (Inr (f s), s)"

definition m_modify :: "('s \<Rightarrow> 's) \<Rightarrow> ('s, 'e, unit) comp" where
  "m_modify f s = (Inr (), f s)"

text \<open>\<open>for (const x of xs) { f(x) }\<close>\<close>

fun m_forEach :: "'x list \<Rightarrow> ('x \<Rightarrow> ('s, 'e, unit) comp) \<Rightarrow> ('s, 'e, unit) comp" where
  "m_forEach [] f = m_return ()"
| "m_forEach (x # xs) f = m_bind (f x) (\<lambda>_. m_forEach xs f)"

text \<open>The same loop with an accumulator that the body updates.\<close>

fun m_foldl :: "('b \<Rightarrow> 'x \<Rightarrow> ('s, 'e, 'b) comp) \<Rightarrow> 'b \<Rightarrow> 'x list \<Rightarrow> ('s, 'e, 'b) comp" where
  "m_foldl f b [] = m_return b"
| "m_foldl f b (x # xs) = m_bind (f b x) (\<lambda>b'. m_foldl f b' xs)"

text \<open>A computation on one part of the state.\<close>

definition m_zoom ::
  "('s \<Rightarrow> 't) \<Rightarrow> (('t \<Rightarrow> 't) \<Rightarrow> 's \<Rightarrow> 's) \<Rightarrow> ('t, 'e, 'a) comp \<Rightarrow> ('s, 'e, 'a) comp" where
  "m_zoom get upd m s = (case m (get s) of (r, t) \<Rightarrow> (r, upd (\<lambda>_. t) s))"

text \<open>A pure function that may throw.\<close>

definition lift_sum :: "'e + 'a \<Rightarrow> ('s, 'e, 'a) comp" where
  "lift_sum x = (case x of Inl e \<Rightarrow> m_throw e | Inr a \<Rightarrow> m_return a)"

lemmas comp_defs [comp_simps] =
  m_return_def m_throw_def m_bind_def m_then_def m_catch_def m_gets_def m_modify_def m_zoom_def

lemma m_bind_return [simp]: "m_bind (m_return a) f = f a"
  by (simp add: comp_defs fun_eq_iff)

lemma m_bind_throw [simp]: "m_bind (m_throw e) f = m_throw e"
  by (simp add: comp_defs fun_eq_iff)

lemma m_bind_assoc: "m_bind (m_bind m f) g = m_bind m (\<lambda>a. m_bind (f a) g)"
  by (simp add: comp_defs fun_eq_iff split: prod.split sum.split)

lemma m_bind_Inr: "m s = (Inr a, s') \<Longrightarrow> m_bind m f s = f a s'"
  by (simp add: m_bind_def)

lemma m_bind_Inl: "m s = (Inl e, s') \<Longrightarrow> m_bind m f s = (Inl e, s')"
  by (simp add: m_bind_def)

lemma m_then_Inr: "m s = (Inr a, s') \<Longrightarrow> m_then m n s = n s'"
  by (simp add: m_then_def m_bind_def)

lemma m_bindE:
  assumes "m_bind m f s = (Inr b, s')"
  obtains a s1 where "m s = (Inr a, s1)" "f a s1 = (Inr b, s')"
  using assms by (cases "m s") (auto simp: m_bind_def split: sum.splits)

lemma m_thenE:
  assumes "m_then m n s = (Inr b, s')"
  obtains a s1 where "m s = (Inr a, s1)" "n s1 = (Inr b, s')"
  using assms unfolding m_then_def by (rule m_bindE)

lemma m_throw_Inr [simp]: "m_throw e s \<noteq> (Inr a, s')"
  by (simp add: m_throw_def)

lemma m_return_Inr [simp]: "m_return b s = (Inr a, s') \<longleftrightarrow> b = a \<and> s = s'"
  by (simp add: m_return_def)

lemma m_forEach_append: "m_forEach (xs @ ys) f = m_bind (m_forEach xs f) (\<lambda>_. m_forEach ys f)"
  by (induction xs) (simp_all add: m_bind_assoc)

subsection \<open>Preservation of an invariant\<close>

definition preserves :: "('s \<Rightarrow> bool) \<Rightarrow> ('s, 'e, 'a) comp \<Rightarrow> bool" where
  "preserves I m \<longleftrightarrow> (\<forall>s. I s \<longrightarrow> I (snd (m s)))"

lemma preservesI: "(\<And>s. I s \<Longrightarrow> I (snd (m s))) \<Longrightarrow> preserves I m"
  by (simp add: preserves_def)

lemma preservesD: "preserves I m \<Longrightarrow> I s \<Longrightarrow> I (snd (m s))"
  by (simp add: preserves_def)

lemma preserves_return [preserve_intros]: "preserves I (m_return a)"
  by (simp add: preserves_def m_return_def)

lemma preserves_throw [preserve_intros]: "preserves I (m_throw e)"
  by (simp add: preserves_def m_throw_def)

lemma preserves_gets [preserve_intros]: "preserves I (m_gets f)"
  by (simp add: preserves_def m_gets_def)

lemma preserves_bind [preserve_intros]:
  assumes "preserves I m" and "\<And>a. preserves I (f a)"
  shows "preserves I (m_bind m f)"
proof (rule preservesI)
  fix s assume "I s"
  obtain r s' where ms: "m s = (r, s')" by (cases "m s")
  with assms(1) \<open>I s\<close> have "I s'" by (auto dest: preservesD)
  with assms(2) ms show "I (snd (m_bind m f s))"
    by (cases r) (auto simp: m_bind_def dest: preservesD)
qed

lemma preserves_then [preserve_intros]:
  "preserves I m \<Longrightarrow> preserves I n \<Longrightarrow> preserves I (m_then m n)"
  by (simp add: m_then_def preserves_bind)

lemma preserves_catch [preserve_intros]:
  assumes "preserves I m" and "\<And>e. preserves I (h e)"
  shows "preserves I (m_catch m h)"
proof (rule preservesI)
  fix s assume "I s"
  obtain r s' where ms: "m s = (r, s')" by (cases "m s")
  with assms(1) \<open>I s\<close> have "I s'" by (auto dest: preservesD)
  with assms(2) ms show "I (snd (m_catch m h s))"
    by (cases r) (auto simp: m_catch_def dest: preservesD)
qed

lemma preserves_modify: "(\<And>s. I s \<Longrightarrow> I (f s)) \<Longrightarrow> preserves I (m_modify f)"
  by (simp add: preserves_def m_modify_def)

lemma preserves_zoom:
  "(\<And>s t. I s \<Longrightarrow> I (upd (\<lambda>_. t) s)) \<Longrightarrow> preserves I (m_zoom get upd m)"
  by (auto simp: preserves_def m_zoom_def split: prod.split)

lemma preserves_forEach [preserve_intros]:
  "(\<And>x. x \<in> set xs \<Longrightarrow> preserves I (f x)) \<Longrightarrow> preserves I (m_forEach xs f)"
  by (induction xs) (auto intro!: preserves_bind preserves_return)

lemma preserves_foldl [preserve_intros]:
  "(\<And>b x. preserves I (f b x)) \<Longrightarrow> preserves I (m_foldl f b xs)"
  by (induction xs arbitrary: b) (auto intro!: preserves_bind preserves_return)

lemma preserves_if [preserve_intros]:
  "(c \<Longrightarrow> preserves I m) \<Longrightarrow> (\<not> c \<Longrightarrow> preserves I n) \<Longrightarrow> preserves I (if c then m else n)"
  by simp

lemma preserves_option [preserve_intros]:
  "(x = None \<Longrightarrow> preserves I m) \<Longrightarrow> (\<And>a. x = Some a \<Longrightarrow> preserves I (f a)) \<Longrightarrow>
   preserves I (case x of None \<Rightarrow> m | Some a \<Rightarrow> f a)"
  by (cases x) simp_all

lemma preserves_sum [preserve_intros]:
  "(\<And>e. x = Inl e \<Longrightarrow> preserves I (f e)) \<Longrightarrow> (\<And>a. x = Inr a \<Longrightarrow> preserves I (g a)) \<Longrightarrow>
   preserves I (case x of Inl e \<Rightarrow> f e | Inr a \<Rightarrow> g a)"
  by (cases x) simp_all

lemma preserves_prod [preserve_intros]:
  "(\<And>a b. x = (a, b) \<Longrightarrow> preserves I (f a b)) \<Longrightarrow> preserves I (case x of (a, b) \<Rightarrow> f a b)"
  by (cases x) simp_all

lemma preserves_Let [preserve_intros]:
  "(\<And>a. preserves I (f a)) \<Longrightarrow> preserves I (Let x f)"
  by simp

lemma preserves_lift_sum [preserve_intros]: "preserves I (lift_sum x)"
  by (cases x) (simp_all add: lift_sum_def preserves_return preserves_throw)

subsection \<open>Status machines\<close>

text \<open>
  \<open>st s k\<close> is the status of object \<open>k\<close> in state \<open>s\<close> (\<open>None\<close> when it does not exist), \<open>inv\<close> the
  invariant of the state, and \<open>edge a b\<close> says that the machine may move a status from \<open>a\<close> to \<open>b\<close>
  in one handler call.
\<close>

locale lifecycle =
  fixes step :: "'s \<Rightarrow> 'op \<Rightarrow> 's"
    and inv :: "'s \<Rightarrow> bool"
    and st :: "'s \<Rightarrow> 'k \<Rightarrow> 'a option"
    and edge :: "'a \<Rightarrow> 'a \<Rightarrow> bool"
  assumes step_inv: "inv s \<Longrightarrow> inv (step s x)"
    and step_edge:
      "inv s \<Longrightarrow> st s k = Some a \<Longrightarrow> \<exists>b. st (step s x) k = Some b \<and> (b = a \<or> edge a b)"
begin

lemma run_inv: "inv s \<Longrightarrow> inv (foldl step s xs)"
  by (induction xs arbitrary: s) (auto simp: step_inv)

lemma run_path:
  "inv s \<Longrightarrow> st s k = Some a \<Longrightarrow> \<exists>b. st (foldl step s xs) k = Some b \<and> edge\<^sup>*\<^sup>* a b"
proof (induction xs arbitrary: s a)
  case Nil
  then show ?case by auto
next
  case (Cons x xs)
  from step_edge [OF Cons.prems] obtain b
    where b: "st (step s x) k = Some b" "b = a \<or> edge a b" by blast
  from Cons.IH [OF step_inv [OF Cons.prems(1)] b(1)] obtain c
    where "st (foldl step (step s x) xs) k = Some c" "edge\<^sup>*\<^sup>* b c" by blast
  with b(2) show ?case by (auto intro: converse_rtranclp_into_rtranclp)
qed

lemma terminal_run:
  assumes "inv s" and "st s k = Some a" and "\<And>b. \<not> edge a b"
  shows "st (foldl step s xs) k = Some a"
proof -
  from run_path [OF assms(1,2)] obtain b
    where "st (foldl step s xs) k = Some b" "edge\<^sup>*\<^sup>* a b" by blast
  with assms(3) show ?thesis by (metis converse_rtranclpE)
qed

lemma monotone_run:
  assumes "\<And>a b. edge a b \<Longrightarrow> rank a < (rank b :: nat)" and "inv s" and "st s k = Some a"
  shows "\<exists>b. st (foldl step s xs) k = Some b \<and> (b = a \<or> rank a < rank b)"
proof -
  have "b = a \<or> rank a < rank b" if "edge\<^sup>*\<^sup>* a b" for b
    using that by (induction rule: rtranclp_induct) (auto dest: assms(1))
  with run_path [OF assms(2,3)] show ?thesis by blast
qed

end

subsection \<open>Numbers in texts\<close>

text \<open>\<open>String(n)\<close> for a natural number and an integer.\<close>

fun show_nat :: "nat \<Rightarrow> string" where
  "show_nat n = (if n < 10 then [char_of (48 + n)] else show_nat (n div 10) @ [char_of (48 + n mod 10)])"

declare show_nat.simps [simp del]

definition show_int :: "int \<Rightarrow> string" where
  "show_int i = (if i < 0 then ''-'' @ show_nat (nat (- i)) else show_nat (nat i))"

text \<open>Truthiness of an optional string: \<open>undefined\<close>, \<open>null\<close> and the empty string are falsy.\<close>

definition truthy :: "string option \<Rightarrow> bool" where
  "truthy x \<longleftrightarrow> x \<noteq> None \<and> x \<noteq> Some []"

text \<open>\<open>toLowerCase\<close> and \<open>trim\<close>, on the characters of the Latin-1 block.\<close>

definition to_lower :: "string \<Rightarrow> string" where
  "to_lower t = map (\<lambda>c. let n = of_char c :: nat
     in if 65 \<le> n \<and> n \<le> 90 \<or> 192 \<le> n \<and> n \<le> 222 \<and> n \<noteq> 215 then char_of (n + 32) else c) t"

definition is_space :: "char \<Rightarrow> bool" where
  "is_space c \<longleftrightarrow> of_char c \<in> {9, 10, 11, 12, 13, 32, 160 :: nat}"

definition trim :: "string \<Rightarrow> string" where
  "trim t = rev (dropWhile is_space (rev (dropWhile is_space t)))"

subsection \<open>Lists and insertion-ordered maps\<close>

text \<open>
  \<open>AList.update\<close> is JavaScript's \<open>Map.set\<close>: an existing key keeps its position, a new key goes
  to the end.
\<close>

lemma find_Some_set: "List.find P xs = Some x \<Longrightarrow> x \<in> set xs \<and> P x"
  by (auto simp: find_Some_iff)

lemma find_None_set: "List.find P xs = None \<longleftrightarrow> (\<forall>x\<in>set xs. \<not> P x)"
  by (auto simp: find_None_iff)

lemma map_of_update_other [simp]: "k \<noteq> k' \<Longrightarrow> map_of (AList.update k v al) k' = map_of al k'"
  by (simp add: update_conv')

lemma map_of_update_same [simp]: "map_of (AList.update k v al) k = Some v"
  by (simp add: update_conv')

end
