(* ===== verification/Errors.thy ===== *)
theory Errors
  imports Prelude
begin

text \<open>
  The error taxonomy (\<open>src/src/utils/errors.ts\<close>) and the error-handling middleware
  (\<open>src/src/middleware/errorHandler.middleware.ts\<close>).

  A thrown value is a \<open>js_error\<close>: an \<open>AppError\<close> (or subclass), a Prisma request error with its
  code, the breaker's \<open>CircuitBreakerOpenError\<close>, or any other \<open>Error\<close>.  Strings are ASCII.
\<close>

subsection \<open>Strings\<close>

definition lower_char :: "char \<Rightarrow> char" where
  "lower_char c = (if 65 \<le> (of_char c :: nat) \<and> (of_char c :: nat) \<le> 90
     then char_of ((of_char c :: nat) + 32) else c)"

definition toLowerCase :: "string \<Rightarrow> string" where
  "toLowerCase s = map lower_char s"

definition startsWith :: "string \<Rightarrow> string \<Rightarrow> bool" where
  "startsWith s t \<longleftrightarrow> take (length t) s = t"

fun str_includes :: "string \<Rightarrow> string \<Rightarrow> bool" where
  "str_includes [] t \<longleftrightarrow> t = []"
| "str_includes (c # s) t \<longleftrightarrow> startsWith (c # s) t \<or> str_includes s t"

subsection \<open>The taxonomy\<close>

datatype ErrorCode =
    VALIDATION_ERROR
  | AUTHENTICATION_ERROR
  | AUTHORIZATION_ERROR
  | NOT_FOUND
  | CONFLICT
  | BUSINESS_RULE_VIOLATION
  | EXTERNAL_SERVICE_ERROR
  | CONFIGURATION_ERROR
  | INTERNAL_SERVER_ERROR
  | INVALID_CHALLENGE
  | CHALLENGE_EXPIRED
  | CHALLENGE_USED
  | INVALID_SIGNATURE
  | INSUFFICIENT_FUNDS
  | ROUND_NOT_ACTIVE
  | ROUND_LOCKED
  | ROUND_ALREADY_RESOLVED
  | DUPLICATE_PREDICTION
  | ACTIVE_ROUND_EXISTS
  | IDEMPOTENCY_KEY_CONFLICT
  | CONTRACT_INVALID_STATE
  | TOURNAMENT_INVALID_STATE
  | FOREIGN_KEY_VIOLATION
  | PAYLOAD_TOO_LARGE

text \<open>The members of the enum; the last two constructors above are plain strings in the source.\<close>

definition ErrorCode_members :: "ErrorCode list" where
  "ErrorCode_members = [VALIDATION_ERROR, AUTHENTICATION_ERROR, AUTHORIZATION_ERROR, NOT_FOUND, CONFLICT, BUSINESS_RULE_VIOLATION, EXTERNAL_SERVICE_ERROR, CONFIGURATION_ERROR, INTERNAL_SERVER_ERROR, INVALID_CHALLENGE, CHALLENGE_EXPIRED, CHALLENGE_USED, INVALID_SIGNATURE, INSUFFICIENT_FUNDS, ROUND_NOT_ACTIVE, ROUND_LOCKED, ROUND_ALREADY_RESOLVED, DUPLICATE_PREDICTION, ACTIVE_ROUND_EXISTS, IDEMPOTENCY_KEY_CONFLICT, CONTRACT_INVALID_STATE, TOURNAMENT_INVALID_STATE]"

datatype error_class =
    AppError_class
  | ValidationError_class
  | AuthenticationError_class
  | AuthorizationError_class
  | NotFoundError_class
  | ConflictError_class
  | TournamentInvalidStateError_class
  | IllegalRoundTransitionError_class
  | BusinessRuleError_class
  | ExternalServiceError_class
  | BackpressureError_class
  | ConfigurationError_class

record app_error =
  errClass :: error_class
  errMessage :: string
  statusCode :: nat
  errCode :: ErrorCode

definition AppError :: "string \<Rightarrow> nat \<Rightarrow> ErrorCode \<Rightarrow> app_error" where
  "AppError m st c = \<lparr>errClass = AppError_class, errMessage = m, statusCode = st, errCode = c\<rparr>"

definition ValidationError :: "string \<Rightarrow> app_error" where
  "ValidationError m = \<lparr>errClass = ValidationError_class, errMessage = m, statusCode = 400,
     errCode = VALIDATION_ERROR\<rparr>"

definition AuthenticationError :: "string \<Rightarrow> ErrorCode \<Rightarrow> app_error" where
  "AuthenticationError m c = \<lparr>errClass = AuthenticationError_class, errMessage = m,
     statusCode = 401, errCode = c\<rparr>"

definition AuthorizationError :: "string \<Rightarrow> ErrorCode \<Rightarrow> app_error" where
  "AuthorizationError m c = \<lparr>errClass = AuthorizationError_class, errMessage = m,
     statusCode = 403, errCode = c\<rparr>"

definition NotFoundError :: "string \<Rightarrow> app_error" where
  "NotFoundError m = \<lparr>errClass = NotFoundError_class, errMessage = m, statusCode = 404,
     errCode = NOT_FOUND\<rparr>"

definition ConflictError :: "string \<Rightarrow> ErrorCode \<Rightarrow> app_error" where
  "ConflictError m c = \<lparr>errClass = ConflictError_class, errMessage = m, statusCode = 409,
     errCode = c\<rparr>"

definition TournamentInvalidStateError :: "string \<Rightarrow> string \<Rightarrow> app_error" where
  "TournamentInvalidStateError from to = (ConflictError
     (''Invalid tournament state: cannot '' @ to @ '' a '' @ from @ '' tournament.'')
     TOURNAMENT_INVALID_STATE)\<lparr>errClass := TournamentInvalidStateError_class\<rparr>"

definition IllegalRoundTransitionError :: "string \<Rightarrow> string \<Rightarrow> string option \<Rightarrow> app_error" where
  "IllegalRoundTransitionError from to m = (ConflictError
     (case m of Some t \<Rightarrow> t
      | None \<Rightarrow> ''Illegal round transition: cannot transition a '' @ from @ '' round to '' @ to @ ''.'')
     CONFLICT)\<lparr>errClass := IllegalRoundTransitionError_class\<rparr>"

definition BusinessRuleError :: "string \<Rightarrow> ErrorCode \<Rightarrow> app_error" where
  "BusinessRuleError m c = \<lparr>errClass = BusinessRuleError_class, errMessage = m, statusCode = 422,
     errCode = c\<rparr>"

definition ExternalServiceError :: "string \<Rightarrow> ErrorCode \<Rightarrow> app_error" where
  "ExternalServiceError m c = \<lparr>errClass = ExternalServiceError_class, errMessage = m,
     statusCode = 503, errCode = c\<rparr>"

definition BackpressureError :: "string \<Rightarrow> app_error" where
  "BackpressureError m = (ExternalServiceError m EXTERNAL_SERVICE_ERROR)
     \<lparr>errClass := BackpressureError_class\<rparr>"

definition ConfigurationError :: "string \<Rightarrow> ErrorCode \<Rightarrow> app_error" where
  "ConfigurationError m c = \<lparr>errClass = ConfigurationError_class, errMessage = m,
     statusCode = 500, errCode = c\<rparr>"

lemmas app_error_defs = AppError_def ValidationError_def AuthenticationError_def
  AuthorizationError_def NotFoundError_def ConflictError_def TournamentInvalidStateError_def
  IllegalRoundTransitionError_def BusinessRuleError_def ExternalServiceError_def
  BackpressureError_def ConfigurationError_def

text \<open>The status a class passes to its super constructor; \<open>AppError\<close> itself takes any.\<close>

fun class_status :: "error_class \<Rightarrow> nat option" where
  "class_status AppError_class = None"
| "class_status ValidationError_class = Some 400"
| "class_status AuthenticationError_class = Some 401"
| "class_status AuthorizationError_class = Some 403"
| "class_status NotFoundError_class = Some 404"
| "class_status ConflictError_class = Some 409"
| "class_status TournamentInvalidStateError_class = Some 409"
| "class_status IllegalRoundTransitionError_class = Some 409"
| "class_status BusinessRuleError_class = Some 422"
| "class_status ExternalServiceError_class = Some 503"
| "class_status BackpressureError_class = Some 503"
| "class_status ConfigurationError_class = Some 500"

record error_catalog_entry =
  entryCode :: ErrorCode
  entryStatus :: nat
  entryClass :: error_class

definition ERROR_CATALOG :: "error_catalog_entry list" where
  "ERROR_CATALOG = [
    \<lparr>entryCode = VALIDATION_ERROR, entryStatus = 400, entryClass = ValidationError_class\<rparr>,
    \<lparr>entryCode = AUTHENTICATION_ERROR, entryStatus = 401, entryClass = AuthenticationError_class\<rparr>,
    \<lparr>entryCode = AUTHORIZATION_ERROR, entryStatus = 403, entryClass = AuthorizationError_class\<rparr>,
    \<lparr>entryCode = NOT_FOUND, entryStatus = 404, entryClass = NotFoundError_class\<rparr>,
    \<lparr>entryCode = CONFLICT, entryStatus = 409, entryClass = ConflictError_class\<rparr>,
    \<lparr>entryCode = BUSINESS_RULE_VIOLATION, entryStatus = 422, entryClass = BusinessRuleError_class\<rparr>,
    \<lparr>entryCode = EXTERNAL_SERVICE_ERROR, entryStatus = 503, entryClass = ExternalServiceError_class\<rparr>,
    \<lparr>entryCode = CONFIGURATION_ERROR, entryStatus = 500, entryClass = ConfigurationError_class\<rparr>,
    \<lparr>entryCode = INTERNAL_SERVER_ERROR, entryStatus = 500, entryClass = AppError_class\<rparr>,
    \<lparr>entryCode = INVALID_CHALLENGE, entryStatus = 401, entryClass = AuthenticationError_class\<rparr>,
    \<lparr>entryCode = CHALLENGE_EXPIRED, entryStatus = 401, entryClass = AuthenticationError_class\<rparr>,
    \<lparr>entryCode = CHALLENGE_USED, entryStatus = 401, entryClass = AuthenticationError_class\<rparr>,
    \<lparr>entryCode = INVALID_SIGNATURE, entryStatus = 401, entryClass = AuthenticationError_class\<rparr>,
    \<lparr>entryCode = INSUFFICIENT_FUNDS, entryStatus = 422, entryClass = BusinessRuleError_class\<rparr>,
    \<lparr>entryCode = ROUND_NOT_ACTIVE, entryStatus = 422, entryClass = BusinessRuleError_class\<rparr>,
    \<lparr>entryCode = ROUND_LOCKED, entryStatus = 422, entryClass = BusinessRuleError_class\<rparr>,
    \<lparr>entryCode = ROUND_ALREADY_RESOLVED, entryStatus = 409, entryClass = ConflictError_class\<rparr>,
    \<lparr>entryCode = DUPLICATE_PREDICTION, entryStatus = 409, entryClass = ConflictError_class\<rparr>,
    \<lparr>entryCode = ACTIVE_ROUND_EXISTS, entryStatus = 409, entryClass = ConflictError_class\<rparr>,
    \<lparr>entryCode = IDEMPOTENCY_KEY_CONFLICT, entryStatus = 409, entryClass = ConflictError_class\<rparr>,
    \<lparr>entryCode = CONTRACT_INVALID_STATE, entryStatus = 422, entryClass = BusinessRuleError_class\<rparr>,
    \<lparr>entryCode = TOURNAMENT_INVALID_STATE, entryStatus = 409, entryClass = TournamentInvalidStateError_class\<rparr>]"

subsection \<open>Soroban errors\<close>

definition mapSorobanError :: "string option \<Rightarrow> app_error" where
  "mapSorobanError errorMsg =
     (let msg = toLowerCase (case errorMsg of None \<Rightarrow> [] | Some m \<Rightarrow> m)
      in if str_includes msg ''insufficient funds'' then
           BusinessRuleError ''Insufficient funds for contract operation.'' INSUFFICIENT_FUNDS
         else if str_includes msg ''no pending'' \<or> str_includes msg ''nothing to claim'' \<or>
           str_includes msg ''already claimed'' then
           BusinessRuleError ''No claimable winnings available.'' CONTRACT_INVALID_STATE
         else if str_includes msg ''invalid state'' then
           BusinessRuleError ''Contract operation rejected due to invalid state.'' CONTRACT_INVALID_STATE
         else if str_includes msg ''timeout'' then
           ExternalServiceError ''Contract operation timed out.'' EXTERNAL_SERVICE_ERROR
         else if str_includes msg ''circuit breaker'' then
           ExternalServiceError ''Contract service temporarily unavailable. Please retry shortly.''
             EXTERNAL_SERVICE_ERROR
         else
           ExternalServiceError ''An unexpected contract error occurred.'' EXTERNAL_SERVICE_ERROR)"

subsection \<open>Thrown values and the error handler\<close>

datatype js_error =
    App app_error
  | Prisma string "string option" string  \<comment> \<open>request error: code, meta (cause or target), message\<close>
  | BreakerOpen string int            \<comment> \<open>breaker name, next attempt (ms)\<close>
  | LockLost string                   \<comment> \<open>reason\<close>
  | BodyParse                         \<comment> \<open>SyntaxError, entity.parse.failed\<close>
  | TooLarge                          \<comment> \<open>entity.too.large\<close>
  | PrismaValidation string
  | NodeError string string           \<comment> \<open>system error: code, message\<close>
  | JsError string                    \<comment> \<open>any other Error\<close>
  | NonError                          \<comment> \<open>a thrown value that is no Error\<close>

fun message_of :: "js_error \<Rightarrow> string" where
  "message_of (App e) = errMessage e"
| "message_of (Prisma c meta m) = m"
| "message_of (BreakerOpen n t) = ''Circuit breaker \"'' @ n @ ''\" is open''"
| "message_of (LockLost r) = ''Distributed lock lost ('' @ r @ '')''"
| "message_of BodyParse = ''Unexpected token''"
| "message_of TooLarge = ''request entity too large''"
| "message_of (PrismaValidation m) = m"
| "message_of (NodeError c m) = m"
| "message_of (JsError m) = m"
| "message_of NonError = []"

definition fromPrismaError :: "string \<Rightarrow> string option \<Rightarrow> app_error" where
  "fromPrismaError c meta =
     (if c = ''P2025'' then
        AppError (case meta of None \<Rightarrow> ''Record not found'' | Some m \<Rightarrow> m) 404 NOT_FOUND
      else if c = ''P2002'' then
        AppError (''Unique constraint failed on: '' @ (case meta of None \<Rightarrow> ''field'' | Some m \<Rightarrow> m))
          409 CONFLICT
      else if c = ''P2003'' then AppError ''Related record not found'' 400 FOREIGN_KEY_VIOLATION
      else AppError ''Database error'' 500 INTERNAL_SERVER_ERROR)"

record error_response =
  respStatus :: nat
  respMessage :: string
  respCode :: ErrorCode
  respRetryAfter :: "int option"

text \<open>\<open>backpressureRetry\<close> is \<open>err.retryAfterSeconds\<close>, 1 wherever the source constructs it.\<close>

definition errorHandler :: "int \<Rightarrow> js_error \<Rightarrow> error_response" where
  "errorHandler now err =
     (let resp = (\<lambda>(e :: app_error) r. \<lparr>respStatus = statusCode e, respMessage = errMessage e,
                     respCode = errCode e, respRetryAfter = r\<rparr>)
      in case err of
           App e \<Rightarrow> resp e (if errClass e = BackpressureError_class then Some 1 else None)
         | BreakerOpen n t \<Rightarrow>
             resp (AppError ''Contract service temporarily unavailable. Please retry shortly.'' 503
                 EXTERNAL_SERVICE_ERROR)
               (Some (max 1 (- ((now - t) div 1000))))
         | Prisma c meta m \<Rightarrow> resp (fromPrismaError c meta) None
         | BodyParse \<Rightarrow> resp (ValidationError ''Malformed JSON body'') None
         | TooLarge \<Rightarrow> resp (AppError ''Payload too large'' 413 PAYLOAD_TOO_LARGE) None
         | PrismaValidation m \<Rightarrow> resp (ValidationError ''Invalid database query parameters'') None
         | NodeError c m \<Rightarrow> resp (AppError (if m = [] then ''Internal Server Error'' else m) 500
               INTERNAL_SERVER_ERROR) None
         | JsError m \<Rightarrow> resp (AppError (if m = [] then ''Internal Server Error'' else m) 500
               INTERNAL_SERVER_ERROR) None
         | LockLost r \<Rightarrow> resp (AppError (message_of (LockLost r)) 500 INTERNAL_SERVER_ERROR) None
         | NonError \<Rightarrow> resp (AppError ''Internal Server Error'' 500 INTERNAL_SERVER_ERROR) None)"

subsection \<open>Properties of the taxonomy\<close>

lemma includes_sub: "str_includes s t \<longleftrightarrow> (\<exists>u v. s = u @ t @ v)"
proof (induction s)
  case (Cons c s)
  have "startsWith (c # s) t \<longleftrightarrow> (\<exists>v. c # s = t @ v)"
    by (metis append_eq_conv_conj startsWith_def append_take_drop_id)
  moreover have "(\<exists>u v. c # s = u @ t @ v) \<longleftrightarrow> (\<exists>v. c # s = t @ v) \<or> (\<exists>u v. s = u @ t @ v)"
    by (metis append_Cons append_Nil list.exhaust list.inject)
  ultimately show ?case using Cons by simp
qed auto

definition soroban_messages :: "string list" where
  "soroban_messages =
     [''Insufficient funds for contract operation.'', ''No claimable winnings available.'',
      ''Contract operation rejected due to invalid state.'', ''Contract operation timed out.'',
      ''Contract service temporarily unavailable. Please retry shortly.'',
      ''An unexpected contract error occurred.'']"

lemma mapSorobanError_message: "errMessage (mapSorobanError m) \<in> set soroban_messages"
  by (simp add: mapSorobanError_def Let_def BusinessRuleError_def ExternalServiceError_def
      soroban_messages_def)

lemma soroban_messages_no_timeout: "list_all (\<lambda>t. \<not> str_includes (toLowerCase t) ''timeout'') soroban_messages"
  unfolding soroban_messages_def by code_simp

lemma mapSorobanError_no_timeout:
  "\<not> str_includes (toLowerCase (errMessage (mapSorobanError m))) ''timeout''"
  using mapSorobanError_message [of m] soroban_messages_no_timeout unfolding list_all_iff by blast



end
