(* ===== verification/Collection.thy ===== *)
theory Collection
  imports Prelude
begin

text \<open>
  The data store (\<open>src/src/lib/memory-prisma.ts\<close>).

  \<open>'r collection\<close> is the class \<open>MemoryCollection\<close>: an insertion-ordered map from row ids to
  rows, the accessor of the id column and the id generator of the constructor.  A \<open>where\<close> clause
  is a predicate on rows and an \<open>update\<close> clause a function on rows; the two are written out at
  every call, with the \<open>createdAt\<close>/\<open>updatedAt\<close> stamps where a handler reads them.  A
  \<open>collection\<close> has no uniqueness constraints besides its ids, as in the source.

  \<open>transaction\<close> is \<open>$transaction\<close> with a callback.  The in-memory client runs the callback on
  the live collections (a throw keeps the writes made before it); the database-backed client
  rolls the tables back, but nothing else: calls to the chain and emitted events stay.  Both are
  modelled, selected by \<open>data_store\<close>, the \<open>DATA_STORE\<close> setting; \<open>rollback s s'\<close> is the state
  \<open>s'\<close> with the tables of \<open>s\<close>.

  The locale \<open>table\<close> is the contract the services rely on: what a lookup returns after a
  create, an update or a delete.  It is interpreted on \<open>collection\<close> at the end.
\<close>

subsection \<open>The class MemoryCollection\<close>

record 'r collection =
  idField :: "'r \<Rightarrow> string"
  generateId :: "nat \<Rightarrow> string"
  idCalls :: nat
  rows :: "(string \<times> 'r) list"

definition mk_collection :: "('r \<Rightarrow> string) \<Rightarrow> (nat \<Rightarrow> string) \<Rightarrow> 'r collection" where
  "mk_collection idf gen = \<lparr>idField = idf, generateId = gen, idCalls = 0, rows = []\<rparr>"

definition c_set :: "string \<Rightarrow> 'r \<Rightarrow> 'r collection \<Rightarrow> 'r collection" where
  "c_set k r c = c\<lparr>rows := AList.update k r (rows c)\<rparr>"

definition seed :: "'r list \<Rightarrow> 'r collection \<Rightarrow> 'r collection" where
  "seed rs c = foldl (\<lambda>c r. c_set (idField c r) r c) c rs"

definition filtered :: "('r \<Rightarrow> bool) \<Rightarrow> 'r collection \<Rightarrow> 'r list" where
  "filtered P c = filter P (map snd (rows c))"

text \<open>\<open>mk\<close> builds the row (defaults, time stamps, data) from its id.\<close>

definition c_create :: "(string \<Rightarrow> 'r) \<Rightarrow> 'r collection \<Rightarrow> 'r \<times> 'r collection" where
  "c_create mk c =
     (let i = generateId c (idCalls c); r = mk i
      in (r, c_set i r (c\<lparr>idCalls := Suc (idCalls c)\<rparr>)))"

definition c_findUnique :: "('r \<Rightarrow> bool) \<Rightarrow> 'r collection \<Rightarrow> 'r option" where
  "c_findUnique P c = (case filtered P c of [] \<Rightarrow> None | r # _ \<Rightarrow> Some r)"

text \<open>\<open>sortRows\<close> is a stable sort by the \<open>orderBy\<close> key, ascending or descending.\<close>

definition sortRows :: "('r \<Rightarrow> int) \<Rightarrow> bool \<Rightarrow> 'r list \<Rightarrow> 'r list" where
  "sortRows key desc rs = sort_key (\<lambda>r. if desc then - key r else key r) rs"

definition c_findFirst ::
  "('r \<Rightarrow> bool) \<Rightarrow> (('r \<Rightarrow> int) \<times> bool) option \<Rightarrow> 'r collection \<Rightarrow> 'r option" where
  "c_findFirst P ord c =
     (let rs = (case ord of None \<Rightarrow> filtered P c | Some (key, desc) \<Rightarrow> sortRows key desc (filtered P c))
      in case rs of [] \<Rightarrow> None | r # _ \<Rightarrow> Some r)"

definition c_findMany ::
  "('r \<Rightarrow> bool) \<Rightarrow> (('r \<Rightarrow> int) \<times> bool) option \<Rightarrow> nat \<Rightarrow> nat option \<Rightarrow> 'r collection \<Rightarrow> 'r list" where
  "c_findMany P ord skip tk c =
     (let rs = (case ord of None \<Rightarrow> filtered P c | Some (key, desc) \<Rightarrow> sortRows key desc (filtered P c));
          tail = drop skip rs
      in case tk of None \<Rightarrow> tail | Some n \<Rightarrow> take n tail)"

definition c_update ::
  "('r \<Rightarrow> bool) \<Rightarrow> ('r \<Rightarrow> 'r) \<Rightarrow> 'r collection \<Rightarrow> ('r \<times> 'r collection) option" where
  "c_update P f c =
     (case filtered P c of
        [] \<Rightarrow> None
      | r # _ \<Rightarrow> (let r' = f r in Some (r', c_set (idField c r') r' c)))"

definition c_updateMany :: "('r \<Rightarrow> bool) \<Rightarrow> ('r \<Rightarrow> 'r) \<Rightarrow> 'r collection \<Rightarrow> nat \<times> 'r collection" where
  "c_updateMany P f c =
     (let ms = filtered P c
      in (length ms, foldl (\<lambda>c r. c_set (idField c (f r)) (f r) c) c ms))"

definition c_upsert ::
  "('r \<Rightarrow> bool) \<Rightarrow> (string \<Rightarrow> 'r) \<Rightarrow> ('r \<Rightarrow> 'r) \<Rightarrow> 'r collection \<Rightarrow> 'r \<times> 'r collection" where
  "c_upsert P mk f c = (case c_update P f c of Some res \<Rightarrow> res | None \<Rightarrow> c_create mk c)"

definition c_delete :: "('r \<Rightarrow> bool) \<Rightarrow> 'r collection \<Rightarrow> ('r \<times> 'r collection) option" where
  "c_delete P c =
     (case filtered P c of
        [] \<Rightarrow> None
      | r # _ \<Rightarrow> Some (r, c\<lparr>rows := AList.delete (idField c r) (rows c)\<rparr>))"

definition c_deleteMany :: "('r \<Rightarrow> bool) \<Rightarrow> 'r collection \<Rightarrow> nat \<times> 'r collection" where
  "c_deleteMany P c =
     (let ms = filtered P c
      in (length ms, foldl (\<lambda>c r. c\<lparr>rows := AList.delete (idField c r) (rows c)\<rparr>) c ms))"

definition c_count :: "('r \<Rightarrow> bool) \<Rightarrow> 'r collection \<Rightarrow> nat" where
  "c_count P c = length (filtered P c)"

text \<open>\<open>groupBy\<close> on one field with \<open>_count\<close>: groups in the order of their first row.\<close>

definition c_groupBy :: "('r \<Rightarrow> 'f) \<Rightarrow> 'r collection \<Rightarrow> ('f \<times> nat) list" where
  "c_groupBy field c =
     foldl (\<lambda>g r. AList.update (field r) (case map_of g (field r) of None \<Rightarrow> 1 | Some n \<Rightarrow> n + 1) g)
       [] (map snd (rows c))"

definition peek :: "string \<Rightarrow> 'r collection \<Rightarrow> 'r option" where
  "peek k c = map_of (rows c) k"

subsection \<open>Well-formed collections\<close>

text \<open>
  Rows are filed under their id, ids are distinct, and the generator has not yet produced, and
  will never again produce, the id of a stored row.
\<close>

definition wf_collection :: "'r collection \<Rightarrow> bool" where
  "wf_collection c \<longleftrightarrow>
     distinct (map fst (rows c)) \<and>
     (\<forall>(k, r) \<in> set (rows c). idField c r = k) \<and>
     (\<forall>n \<ge> idCalls c. generateId c n \<notin> set (map fst (rows c))) \<and>
     inj (generateId c)"

subsection \<open>Queries and commands on a state with collections\<close>

text \<open>
  A table of a state \<open>'s\<close> is given by its field and the field's update function, both as
  \<open>record\<close> generates them.  \<open>RecordNotFound\<close> of the error type is a parameter \<open>nf\<close>.
\<close>

definition t_find :: "('s \<Rightarrow> 'r collection) \<Rightarrow> ('r \<Rightarrow> bool) \<Rightarrow> ('s, 'e, 'r option) comp" where
  "t_find tbl P = m_gets (\<lambda>s. c_findUnique P (tbl s))"

definition t_create ::
  "('s \<Rightarrow> 'r collection) \<Rightarrow> (('r collection \<Rightarrow> 'r collection) \<Rightarrow> 's \<Rightarrow> 's) \<Rightarrow> (string \<Rightarrow> 'r) \<Rightarrow>
   ('s, 'e, 'r) comp" where
  "t_create tbl upd mk s =
     (let (r, c) = c_create mk (tbl s) in (Inr r, upd (\<lambda>_. c) s))"

definition t_update ::
  "'e \<Rightarrow> ('s \<Rightarrow> 'r collection) \<Rightarrow> (('r collection \<Rightarrow> 'r collection) \<Rightarrow> 's \<Rightarrow> 's) \<Rightarrow> ('r \<Rightarrow> bool) \<Rightarrow>
   ('r \<Rightarrow> 'r) \<Rightarrow> ('s, 'e, 'r) comp" where
  "t_update nf tbl upd P f s =
     (case c_update P f (tbl s) of
        None \<Rightarrow> (Inl nf, s)
      | Some (r, c) \<Rightarrow> (Inr r, upd (\<lambda>_. c) s))"

definition t_updateMany ::
  "('s \<Rightarrow> 'r collection) \<Rightarrow> (('r collection \<Rightarrow> 'r collection) \<Rightarrow> 's \<Rightarrow> 's) \<Rightarrow> ('r \<Rightarrow> bool) \<Rightarrow>
   ('r \<Rightarrow> 'r) \<Rightarrow> ('s, 'e, nat) comp" where
  "t_updateMany tbl upd P f s =
     (let (n, c) = c_updateMany P f (tbl s) in (Inr n, upd (\<lambda>_. c) s))"

datatype data_store = Memory | Postgres

definition transaction ::
  "data_store \<Rightarrow> ('s \<Rightarrow> 's \<Rightarrow> 's) \<Rightarrow> ('s, 'e, 'a) comp \<Rightarrow> ('s, 'e, 'a) comp" where
  "transaction ds rollback body s =
     (case body s of
        (Inr a, s') \<Rightarrow> (Inr a, s')
      | (Inl e, s') \<Rightarrow> (Inl e, case ds of Memory \<Rightarrow> s' | Postgres \<Rightarrow> rollback s s'))"

lemmas table_defs [comp_simps] =
  t_find_def t_create_def t_update_def t_updateMany_def transaction_def

lemma preserves_transaction:
  assumes "preserves I m" and "\<And>s s'. I s \<Longrightarrow> I s' \<Longrightarrow> I (rollback s s')"
  shows "preserves I (transaction ds rollback m)"
proof (rule preservesI)
  fix s assume "I s"
  obtain r s' where ms: "m s = (r, s')" by (cases "m s")
  with assms(1) \<open>I s\<close> have "I s'" by (auto dest: preservesD)
  with ms \<open>I s\<close> assms(2) show "I (snd (transaction ds rollback m s))"
    by (cases r; cases ds) (auto simp: transaction_def)
qed

lemma preserves_t_find [preserve_intros]: "preserves I (t_find tbl P)"
  by (simp add: t_find_def preserves_gets)

text \<open>An invariant that does not look at the table.\<close>

lemma preserves_other_table:
  assumes "\<And>s c. I s \<Longrightarrow> I (upd (\<lambda>_. c) s)"
  shows "preserves I (t_create tbl upd mk)" "preserves I (t_update nf tbl upd P f)"
    "preserves I (t_updateMany tbl upd P f)"
  using assms by (auto simp: preserves_def t_create_def t_update_def t_updateMany_def
      split: prod.split option.split)

subsection \<open>Lookup by id\<close>

lemma filtered_id:
  assumes "wf_collection c"
  shows "filtered (\<lambda>r. idField c r = k) c = (case peek k c of None \<Rightarrow> [] | Some r \<Rightarrow> [r])"
proof -
  have "filter (\<lambda>r. f r = k) (map snd xs) = (case map_of xs k of None \<Rightarrow> [] | Some r \<Rightarrow> [r])"
    if "distinct (map fst xs)" "\<forall>(k, r) \<in> set xs. f r = k" for f :: "'a \<Rightarrow> string" and xs
    using that by (induction xs) (auto simp: filter_empty_conv rev_image_eqI split: option.splits)
  with assms show ?thesis by (simp add: filtered_def peek_def wf_collection_def)
qed

lemma filtered_id_conj:
  assumes "wf_collection c"
  shows "filtered (\<lambda>r. idField c r = k \<and> Q r) c =
     (case peek k c of None \<Rightarrow> [] | Some r \<Rightarrow> if Q r then [r] else [])"
proof -
  have "filtered (\<lambda>r. idField c r = k \<and> Q r) c = filter Q (filtered (\<lambda>r. idField c r = k) c)"
    by (simp add: filtered_def conj_commute)
  then show ?thesis by (simp add: filtered_id [OF assms] split: option.split)
qed

lemma peek_idField: "wf_collection c \<Longrightarrow> peek k c = Some r \<Longrightarrow> idField c r = k"
  by (auto simp: wf_collection_def peek_def dest: map_of_SomeD)

lemma findUnique_id: "wf_collection c \<Longrightarrow> c_findUnique (\<lambda>r. idField c r = k) c = peek k c"
  by (simp add: c_findUnique_def filtered_id split: option.split)

lemma filtered_memD:
  "wf_collection c \<Longrightarrow> r \<in> set (filtered P c) \<Longrightarrow> P r \<and> peek (idField c r) c = Some r"
  by (auto simp: filtered_def peek_def wf_collection_def intro!: map_of_is_SomeI)

lemma findUnique_SomeD:
  assumes "wf_collection c" and "c_findUnique P c = Some r"
  shows "P r \<and> peek (idField c r) c = Some r"
proof (rule filtered_memD [OF assms(1)])
  from assms(2) show "r \<in> set (filtered P c)" by (auto simp: c_findUnique_def split: list.splits)
qed

lemma filtered_memI: "peek k c = Some r \<Longrightarrow> P r \<Longrightarrow> r \<in> set (filtered P c)"
  by (force simp: filtered_def peek_def dest: map_of_SomeD)

lemma c_update_id:
  assumes "wf_collection c" and "\<And>r. idField c (f r) = idField c r"
  shows "c_update (\<lambda>r. idField c r = k) f c =
     (case peek k c of None \<Rightarrow> None | Some r \<Rightarrow> Some (f r, c_set k (f r) c))"
  using assms peek_idField [OF assms(1)]
  by (auto simp: c_update_def Let_def filtered_id split: option.splits)

lemma c_update_id_conj:
  assumes "wf_collection c" and "\<And>r. idField c (f r) = idField c r"
  shows "c_update (\<lambda>r. idField c r = k \<and> Q r) f c =
     (case peek k c of None \<Rightarrow> None
      | Some r \<Rightarrow> if Q r then Some (f r, c_set k (f r) c) else None)"
  using assms peek_idField [OF assms(1)]
  by (auto simp: c_update_def Let_def filtered_id_conj split: option.splits)

text \<open>The guarded \<open>updateMany\<close> on one id is a compare-and-set.\<close>

lemma c_updateMany_id:
  assumes "wf_collection c" and "\<And>r. idField c (f r) = idField c r"
  shows "c_updateMany (\<lambda>r. idField c r = k \<and> Q r) f c =
     (case peek k c of None \<Rightarrow> (0, c)
      | Some r \<Rightarrow> if Q r then (1, c_set k (f r) c) else (0, c))"
  using assms peek_idField [OF assms(1)]
  by (auto simp: c_updateMany_def filtered_id_conj split: option.splits)

lemma idField_c_set [simp]: "idField (c_set k r c) = idField c"
  by (simp add: c_set_def)

lemma generateId_c_set [simp]: "generateId (c_set k r c) = generateId c"
  by (simp add: c_set_def)

lemma idCalls_c_set [simp]: "idCalls (c_set k r c) = idCalls c"
  by (simp add: c_set_def)

lemma peek_c_set [simp]: "peek k' (c_set k r c) = (if k' = k then Some r else peek k' c)"
  by (simp add: peek_def c_set_def update_conv')

lemma set_AList_update: "x \<in> set (AList.update k v al) \<Longrightarrow> x = (k, v) \<or> x \<in> set al"
  by (induction al) (auto split: if_splits)

lemma wf_c_set:
  assumes "wf_collection c" and "idField c r = k" and "\<forall>n \<ge> idCalls c. generateId c n \<noteq> k"
  shows "wf_collection (c_set k r c)"
proof -
  let ?al = "AList.update k r (rows c)"
  have "distinct (map fst ?al)" using assms(1) by (simp add: wf_collection_def distinct_update)
  moreover have "\<forall>(k', r') \<in> set ?al. idField c r' = k'"
    using assms(1,2) by (auto simp: wf_collection_def dest!: set_AList_update)
  moreover have "\<forall>n \<ge> idCalls c. generateId c n \<notin> set (map fst ?al)"
    using assms(1,3) by (auto simp: wf_collection_def update_keys)
  ultimately show ?thesis using assms(1) by (simp add: wf_collection_def c_set_def)
qed

text \<open>Overwriting a stored row under its own id keeps the collection well formed.\<close>

lemma wf_c_set_peek:
  assumes "wf_collection c" and "peek k c = Some r0" and "idField c r = k"
  shows "wf_collection (c_set k r c)"
proof (rule wf_c_set [OF assms(1,3)])
  from assms(2) have "k \<in> set (map fst (rows c))" by (force simp: peek_def dest: map_of_SomeD)
  with assms(1) show "\<forall>n \<ge> idCalls c. generateId c n \<noteq> k" by (auto simp: wf_collection_def)
qed

lemma wf_c_create:
  assumes "wf_collection c" and "\<And>i. idField c (mk i) = i"
  shows "wf_collection (snd (c_create mk c))"
proof -
  let ?i = "generateId c (idCalls c)"
  have "wf_collection (c\<lparr>idCalls := Suc (idCalls c)\<rparr>)"
    using assms(1) by (simp add: wf_collection_def)
  moreover have "\<forall>n \<ge> Suc (idCalls c). generateId c n \<noteq> ?i"
    using assms(1) by (auto simp: wf_collection_def dest: injD)
  ultimately show ?thesis
    using assms(2) by (simp add: c_create_def Let_def wf_c_set)
qed

lemma c_create_fresh: "wf_collection c \<Longrightarrow> peek (generateId c (idCalls c)) c = None"
  by (auto simp: wf_collection_def peek_def map_of_eq_None_iff)

lemma peek_c_create:
  "peek k (snd (c_create mk c)) =
     (if k = generateId c (idCalls c) then Some (mk (generateId c (idCalls c))) else peek k c)"
  by (simp add: c_create_def Let_def peek_def c_set_def update_conv')

lemma idField_c_create [simp]: "idField (snd (c_create mk c)) = idField c"
  by (simp add: c_create_def Let_def)

lemma wf_c_update:
  assumes "wf_collection c" and "\<And>r. idField c (f r) = idField c r" and "c_update P f c = Some (r', c')"
  shows "wf_collection c'"
proof -
  from assms(3) obtain r where r: "r \<in> set (filtered P c)" "r' = f r" "c' = c_set (idField c r') r' c"
    by (auto simp: c_update_def Let_def split: list.splits)
  with assms(1,2) have "peek (idField c r') c = Some r" by (simp add: filtered_memD)
  with assms(1) r(3) show ?thesis by (simp add: wf_c_set_peek)
qed

lemma c_update_idField: "c_update P f c = Some (r', c') \<Longrightarrow> idField c' = idField c"
  by (auto simp: c_update_def Let_def split: list.splits)

subsection \<open>A collection filed under an id column\<close>

definition wf_t :: "('r \<Rightarrow> string) \<Rightarrow> 'r collection \<Rightarrow> bool" where
  "wf_t idf c \<longleftrightarrow> wf_collection c \<and> idField c = idf"

lemma wf_t_id: "wf_t idf c \<Longrightarrow> peek k c = Some r \<Longrightarrow> idf r = k"
  by (auto simp: wf_t_def dest: peek_idField)

lemma wf_t_set: "wf_t idf c \<Longrightarrow> peek k c = Some r0 \<Longrightarrow> idf r = k \<Longrightarrow> wf_t idf (c_set k r c)"
  by (auto simp: wf_t_def intro: wf_c_set_peek)

lemma wf_t_create: "wf_t idf c \<Longrightarrow> (\<And>i. idf (mk i) = i) \<Longrightarrow> wf_t idf (snd (c_create mk c))"
  by (auto simp: wf_t_def intro: wf_c_create)

lemma wf_t_fresh: "wf_t idf c \<Longrightarrow> peek (generateId c (idCalls c)) c = None"
  by (simp add: wf_t_def c_create_fresh)

lemma fst_c_create: "fst (c_create mk c) = mk (generateId c (idCalls c))"
  by (simp add: c_create_def Let_def)

lemma t_find_id: "wf_t idf (tbl s) \<Longrightarrow> t_find tbl (\<lambda>r. idf r = k) s = (Inr (peek k (tbl s)), s)"
  unfolding wf_t_def by (auto simp: t_find_def m_gets_def findUnique_id)

lemma t_update_id:
  assumes "wf_t idf (tbl s)" and "\<And>r. idf (f r) = idf r"
  shows "t_update nf tbl upd (\<lambda>r. idf r = k) f s =
     (case peek k (tbl s) of None \<Rightarrow> (Inl nf, s)
      | Some r \<Rightarrow> (Inr (f r), upd (\<lambda>_. c_set k (f r) (tbl s)) s))"
proof -
  have wf: "wf_collection (tbl s)" and idf: "idf = idField (tbl s)" using assms(1) by (auto simp: wf_t_def)
  from assms(2) have "idField (tbl s) (f r) = idField (tbl s) r" for r by (simp add: idf)
  then show ?thesis unfolding t_update_def idf by (simp add: c_update_id [OF wf] split: option.split)
qed

lemma t_update_id_conj:
  assumes "wf_t idf (tbl s)" and "\<And>r. idf (f r) = idf r"
  shows "t_update nf tbl upd (\<lambda>r. idf r = k \<and> Q r) f s =
     (case peek k (tbl s) of None \<Rightarrow> (Inl nf, s)
      | Some r \<Rightarrow> if Q r then (Inr (f r), upd (\<lambda>_. c_set k (f r) (tbl s)) s) else (Inl nf, s))"
proof -
  have wf: "wf_collection (tbl s)" and idf: "idf = idField (tbl s)" using assms(1) by (auto simp: wf_t_def)
  from assms(2) have "idField (tbl s) (f r) = idField (tbl s) r" for r by (simp add: idf)
  then show ?thesis unfolding t_update_def idf by (simp add: c_update_id_conj [OF wf] split: option.split)
qed

lemma t_updateMany_id:
  assumes "wf_t idf (tbl s)" and "\<And>r. idf (f r) = idf r" and "upd (\<lambda>_. tbl s) s = s"
  shows "t_updateMany tbl upd (\<lambda>r. idf r = k \<and> Q r) f s =
     (case peek k (tbl s) of None \<Rightarrow> (Inr 0, s)
      | Some r \<Rightarrow> if Q r then (Inr 1, upd (\<lambda>_. c_set k (f r) (tbl s)) s) else (Inr 0, s))"
proof -
  have wf: "wf_collection (tbl s)" and idf: "idf = idField (tbl s)" using assms(1) by (auto simp: wf_t_def)
  from assms(2) have "idField (tbl s) (f r) = idField (tbl s) r" for r by (simp add: idf)
  then show ?thesis
    unfolding t_updateMany_def idf by (simp add: c_updateMany_id [OF wf] assms(3) split: option.split)
qed

subsection \<open>Properties of every row\<close>

definition c_all :: "('r \<Rightarrow> bool) \<Rightarrow> 'r collection \<Rightarrow> bool" where
  "c_all R c \<longleftrightarrow> (\<forall>(k, r) \<in> set (rows c). R r)"

lemma c_all_peek: "c_all R c \<Longrightarrow> peek k c = Some r \<Longrightarrow> R r"
  by (auto simp: c_all_def peek_def dest: map_of_SomeD)

lemma c_allI:
  assumes "wf_t idf c" and "\<And>k r. peek k c = Some r \<Longrightarrow> R r"
  shows "c_all R c"
proof -
  have "peek k c = Some r" if "(k, r) \<in> set (rows c)" for k r
    using that assms(1) by (auto simp: peek_def wf_t_def wf_collection_def intro: map_of_is_SomeI)
  with assms(2) show ?thesis by (auto simp: c_all_def)
qed

lemma c_all_set: "c_all R c \<Longrightarrow> R r \<Longrightarrow> c_all R (c_set k r c)"
  by (auto simp: c_all_def c_set_def dest!: set_AList_update)

lemma c_all_create: "c_all R c \<Longrightarrow> (\<And>i. R (mk i)) \<Longrightarrow> c_all R (snd (c_create mk c))"
  by (simp add: c_create_def Let_def c_all_set) (simp add: c_all_def c_set_def, force dest: set_AList_update)

lemma c_all_filtered: "c_all R c \<Longrightarrow> r \<in> set (filtered P c) \<Longrightarrow> R r"
  by (auto simp: c_all_def filtered_def)

lemma c_all_update: "c_all R c \<Longrightarrow> (\<And>r. R r \<Longrightarrow> R (f r)) \<Longrightarrow> c_update P f c = Some (r', c') \<Longrightarrow> c_all R c'"
  by (auto simp: c_update_def Let_def intro!: c_all_set dest: c_all_filtered split: list.splits)
    (metis c_all_filtered list.set_intros(1))

lemma c_all_updateMany:
  assumes "c_all R c" and "\<And>r. R r \<Longrightarrow> R (f r)"
  shows "c_all R (snd (c_updateMany P f c))"
proof -
  have "c_all R (foldl (\<lambda>c r. c_set (idField c (f r)) (f r) c) d ms)"
    if "c_all R d" "\<forall>r \<in> set ms. R r" for d ms
    using that by (induction ms arbitrary: d) (auto intro: c_all_set assms(2))
  moreover have "\<forall>r \<in> set (filtered P c). R r" using c_all_filtered [OF assms(1)] by blast
  ultimately show ?thesis using assms(1) by (simp add: c_updateMany_def Let_def)
qed

lemma preserves_all:
  assumes "\<And>s c. tbl (upd (\<lambda>_. c) s) = c"
  shows "(\<And>i. R (mk i)) \<Longrightarrow> preserves (\<lambda>s. c_all R (tbl s)) (t_create tbl upd mk)"
    "(\<And>r. R r \<Longrightarrow> R (f r)) \<Longrightarrow> preserves (\<lambda>s. c_all R (tbl s)) (t_update nf tbl upd P f)"
    "(\<And>r. R r \<Longrightarrow> R (f r)) \<Longrightarrow> preserves (\<lambda>s. c_all R (tbl s)) (t_updateMany tbl upd P f)"
proof (goal_cases)
  case 1
  then show ?case
    using c_all_create [of R _ mk] by (auto simp: preserves_def t_create_def assms split: prod.split) (metis snd_conv)
next
  case 2
  then show ?case
    by (auto simp: preserves_def t_update_def assms split: prod.split option.split intro: c_all_update [of R])
next
  case 3
  then show ?case
    using c_all_updateMany [of R _ f P] by (auto simp: preserves_def t_updateMany_def assms split: prod.split)
      (metis snd_conv)
qed

subsection \<open>Sums over a collection\<close>

definition c_sum :: "('r \<Rightarrow> 'v::ab_group_add) \<Rightarrow> 'r collection \<Rightarrow> 'v" where
  "c_sum f c = (\<Sum>(k, r)\<leftarrow>rows c. f r)"

lemma sum_AList_update:
  fixes f :: "'r \<Rightarrow> 'v::ab_group_add"
  shows "(\<Sum>(k, r)\<leftarrow>AList.update k v al. f r) =
     (\<Sum>(k, r)\<leftarrow>al. f r) + f v - (case map_of al k of None \<Rightarrow> 0 | Some r \<Rightarrow> f r)"
  by (induction al) (auto split: option.splits)

lemma c_sum_set:
  "c_sum f (c_set k r c) = c_sum f c + f r - (case peek k c of None \<Rightarrow> 0 | Some r0 \<Rightarrow> f r0)"
  by (simp add: c_sum_def c_set_def peek_def sum_AList_update)

lemma c_sum_create:
  assumes "wf_t idf c"
  shows "c_sum f (snd (c_create mk c)) = c_sum f c + f (mk (generateId c (idCalls c)))"
proof -
  from wf_t_fresh [OF assms] show ?thesis
    by (simp add: c_create_def Let_def c_sum_def c_set_def peek_def sum_AList_update)
qed

lemma c_sum_closed:
  assumes "wf_t idf c" and "Q 0" and "\<And>x y. Q x \<Longrightarrow> Q y \<Longrightarrow> Q (x + y)"
    and "\<And>k r. peek k c = Some r \<Longrightarrow> Q (f r)"
  shows "Q (c_sum f c)"
proof -
  have "peek k c = Some r" if "(k, r) \<in> set (rows c)" for k r
    using that assms(1) by (auto simp: peek_def wf_t_def wf_collection_def intro: map_of_is_SomeI)
  with assms(4) have "\<forall>(k, r) \<in> set (rows c). Q (f r)" by blast
  moreover have "Q (\<Sum>(k, r)\<leftarrow>al. f r)" if "\<forall>(k, r) \<in> set al. Q (f r)" for al
    using that by (induction al) (auto simp: assms(2,3))
  ultimately show ?thesis by (simp add: c_sum_def)
qed

lemma c_sum_mono:
  fixes f g :: "'r \<Rightarrow> 'v::ordered_ab_group_add"
  assumes "wf_t idf c" and "\<And>k r. peek k c = Some r \<Longrightarrow> f r \<le> g r"
  shows "c_sum f c \<le> c_sum g c"
proof -
  have "c_all (\<lambda>r. f r \<le> g r) c" by (rule c_allI [OF assms])
  then have "(\<Sum>(k, r)\<leftarrow>rows c. f r) \<le> (\<Sum>(k, r)\<leftarrow>rows c. g r)"
    by (auto simp: c_all_def intro!: sum_list_mono)
  then show ?thesis by (simp add: c_sum_def)
qed

lemma c_sum_add: "c_sum (\<lambda>r. f r + g r) c = c_sum f c + c_sum g c"
proof -
  have "(\<Sum>(k, r)\<leftarrow>al. f r + g r) = (\<Sum>(k, r)\<leftarrow>al. f r) + (\<Sum>(k, r)\<leftarrow>al. g r)" for al
    by (induction al) (auto simp: algebra_simps)
  then show ?thesis by (simp add: c_sum_def)
qed

lemma filtered_distinct:
  assumes "wf_t idf c"
  shows "distinct (map idf (filtered P c))"
proof -
  have eq: "map idf (map snd (rows c)) = map fst (rows c)"
    using assms by (auto simp: wf_t_def wf_collection_def)
  have "distinct (map idf (map snd (rows c)))" unfolding eq using assms by (simp add: wf_t_def wf_collection_def)
  then show ?thesis unfolding filtered_def by (rule distinct_map_filter)
qed

lemma c_sum_filtered: "c_sum (\<lambda>r. if P r then f r else 0) c = (\<Sum>r\<leftarrow>filtered P c. f r)"
proof -
  have "(\<Sum>(k, r)\<leftarrow>al. if P r then f r else 0) = (\<Sum>r\<leftarrow>filter P (map snd al). f r)" for al
    by (induction al) auto
  then show ?thesis by (simp add: c_sum_def filtered_def)
qed

subsection \<open>Deleting rows\<close>

lemma deleteMany_rows:
  "foldl (\<lambda>c r. c\<lparr>rows := AList.delete (idField c r) (rows c)\<rparr>) c ms =
     c\<lparr>rows := filter (\<lambda>p. fst p \<notin> idField c ` set ms) (rows c)\<rparr>"
proof -
  have "AList.delete x al = filter (\<lambda>p. fst p \<noteq> x) al" for x and al :: "(string \<times> 'a) list"
    by (auto simp: AList.delete_eq case_prod_unfold intro: filter_cong)
  then show ?thesis by (induction ms arbitrary: c) (simp_all add: filter_filter)
qed

lemma deleteMany_peek:
  assumes "wf_t idf c"
  shows "peek k (snd (c_deleteMany P c)) = (case peek k c of None \<Rightarrow> None | Some r \<Rightarrow> if P r then None else Some r)"
    and "wf_t idf (snd (c_deleteMany P c))"
proof -
  have c: "snd (c_deleteMany P c) = c\<lparr>rows := filter (\<lambda>p. fst p \<notin> idf ` set (filtered P c)) (rows c)\<rparr>"
    using assms by (simp add: c_deleteMany_def Let_def deleteMany_rows wf_t_def)
  have mem: "k \<in> idf ` set (filtered P c) \<longleftrightarrow> (\<exists>r. peek k c = Some r \<and> P r)" for k
    using assms filtered_memD [of c _ P] filtered_memI [of k c _ P] wf_t_id [OF assms]
    by (auto simp: wf_t_def image_iff) blast
  have "map_of (filter (\<lambda>p. fst p \<notin> A) al) k = (if k \<in> A then None else map_of al k)" for A and al :: "(string \<times> 'a) list"
    by (induction al) auto
  then have "peek k (snd (c_deleteMany P c)) = (if k \<in> idf ` set (filtered P c) then None else peek k c)"
    by (simp add: c peek_def)
  then show "peek k (snd (c_deleteMany P c)) = (case peek k c of None \<Rightarrow> None | Some r \<Rightarrow> if P r then None else Some r)"
    unfolding mem by (auto split: option.split)
  show "wf_t idf (snd (c_deleteMany P c))"
    unfolding c using assms by (auto simp: wf_t_def wf_collection_def distinct_map_filter)
qed

subsection \<open>Updating rows\<close>

lemma updateMany_peek:
  assumes wf: "wf_t idf c" and f: "\<And>r. idf (f r) = idf r"
  shows "peek k (snd (c_updateMany P f c)) =
    (case peek k c of None \<Rightarrow> None | Some r \<Rightarrow> Some (if P r then f r else r))"
proof -
  have idf: "idField c = idf" "wf_collection c" using wf by (auto simp: wf_t_def)
  have fold: "peek k (foldl (\<lambda>c r. c_set (idField c (f r)) (f r) c) d ms) =
      (case List.find (\<lambda>r. idf r = k) ms of None \<Rightarrow> peek k d | Some r \<Rightarrow> Some (f r))"
    if "idField d = idf" "distinct (map idf ms)" for d ms
    using that
  proof (induction ms arbitrary: d)
    case (Cons r ms)
    have "List.find (\<lambda>r. idf r = k) ms = None" if "idf r = k"
      using that Cons.prems(2) by (auto simp: find_None_iff image_iff)
    with Cons show ?case by (auto simp: f split: option.split)
  qed simp
  have mem: "peek k c = Some r" if "r \<in> set (filtered P c)" "idf r = k" for r
    using filtered_memD [OF idf(2) that(1)] that(2) idf(1) by simp
  have "List.find (\<lambda>r. idf r = k) (filtered P c) = (case peek k c of Some r \<Rightarrow> if P r then Some r else None | None \<Rightarrow> None)"
  proof (cases "List.find (\<lambda>r. idf r = k) (filtered P c)")
    case None
    then have "\<And>r. r \<in> set (filtered P c) \<Longrightarrow> idf r \<noteq> k" by (auto simp: find_None_iff)
    then have "\<not> P r" if "peek k c = Some r" for r using filtered_memI [OF that, of P] wf_t_id [OF wf that] by blast
    then show ?thesis using None by (auto split: option.split)
  next
    case (Some r)
    then have "r \<in> set (filtered P c)" "idf r = k" by (auto dest: find_Some_set)
    with Some mem show ?thesis by (auto simp: filtered_def)
  qed
  then show ?thesis
    using fold [OF idf(1) filtered_distinct [OF wf]] by (auto simp: c_updateMany_def Let_def split: option.split)
qed

lemma updateMany_wf:
  assumes wf: "wf_t idf c" and f: "\<And>r. idf (f r) = idf r"
  shows "wf_t idf (snd (c_updateMany P f c))"
proof -
  have "wf_t idf (foldl (\<lambda>c r. c_set (idField c (f r)) (f r) c) d ms)"
    if "wf_t idf d" "\<forall>r \<in> set ms. \<exists>r0. peek (idf r) d = Some r0" for d ms
    using that
  proof (induction ms arbitrary: d)
    case (Cons r ms)
    then obtain r0 where r0: "peek (idf r) d = Some r0" by auto
    have id: "idField d = idf" using Cons.prems(1) by (simp add: wf_t_def)
    have "wf_t idf (c_set (idf r) (f r) d)" by (rule wf_t_set [OF Cons.prems(1) r0 f])
    then show ?case using Cons.IH [of "c_set (idf r) (f r) d"] Cons.prems(2) id by (auto simp: f)
  qed simp
  moreover have "\<exists>r0. peek (idf r) c = Some r0" if "r \<in> set (filtered P c)" for r
    using filtered_memD [OF _ that] wf by (auto simp: wf_t_def)
  ultimately show ?thesis using wf by (simp add: c_updateMany_def Let_def)
qed

text \<open>\<open>findUnique\<close> and \<open>update\<close> under the same condition work on the same row, also when they are repeated.\<close>

lemma find_then_update:
  assumes wf: "wf_t idf c" and f: "\<And>r. idf (f r) = idf r" "\<And>r. P r \<Longrightarrow> P (f r)"
    and found: "c_findUnique P c = Some r"
  shows "c_update P f c = Some (f r, c_set (idf r) (f r) c)" "c_findUnique P (c_set (idf r) (f r) c) = Some (f r)"
    "peek (idf r) c = Some r"
proof -
  have id: "idField c = idf" "wf_collection c" using wf by (auto simp: wf_t_def)
  have r: "r \<in> set (filtered P c)" using found by (auto simp: c_findUnique_def split: list.splits)
  then have P: "P r" by (auto simp: filtered_def)
  show "peek (idf r) c = Some r" using filtered_memD [OF id(2) r] id by simp
  show "c_update P f c = Some (f r, c_set (idf r) (f r) c)"
    using found id f(1) by (auto simp: c_findUnique_def c_update_def Let_def split: list.splits)
  have "filter P (map snd (AList.update k (f r) al)) = f r # rs"
    if "filter P (map snd al) = r # rs" "distinct (map fst al)" "\<forall>(j, x) \<in> set al. idf x = j" "k = idf r" for al rs k
    using that
  proof (induction al)
    case (Cons p al)
    show ?case
    proof (cases "P (snd p)")
      case True
      with Cons.prems show ?thesis using f(2) P by (cases p) auto
    next
      case False
      then have "r \<in> set (filter P (map snd al))" using Cons.prems(1) by simp
      then obtain j where "(j, r) \<in> set al" by auto
      then have "(idf r, r) \<in> set al" using Cons.prems(3) by auto
      then have "fst p \<noteq> idf r" using Cons.prems(2) by (auto simp: image_iff)
      with False Cons show ?thesis by (cases p) auto
    qed
  qed simp
  from this [of "rows c"] show "c_findUnique P (c_set (idf r) (f r) c) = Some (f r)"
    using found id by (auto simp: c_findUnique_def filtered_def c_set_def wf_collection_def split: list.splits)
qed

lemma find_after_create:
  assumes "wf_t idf c" and "c_findUnique P c = None" and "\<And>i. P (mk i)"
  shows "c_findUnique P (snd (c_create mk c)) = Some (mk (generateId c (idCalls c)))"
proof -
  have "generateId c (idCalls c) \<notin> fst ` set (rows c)"
    using assms(1) by (auto simp: wf_t_def wf_collection_def)
  moreover have new: "AList.update k v al = al @ [(k, v)]" if "k \<notin> fst ` set al" for k v and al :: "(string \<times> 'a) list"
    using that by (induction al) auto
  ultimately have "rows (snd (c_create mk c)) = rows c @ [(generateId c (idCalls c), mk (generateId c (idCalls c)))]"
    by (simp add: c_create_def Let_def c_set_def new)
  then show ?thesis using assms(2,3) by (auto simp: c_findUnique_def filtered_def split: list.splits)
qed

subsection \<open>The contract of a table\<close>

text \<open>
  What a service may rely on: \<open>get\<close> after \<open>add\<close>, \<open>put\<close> and \<open>rem\<close>, and that an added row gets an
  id no row has.
\<close>

locale table =
  fixes get :: "'t \<Rightarrow> string \<Rightarrow> 'r option"
    and add :: "(string \<Rightarrow> 'r) \<Rightarrow> 't \<Rightarrow> 'r \<times> 't"
    and put :: "string \<Rightarrow> ('r \<Rightarrow> 'r) \<Rightarrow> 't \<Rightarrow> 't"
    and rem :: "string \<Rightarrow> 't \<Rightarrow> 't"
    and fresh :: "'t \<Rightarrow> string"
    and invar :: "'t \<Rightarrow> bool"
    and fileable :: "'t \<Rightarrow> (string \<Rightarrow> 'r) \<Rightarrow> bool"
    and idkeeping :: "'t \<Rightarrow> ('r \<Rightarrow> 'r) \<Rightarrow> bool"
  assumes fresh_unused: "invar t \<Longrightarrow> get t (fresh t) = None"
    and get_add: "invar t \<Longrightarrow> fileable t mk \<Longrightarrow> get (snd (add mk t)) = (get t)(fresh t := Some (mk (fresh t)))"
    and fst_add: "fst (add mk t) = mk (fresh t)"
    and get_put: "invar t \<Longrightarrow> idkeeping t f \<Longrightarrow> get (put k f t) = (get t)(k := map_option f (get t k))"
    and get_rem: "invar t \<Longrightarrow> get (rem k t) = (get t)(k := None)"
    and invar_add: "invar t \<Longrightarrow> fileable t mk \<Longrightarrow> invar (snd (add mk t))"
    and invar_put: "invar t \<Longrightarrow> idkeeping t f \<Longrightarrow> invar (put k f t)"
    and invar_rem: "invar t \<Longrightarrow> invar (rem k t)"
begin

lemma add_keeps: "invar t \<Longrightarrow> fileable t mk \<Longrightarrow> get t k = Some r \<Longrightarrow> get (snd (add mk t)) k = Some r"
  using fresh_unused by (auto simp: get_add)

lemma add_then_get: "invar t \<Longrightarrow> fileable t mk \<Longrightarrow> get (snd (add mk t)) (fresh t) = Some (fst (add mk t))"
  by (simp add: get_add fst_add)

lemma put_frame: "invar t \<Longrightarrow> idkeeping t f \<Longrightarrow> k' \<noteq> k \<Longrightarrow> get (put k f t) k' = get t k'"
  by (simp add: get_put)

lemma put_absent: "invar t \<Longrightarrow> idkeeping t f \<Longrightarrow> get t k = None \<Longrightarrow> get (put k f t) = get t"
  by (auto simp: get_put fun_eq_iff)

lemma put_dom: "invar t \<Longrightarrow> idkeeping t f \<Longrightarrow> dom (get (put k f t)) = dom (get t)"
  by (auto simp: get_put split: if_splits)

lemma put_put:
  "invar t \<Longrightarrow> idkeeping t f \<Longrightarrow> idkeeping (put k f t) g \<Longrightarrow> get (put k g (put k f t)) k = map_option (g \<circ> f) (get t k)"
  by (simp add: get_put invar_put option.map_comp)

lemma add_rem: "invar t \<Longrightarrow> fileable t mk \<Longrightarrow> get (rem (fresh t) (snd (add mk t))) = get t"
  by (auto simp: get_rem invar_add get_add fresh_unused fun_eq_iff)

end

definition c_put :: "string \<Rightarrow> ('r \<Rightarrow> 'r) \<Rightarrow> 'r collection \<Rightarrow> 'r collection" where
  "c_put k f c = (case c_update (\<lambda>r. idField c r = k) f c of None \<Rightarrow> c | Some (_, c') \<Rightarrow> c')"

definition c_rem :: "string \<Rightarrow> 'r collection \<Rightarrow> 'r collection" where
  "c_rem k c = (case c_delete (\<lambda>r. idField c r = k) c of None \<Rightarrow> c | Some (_, c') \<Rightarrow> c')"

lemma peek_c_rem:
  assumes "wf_collection c"
  shows "peek k' (c_rem k c) = (if k' = k then None else peek k' c)"
  using peek_idField [OF assms]
  by (auto simp: c_rem_def c_delete_def filtered_id [OF assms] peek_def delete_conv'
      split: option.splits)

lemma wf_c_rem: "wf_collection c \<Longrightarrow> wf_collection (c_rem k c)"
  by (auto simp: c_rem_def c_delete_def wf_collection_def AList.delete_eq distinct_map_filter
      split: list.splits)

lemma c_put_peek:
  assumes "wf_collection c" and "\<And>r. idField c (f r) = idField c r"
  shows "c_put k f c = (case peek k c of None \<Rightarrow> c | Some r \<Rightarrow> c_set k (f r) c)"
  by (simp add: c_put_def c_update_id [OF assms] split: option.split)

interpretation coll: table
  "\<lambda>c k. peek k c" c_create c_put c_rem "\<lambda>c. generateId c (idCalls c)" wf_collection
  "\<lambda>c mk. \<forall>i. idField c (mk i) = i" "\<lambda>c f. \<forall>r. idField c (f r) = idField c r"
proof (unfold_locales, goal_cases)
  case (1 t) then show ?case by (rule c_create_fresh)
next
  case (2 t mk) then show ?case by (auto simp: peek_c_create fun_eq_iff)
next
  case (3 mk t) then show ?case by (simp add: c_create_def Let_def)
next
  case (4 t f k) then show ?case by (auto simp: c_put_peek fun_eq_iff split: option.split)
next
  case (5 t k) then show ?case by (auto simp: peek_c_rem fun_eq_iff)
next
  case (6 t mk) then show ?case by (simp add: wf_c_create)
next
  case (7 t f k) then show ?case
    by (auto simp: c_put_peek peek_idField intro: wf_c_set_peek split: option.split)
next
  case (8 t k) then show ?case by (rule wf_c_rem)
qed

end
