(* ===== verification/Resilience.thy ===== *)
theory Resilience
  imports Complex_Main Errors
begin

text \<open>
  The wrappers around unreliable calls.
  \<^item> \<open>src/src/utils/retry.util.ts\<close>: \<open>withRetry\<close>, \<open>retryOrThrow\<close>;
  \<^item> \<open>src/src/utils/timeout-wrapper.ts\<close>: \<open>withTimeout\<close>;
  \<^item> \<open>src/src/utils/circuit-breaker.ts\<close>: the class \<open>CircuitBreaker\<close>;
  \<^item> \<open>src/src/utils/backpressure.ts\<close>: \<open>createConcurrencyLimiter\<close>.

  An operation is a computation over a state \<open>'s\<close>; every attempt of a retried operation runs on
  the state the previous attempt left.  Elapsed time is not modelled, the delays between attempts
  are returned as a list.  Breaker and limiter are step functions: concurrent calls are sequences
  of their begin and end events.
\<close>

subsection \<open>retry.util.ts\<close>

record retry_policy =
  maxAttempts :: nat
  initialDelayMs :: rat
  maxDelayMs :: rat
  backoffMultiplier :: rat

definition default_retry_policy :: retry_policy where
  "default_retry_policy = \<lparr>maxAttempts = 3, initialDelayMs = 100, maxDelayMs = 5000, backoffMultiplier = 2\<rparr>"

definition RETRYABLE_ERROR_CODES :: "string list" where
  "RETRYABLE_ERROR_CODES = [''P2034'', ''P2025'', ''ECONNREFUSED'', ''ETIMEDOUT'', ''ENOTFOUND'']"

fun code_of :: "js_error \<Rightarrow> string option" where
  "code_of (Prisma c meta m) = Some c"
| "code_of (NodeError c m) = Some c"
| "code_of _ = None"

definition isRetryableError :: "js_error \<Rightarrow> bool" where
  "isRetryableError error \<longleftrightarrow>
     (case code_of error of None \<Rightarrow> False | Some c \<Rightarrow> c \<in> set RETRYABLE_ERROR_CODES) \<or>
     list_ex (\<lambda>c. str_includes (message_of error) c) RETRYABLE_ERROR_CODES \<or>
     str_includes (message_of error) ''timeout''"

record 'a retry_result =
  rr_outcome :: "js_error + 'a"
  attemptsUsed :: nat
  sleeps :: "rat list"

function retry_loop ::
  "retry_policy \<Rightarrow> (js_error \<Rightarrow> bool) \<Rightarrow> ('s, js_error, 'a) comp \<Rightarrow> nat \<Rightarrow> rat \<Rightarrow> rat list \<Rightarrow>
   js_error option \<Rightarrow> 's \<Rightarrow> 'a retry_result \<times> 's" where
  "retry_loop P isRetryable operation attempt delayMs slept lastError s =
     (if attempt \<le> maxAttempts P then
        (case operation s of
           (Inr data, s') \<Rightarrow> (\<lparr>rr_outcome = Inr data, attemptsUsed = attempt, sleeps = slept\<rparr>, s')
         | (Inl e, s') \<Rightarrow>
             if \<not> isRetryable e \<or> attempt = maxAttempts P then
               (\<lparr>rr_outcome = Inl e, attemptsUsed = attempt, sleeps = slept\<rparr>, s')
             else let d = min (delayMs * backoffMultiplier P) (maxDelayMs P)
                  in retry_loop P isRetryable operation (Suc attempt) d (slept @ [d]) (Some e) s')
      else (\<lparr>rr_outcome = Inl (case lastError of None \<Rightarrow> JsError ''Unknown error'' | Some e \<Rightarrow> e),
             attemptsUsed = maxAttempts P, sleeps = slept\<rparr>, s))"
  by pat_completeness auto
termination
  by (relation "measure (\<lambda>(P, r, m, a, d, l, e, s). Suc (maxAttempts P) - a)") auto

declare retry_loop.simps [simp del]

definition withRetry ::
  "retry_policy \<Rightarrow> (js_error \<Rightarrow> bool) \<Rightarrow> ('s, js_error, 'a) comp \<Rightarrow> 's \<Rightarrow> 'a retry_result \<times> 's" where
  "withRetry P isRetryable operation s =
     retry_loop P isRetryable operation 1 (initialDelayMs P) [] None s"

definition retryOrThrow ::
  "retry_policy \<Rightarrow> (js_error \<Rightarrow> bool) \<Rightarrow> ('s, js_error, 'a) comp \<Rightarrow> ('s, js_error, 'a) comp" where
  "retryOrThrow P isRetryable operation s =
     (let (r, s') = withRetry P isRetryable operation s in (rr_outcome r, s'))"

subsection \<open>timeout-wrapper.ts\<close>

record timeout_options =
  timeoutMs :: nat
  retries :: nat
  to_backoffMultiplier :: rat
  maxBackoffMs :: rat

record 'a timeout_result =
  tr_outcome :: "js_error + 'a"
  retriesUsed :: nat
  timedOut :: bool
  to_sleeps :: "rat list"

function timeout_loop ::
  "timeout_options \<Rightarrow> ('s, js_error, 'a) comp \<Rightarrow> nat \<Rightarrow> rat list \<Rightarrow> js_error option \<Rightarrow> 's \<Rightarrow>
   'a timeout_result \<times> 's" where
  "timeout_loop opts operation attempt slept lastError s =
     (if attempt < retries opts then
        (case operation s of
           (Inr data, s') \<Rightarrow>
             (\<lparr>tr_outcome = Inr data, retriesUsed = attempt, timedOut = False, to_sleeps = slept\<rparr>, s')
         | (Inl e, s') \<Rightarrow>
             if attempt < retries opts - 1 then
               let d = min (1000 * to_backoffMultiplier opts ^ attempt) (maxBackoffMs opts)
               in timeout_loop opts operation (Suc attempt) (slept @ [d]) (Some e) s'
             else
               (\<lparr>tr_outcome = Inl e, retriesUsed = Suc attempt,
                  timedOut = str_includes (message_of e) ''timeout'', to_sleeps = slept\<rparr>, s'))
      else
        (\<lparr>tr_outcome = Inl (case lastError of None \<Rightarrow> JsError ''Unknown error'' | Some e \<Rightarrow> e),
           retriesUsed = attempt, timedOut = False, to_sleeps = slept\<rparr>, s))"
  by pat_completeness auto
termination
  by (relation "measure (\<lambda>(opts, m, a, l, e, s). retries opts - a)") auto

declare timeout_loop.simps [simp del]

definition withTimeout ::
  "timeout_options \<Rightarrow> ('s, js_error, 'a) comp \<Rightarrow> 's \<Rightarrow> 'a timeout_result \<times> 's" where
  "withTimeout opts operation s = timeout_loop opts operation 0 [] None s"

subsection \<open>circuit-breaker.ts\<close>

datatype CircuitBreakerState = Closed | Open | HalfOpen

record CircuitBreaker =
  cb_name :: string
  failureThreshold :: int
  openBackoffMs :: int
  halfOpenMaxCalls :: int
  cb_state :: CircuitBreakerState
  failureCount :: int
  openedAtMs :: "int option"
  nextAttemptAtMs :: "int option"
  halfOpenInFlight :: int

definition new_breaker :: "string \<Rightarrow> int \<Rightarrow> int \<Rightarrow> int \<Rightarrow> CircuitBreaker" where
  "new_breaker name threshold backoff maxCalls = \<lparr>cb_name = name, failureThreshold = threshold,
     openBackoffMs = backoff, halfOpenMaxCalls = maxCalls, cb_state = Closed, failureCount = 0,
     openedAtMs = None, nextAttemptAtMs = None, halfOpenInFlight = 0\<rparr>"

definition transitionTo :: "CircuitBreakerState \<Rightarrow> CircuitBreaker \<Rightarrow> CircuitBreaker" where
  "transitionTo nextState b = (if cb_state b = nextState then b else b\<lparr>cb_state := nextState\<rparr>)"

definition cb_open :: "int \<Rightarrow> CircuitBreaker \<Rightarrow> CircuitBreaker" where
  "cb_open now b =
     transitionTo Open (b\<lparr>openedAtMs := Some now, nextAttemptAtMs := Some (now + openBackoffMs b)\<rparr>)"

definition open_error :: "int \<Rightarrow> CircuitBreaker \<Rightarrow> js_error" where
  "open_error now b = BreakerOpen (cb_name b)
     (case nextAttemptAtMs b of Some t \<Rightarrow> t | None \<Rightarrow> now + openBackoffMs b)"

definition beforeCall_probe :: "int \<Rightarrow> CircuitBreaker \<Rightarrow> (js_error + unit) \<times> CircuitBreaker" where
  "beforeCall_probe now b =
     (if cb_state b = HalfOpen then
        if halfOpenInFlight b \<ge> halfOpenMaxCalls b then (Inl (open_error now b), b)
        else (Inr (), b\<lparr>halfOpenInFlight := halfOpenInFlight b + 1\<rparr>)
      else (Inr (), b))"

definition beforeCall :: "int \<Rightarrow> CircuitBreaker \<Rightarrow> (js_error + unit) \<times> CircuitBreaker" where
  "beforeCall now b =
     (if cb_state b = Open then
        (case nextAttemptAtMs b of
           Some t \<Rightarrow> if now \<ge> t then beforeCall_probe now (transitionTo HalfOpen b)
                     else (Inl (open_error now b), b)
         | None \<Rightarrow> (Inl (open_error now b), b))
      else beforeCall_probe now b)"

definition onSuccess :: "CircuitBreaker \<Rightarrow> CircuitBreaker" where
  "onSuccess b =
     (if cb_state b = HalfOpen then
        transitionTo Closed (b\<lparr>halfOpenInFlight := max 0 (halfOpenInFlight b - 1),
          failureCount := 0, openedAtMs := None, nextAttemptAtMs := None\<rparr>)
      else b\<lparr>failureCount := 0\<rparr>)"

definition onFailure :: "int \<Rightarrow> CircuitBreaker \<Rightarrow> CircuitBreaker" where
  "onFailure now b =
     (if cb_state b = HalfOpen then
        cb_open now (b\<lparr>halfOpenInFlight := max 0 (halfOpenInFlight b - 1)\<rparr>)
      else
        let b' = b\<lparr>failureCount := failureCount b + 1\<rparr>
        in if failureCount b' \<ge> failureThreshold b' then cb_open now b' else b')"

definition cb_reset :: "CircuitBreaker \<Rightarrow> CircuitBreaker" where
  "cb_reset b = transitionTo Closed (b\<lparr>failureCount := 0, openedAtMs := None,
     nextAttemptAtMs := None, halfOpenInFlight := 0\<rparr>)"

text \<open>\<open>execute\<close>, with the breaker as a part of the state of the operation.\<close>

definition cb_execute ::
  "('s \<Rightarrow> CircuitBreaker) \<Rightarrow> ((CircuitBreaker \<Rightarrow> CircuitBreaker) \<Rightarrow> 's \<Rightarrow> 's) \<Rightarrow> int \<Rightarrow>
   ('s, js_error, 'a) comp \<Rightarrow> ('s, js_error, 'a) comp" where
  "cb_execute get upd now operation s =
     (case beforeCall now (get s) of
        (Inl e, b) \<Rightarrow> (Inl e, upd (\<lambda>_. b) s)
      | (Inr _, b) \<Rightarrow>
          (case operation (upd (\<lambda>_. b) s) of
             (Inr a, s') \<Rightarrow> (Inr a, upd onSuccess s')
           | (Inl e, s') \<Rightarrow> (Inl e, upd (onFailure now) s')))"

text \<open>Concurrent callers as a sequence of events.\<close>

datatype breaker_event = CallBegins int | CallSucceeds | CallFails int | ManualReset

fun breaker_step :: "CircuitBreaker \<Rightarrow> breaker_event \<Rightarrow> CircuitBreaker" where
  "breaker_step b (CallBegins now) = snd (beforeCall now b)"
| "breaker_step b CallSucceeds = onSuccess b"
| "breaker_step b (CallFails now) = onFailure now b"
| "breaker_step b ManualReset = cb_reset b"

subsection \<open>backpressure.ts\<close>

record limiter =
  maxInFlight :: int
  inFlight :: int

definition createConcurrencyLimiter :: "int \<Rightarrow> limiter" where
  "createConcurrencyLimiter m = \<lparr>maxInFlight = max 1 m, inFlight = 0\<rparr>"

definition limiter_begin :: "string \<Rightarrow> limiter \<Rightarrow> (js_error + unit) \<times> limiter" where
  "limiter_begin name l =
     (if inFlight l \<ge> maxInFlight l then
        (Inl (App (BackpressureError (''Too many in-flight '' @ name @ '' operations. Please retry shortly.''))), l)
      else (Inr (), l\<lparr>inFlight := inFlight l + 1\<rparr>))"

definition limiter_end :: "limiter \<Rightarrow> limiter" where
  "limiter_end l = l\<lparr>inFlight := inFlight l - 1\<rparr>"

definition limiter_execute ::
  "('s \<Rightarrow> limiter) \<Rightarrow> ((limiter \<Rightarrow> limiter) \<Rightarrow> 's \<Rightarrow> 's) \<Rightarrow> string \<Rightarrow>
   ('s, js_error, 'a) comp \<Rightarrow> ('s, js_error, 'a) comp" where
  "limiter_execute get upd name operation s =
     (case limiter_begin name (get s) of
        (Inl e, l) \<Rightarrow> (Inl e, s)
      | (Inr _, l) \<Rightarrow> (case operation (upd (\<lambda>_. l) s) of (r, s') \<Rightarrow> (r, upd limiter_end s')))"

subsection \<open>Retry: attempts and delays\<close>

lemma retry_loop_bounds:
  assumes "attempt \<ge> 1" and "attempt \<le> maxAttempts P" and "length slept = attempt - 1"
    and "\<forall>d \<in> set slept. d \<le> maxDelayMs P"
  shows "attemptsUsed (fst (retry_loop P R m attempt d slept le s)) \<le> maxAttempts P \<and>
         length (sleeps (fst (retry_loop P R m attempt d slept le s))) + 1 =
           attemptsUsed (fst (retry_loop P R m attempt d slept le s)) \<and>
         (\<forall>d' \<in> set (sleeps (fst (retry_loop P R m attempt d slept le s))). d' \<le> maxDelayMs P)"
  using assms
proof (induction P R m attempt d slept le s rule: retry_loop.induct)
  case (1 P R m attempt d slept le s)
  obtain r s' where ms: "m s = (r, s')" by (cases "m s")
  show ?case
  proof (cases r)
    case (Inr a)
    with ms "1.prems" show ?thesis by (simp add: retry_loop.simps [of P R m attempt])
  next
    case (Inl e)
    show ?thesis
    proof (cases "\<not> R e \<or> attempt = maxAttempts P")
      case True
      with ms Inl "1.prems" show ?thesis by (auto simp: retry_loop.simps [of P R m attempt])
    next
      case False
      let ?d = "min (d * backoffMultiplier P) (maxDelayMs P)"
      have eq: "retry_loop P R m attempt d slept le s =
          retry_loop P R m (Suc attempt) ?d (slept @ [?d]) (Some e) s'"
        using False ms Inl "1.prems"(2) by (subst retry_loop.simps) (simp add: Let_def)
      have "1 \<le> Suc attempt" "Suc attempt \<le> maxAttempts P"
        "length (slept @ [?d]) = Suc attempt - 1" "\<forall>d' \<in> set (slept @ [?d]). d' \<le> maxDelayMs P"
        using False "1.prems" by auto
      from "1.IH" [OF "1.prems"(2) ms [symmetric] Inl False refl this] show ?thesis unfolding eq .
    qed
  qed
qed

text \<open>The operation fails \<open>k\<close> times in a row with retryable errors, starting in \<open>s\<close>.\<close>

fun fails_through :: "(js_error \<Rightarrow> bool) \<Rightarrow> ('s, js_error, 'a) comp \<Rightarrow> nat \<Rightarrow> 's \<Rightarrow> 's \<Rightarrow> bool" where
  "fails_through R m 0 s t \<longleftrightarrow> t = s"
| "fails_through R m (Suc k) s t \<longleftrightarrow> (\<exists>e s'. m s = (Inl e, s') \<and> R e \<and> fails_through R m k s' t)"

lemma retry_loop_success:
  assumes "fails_through R m k s t" and "m t = (Inr a, u)" and "attempt + k \<le> maxAttempts P"
  shows "\<exists>sl. retry_loop P R m attempt d slept le s =
     (\<lparr>rr_outcome = Inr a, attemptsUsed = attempt + k, sleeps = sl\<rparr>, u)"
  using assms
proof (induction k arbitrary: s attempt d slept le)
  case 0
  then show ?case by (simp add: retry_loop.simps)
next
  case (Suc k)
  then obtain e s' where e: "m s = (Inl e, s')" "R e" "fails_through R m k s' t" by auto
  from Suc.IH [OF e(3) Suc.prems(2), of "Suc attempt"] Suc.prems(3) e(1,2) show ?case
    by (simp add: retry_loop.simps [of P R m attempt] Let_def)
qed

lemma retry_loop_preserves:
  "preserves I m \<Longrightarrow> I s \<Longrightarrow> I (snd (retry_loop P R m attempt d slept le s))"
proof (induction P R m attempt d slept le s rule: retry_loop.induct)
  case (1 P R m attempt d slept le s)
  obtain r s' where ms: "m s = (r, s')" by (cases "m s")
  with "1.prems" have s': "I s'" by (auto dest: preservesD)
  have "I (snd (retry_loop P R m (Suc attempt) x l e s'))"
    if "attempt \<le> maxAttempts P" "r = Inl err" "\<not> (\<not> R err \<or> attempt = maxAttempts P)"
       "x = min (d * backoffMultiplier P) (maxDelayMs P)" "l = slept @ [x]" "e = Some err" for x l e err
    using "1.IH" [OF that(1) ms [symmetric] that(2,3,4) "1.prems"(1) s'] that(5,6) by simp
  then show ?case
    using ms s' "1.prems"(2)
    by (subst retry_loop.simps) (auto simp: Let_def split: sum.split)
qed

lemma preserves_retryOrThrow [preserve_intros]: "preserves I m \<Longrightarrow> preserves I (retryOrThrow P R m)"
  using retry_loop_preserves [of I m]
  by (auto simp: preserves_def retryOrThrow_def withRetry_def split: prod.split) (metis snd_conv)

lemma timeout_loop_preserves:
  "preserves I m \<Longrightarrow> I s \<Longrightarrow> I (snd (timeout_loop opts m a l e s))"
proof (induction opts m a l e s rule: timeout_loop.induct)
  case (1 opts m a l e s)
  obtain r s' where ms: "m s = (r, s')" by (cases "m s")
  with "1.prems" have "I s'" by (auto dest: preservesD)
  with 1 ms show ?case by (simp add: timeout_loop.simps [of opts m a] Let_def split: sum.split)
qed

lemma preserves_cb_execute:
  assumes "\<And>s f. I s \<Longrightarrow> I (upd f s)" and "preserves I m"
  shows "preserves I (cb_execute get upd now m)"
proof (rule preservesI)
  fix s assume "I s"
  obtain r b where b: "beforeCall now (get s) = (r, b)" by fastforce
  obtain x s' where x: "m (upd (\<lambda>_. b) s) = (x, s')" by fastforce
  from assms(1) [OF \<open>I s\<close>] have "I (upd (\<lambda>_. b) s)" .
  with assms(2) x have "I s'" by (metis preservesD snd_conv)
  with b x assms(1) \<open>I s\<close> show "I (snd (cb_execute get upd now m s))"
    by (cases r; cases x) (simp_all add: cb_execute_def)
qed


text \<open>A scripted operation: the state is the list of the outcomes still to come.\<close>

fun scripted :: "((js_error + 'a) list, js_error, 'a) comp" where
  "scripted [] = (Inl (JsError ''exhausted''), [])"
| "scripted (x # xs) = (x, xs)"


subsection \<open>Breaker\<close>

definition breaker_ok :: "CircuitBreaker \<Rightarrow> bool" where
  "breaker_ok b \<longleftrightarrow>
     1 \<le> failureThreshold b \<and> 0 \<le> openBackoffMs b \<and> 1 \<le> halfOpenMaxCalls b \<and>
     0 \<le> halfOpenInFlight b \<and> halfOpenInFlight b \<le> halfOpenMaxCalls b \<and>
     (cb_state b \<noteq> HalfOpen \<longrightarrow> halfOpenInFlight b < halfOpenMaxCalls b) \<and>
     (cb_state b = Closed \<longrightarrow> failureCount b < failureThreshold b) \<and>
     (cb_state b = Open \<longrightarrow> (\<exists>t. nextAttemptAtMs b = Some t))"

lemmas breaker_defs = transitionTo_def cb_open_def beforeCall_def beforeCall_probe_def
  onSuccess_def onFailure_def cb_reset_def Let_def

lemma breaker_step_ok: "breaker_ok b \<Longrightarrow> breaker_ok (breaker_step b e)"
  by (cases e) (auto simp: breaker_ok_def breaker_defs split: option.splits)

lemma breaker_run_ok: "breaker_ok b \<Longrightarrow> breaker_ok (foldl breaker_step b es)"
  by (induction es arbitrary: b) (auto simp: breaker_step_ok)

lemma new_breaker_ok:
  "1 \<le> threshold \<Longrightarrow> 0 \<le> backoff \<Longrightarrow> 1 \<le> maxCalls \<Longrightarrow>
   breaker_ok (new_breaker name threshold backoff maxCalls)"
  by (simp add: breaker_ok_def new_breaker_def)

text \<open>C15. Safety and recovery of the breaker, for every interleaving of concurrent calls: while it
  is open, no call is let through before the cooldown has passed, and the first call after the
  cooldown is always let through, whatever probes were lost before; while it is closed, fewer
  failures than the threshold have accumulated.\<close>

theorem breaker_safe_and_live:
  assumes "1 \<le> threshold" and "0 \<le> backoff" and "1 \<le> maxCalls"
    and "b = foldl breaker_step (new_breaker name threshold backoff maxCalls) es"
  shows "(cb_state b = Open \<longrightarrow> (\<exists>t. nextAttemptAtMs b = Some t \<and>
           (now < t \<longrightarrow> beforeCall now b = (Inl (BreakerOpen (cb_name b) t), b)) \<and>
           (t \<le> now \<longrightarrow> fst (beforeCall now b) = Inr ()))) \<and>
         (cb_state b = Closed \<longrightarrow>
           failureCount b < failureThreshold b \<and> fst (beforeCall now b) = Inr ())"
  using breaker_run_ok [OF new_breaker_ok [OF assms(1-3), of name], of es]
  by (auto simp: breaker_ok_def assms(4) [symmetric] breaker_defs open_error_def)

theorem breaker_safe_and_live_witness:
  "fst (beforeCall 30010 (foldl breaker_step (new_breaker ''rpc'' 3 30000 1)
     [CallBegins 0, CallFails 8, CallBegins 8, CallFails 9, CallBegins 9, CallFails 10])) = Inr ()"
  (is "fst (beforeCall _ ?b) = _")
proof -
  have "cb_state ?b = Open" "nextAttemptAtMs ?b = Some 30010"
    by (simp_all add: new_breaker_def breaker_defs)
  with breaker_safe_and_live [of 3 30000 1 ?b "''rpc''" _ 30010, OF _ _ _ refl] show ?thesis
    by simp
qed

subsection \<open>Limiter\<close>

lemma limiter_execute_count:
  assumes get_upd: "\<And>f s. get (upd f s) = f (get s)"
    and op: "\<And>s. inFlight (get (snd (operation s))) = inFlight (get s)"
  shows "inFlight (get (snd (limiter_execute get upd name operation s))) = inFlight (get s)"
proof (cases "inFlight (get s) \<ge> maxInFlight (get s)")
  case True
  then show ?thesis by (simp add: limiter_execute_def limiter_begin_def)
next
  case False
  let ?s = "upd (\<lambda>_. (get s)\<lparr>inFlight := inFlight (get s) + 1\<rparr>) s"
  obtain r s' where o: "operation ?s = (r, s')" by (cases "operation ?s")
  with False op [of ?s] show ?thesis
    by (simp add: limiter_execute_def limiter_begin_def limiter_end_def get_upd)
qed

end
