(* ===== verification/Money.thy ===== *)
theory Money
  imports Complex_Main Prelude
begin

text \<open>
  Decimal arithmetic (\<open>src/src/utils/decimal.util.ts\<close>) and the payout formula
  (\<open>src/src/utils/payout.util.ts\<close>).

  Amounts are rationals: the value of a \<open>Decimal\<close>, of the decimal string a number or a
  \<open>toFixed\<close> call prints, or of a \<open>Decimal(20,8)\<close> column.  The rounding itself is done outside
  this repository, by decimal.js (\<open>Prisma.Decimal\<close>), by the conversion to a JavaScript number and
  by the database column, so it is a parameter \<open>E :: arith\<close> of every definition:
  \<^item> \<open>dround E\<close>: the rounding of a \<open>Decimal\<close> operation's result to its precision;
  \<^item> \<open>toFix E p\<close>: \<open>toFixed(p)\<close>;
  \<^item> \<open>toNum E\<close>: \<open>Decimal.toNumber()\<close> and the result of an arithmetic operation on numbers;
  \<^item> \<open>col E\<close>: the rounding of a value stored in a \<open>Decimal(_, 8)\<close> column.
  The locale \<open>decimal_arith\<close> states the documented error bounds.  It is interpreted on
  \<open>exact_arith\<close> (only the
  fixed-point conversions round) and on \<open>js_arith\<close>: 20 significant digits half-up, 53-bit doubles
  rounded to even, and fixed-point rounding half-up.
\<close>

record arith =
  dround :: "rat \<Rightarrow> rat"
  toFix :: "nat \<Rightarrow> rat \<Rightarrow> rat"
  toNum :: "rat \<Rightarrow> rat"
  col :: "rat \<Rightarrow> rat"

subsection \<open>decimal.util.ts\<close>

definition toDecimal :: "rat \<Rightarrow> rat" where
  "toDecimal value = value"

definition MONEY_SCALE :: nat where
  "MONEY_SCALE = 8"

definition ZERO_MONEY :: rat where
  "ZERO_MONEY = 0"

definition toNumber :: "arith \<Rightarrow> rat option \<Rightarrow> rat" where
  "toNumber E value = (case value of None \<Rightarrow> 0 | Some v \<Rightarrow> toNum E v)"

definition decAdd :: "arith \<Rightarrow> rat \<Rightarrow> rat \<Rightarrow> rat" where
  "decAdd E a b = dround E (toDecimal a + toDecimal b)"

definition decSub :: "arith \<Rightarrow> rat \<Rightarrow> rat \<Rightarrow> rat" where
  "decSub E a b = dround E (toDecimal a - toDecimal b)"

definition decMul :: "arith \<Rightarrow> rat \<Rightarrow> rat \<Rightarrow> rat" where
  "decMul E a b = dround E (toDecimal a * toDecimal b)"

text \<open>Division by zero gives a \<open>Decimal\<close> that is not finite, here \<open>None\<close>.\<close>

definition decDiv :: "arith \<Rightarrow> rat \<Rightarrow> rat \<Rightarrow> rat option" where
  "decDiv E a b =
     (if toDecimal b = 0 then None else Some (dround E (toDecimal a / toDecimal b)))"

definition decGt :: "rat \<Rightarrow> rat \<Rightarrow> bool" where
  "decGt a b \<longleftrightarrow> toDecimal a > toDecimal b"

definition decLt :: "rat \<Rightarrow> rat \<Rightarrow> bool" where
  "decLt a b \<longleftrightarrow> toDecimal a < toDecimal b"

definition decEq :: "rat \<Rightarrow> rat \<Rightarrow> bool" where
  "decEq a b \<longleftrightarrow> toDecimal a = toDecimal b"

definition decGte :: "rat \<Rightarrow> rat \<Rightarrow> bool" where
  "decGte a b \<longleftrightarrow> toDecimal a \<ge> toDecimal b"

definition decLte :: "rat \<Rightarrow> rat \<Rightarrow> bool" where
  "decLte a b \<longleftrightarrow> toDecimal a \<le> toDecimal b"

definition decFixed :: "arith \<Rightarrow> rat \<Rightarrow> nat \<Rightarrow> rat" where
  "decFixed E value places = toFix E places (toDecimal value)"

definition toDecimalString :: "arith \<Rightarrow> rat option \<Rightarrow> nat \<Rightarrow> rat option" where
  "toDecimalString E value places =
     (case value of None \<Rightarrow> None | Some v \<Rightarrow> Some (toFix E places (toDecimal v)))"

definition serializeMoney :: "arith \<Rightarrow> rat option \<Rightarrow> rat" where
  "serializeMoney E value =
     (case value of None \<Rightarrow> ZERO_MONEY | Some v \<Rightarrow> toFix E MONEY_SCALE (toDecimal v))"

definition serializeNullableMoney :: "arith \<Rightarrow> rat option \<Rightarrow> rat option" where
  "serializeNullableMoney E value =
     (case value of None \<Rightarrow> None | Some v \<Rightarrow> Some (toFix E MONEY_SCALE (toDecimal v)))"

lemmas decimal_defs = toDecimal_def decAdd_def decSub_def decMul_def decDiv_def decGt_def decLt_def
  decEq_def decGte_def decLte_def decFixed_def

subsection \<open>payout.util.ts\<close>

definition STROOPS_PER_XLM :: rat where
  "STROOPS_PER_XLM = 10000000"

definition calculatePayout :: "arith \<Rightarrow> rat \<Rightarrow> rat \<Rightarrow> rat \<Rightarrow> rat" where
  "calculatePayout E stake winningPool losingPool =
     (case decDiv E stake winningPool of
        None \<Rightarrow> stake
      | Some share \<Rightarrow> decAdd E stake (decMul E share losingPool))"

definition stroopsToXlm :: "arith \<Rightarrow> int \<Rightarrow> rat" where
  "stroopsToXlm E stroops = toNum E (toNum E (of_int stroops) / STROOPS_PER_XLM)"

definition xlmToStroops :: "arith \<Rightarrow> rat \<Rightarrow> int" where
  "xlmToStroops E amount = \<lfloor>toFix E 0 (dround E (toDecimal amount * STROOPS_PER_XLM))\<rfloor>"

text \<open>The column update \<open>{ increment: x }\<close> / \<open>{ decrement: x }\<close>.\<close>

definition increment :: "arith \<Rightarrow> rat \<Rightarrow> rat \<Rightarrow> rat" where
  "increment E current x = col E (current + x)"

definition decrement :: "arith \<Rightarrow> rat \<Rightarrow> rat \<Rightarrow> rat" where
  "decrement E current x = col E (current - x)"

subsection \<open>Two arithmetics\<close>

text \<open>The exponent \<open>e\<close> with \<open>b ^ e \<le> x < b ^ (e + 1)\<close>, by repeated scaling.\<close>

function exp_up :: "rat \<Rightarrow> rat \<Rightarrow> nat" where
  "exp_up b x = (if 2 \<le> b \<and> b \<le> x then Suc (exp_up b (x / b)) else 0)"
  by pat_completeness auto
termination
proof (relation "measure (\<lambda>(b, x). nat \<lfloor>x\<rfloor>)")
  fix b x :: rat
  assume "2 \<le> b \<and> b \<le> x"
  then have b: "2 \<le> b" "b \<le> x" by auto
  then have "x / b \<le> x / 2" by (intro divide_left_mono) auto
  moreover have "x - 1 < of_int \<lfloor>x\<rfloor>" by linarith
  ultimately have "of_int \<lfloor>x / b\<rfloor> < (of_int \<lfloor>x\<rfloor> :: rat)"
    using b of_int_floor_le [of "x / b"] by linarith
  then show "((b, x / b), (b, x)) \<in> measure (\<lambda>(b, x). nat \<lfloor>x\<rfloor>)"
    using b by simp
qed simp

function exp_down :: "rat \<Rightarrow> rat \<Rightarrow> nat" where
  "exp_down b x = (if 2 \<le> b \<and> 0 < x \<and> x < 1 then Suc (exp_down b (x * b)) else 0)"
  by pat_completeness auto
termination
proof (relation "measure (\<lambda>(b, x). nat \<lceil>1 / x\<rceil>)")
  fix b x :: rat
  assume *: "2 \<le> b \<and> 0 < x \<and> x < 1"
  define y where "y = 1 / x"
  from * have y: "1 < y" "1 / (x * b) = y / b" by (auto simp: y_def field_simps)
  from * y have "y / b \<le> y / 2" by (intro divide_left_mono) auto
  then have "\<lceil>y / b\<rceil> \<le> \<lceil>y / 2\<rceil>" by (rule ceiling_mono)
  also have "\<lceil>y / 2\<rceil> < \<lceil>y\<rceil>"
  proof (cases "y < 2")
    case True
    with y have "\<lceil>y / 2\<rceil> \<le> 1" "1 < \<lceil>y\<rceil>" by (auto simp: ceiling_le_iff less_ceiling_iff)
    then show ?thesis by linarith
  next
    case False
    then have "of_int \<lceil>y / 2\<rceil> < (of_int \<lceil>y\<rceil> :: rat)"
      using le_of_int_ceiling [of y] of_int_ceiling_le_add_one [of "y / 2"]
        ceiling_correct [of "y / 2"] by linarith
    then show ?thesis by simp
  qed
  finally have "\<lceil>y / b\<rceil> < \<lceil>y\<rceil>" .
  moreover have "0 < \<lceil>y\<rceil>" using y by simp
  ultimately show "((b, x * b), (b, x)) \<in> measure (\<lambda>(b, x). nat \<lceil>1 / x\<rceil>)"
    using y by (simp add: y_def [symmetric])
qed simp

declare exp_up.simps [simp del] exp_down.simps [simp del]

definition exp_of :: "rat \<Rightarrow> rat \<Rightarrow> int" where
  "exp_of b x = int (exp_up b x) - int (exp_down b x)"

definition sig_round :: "(rat \<Rightarrow> int) \<Rightarrow> rat \<Rightarrow> nat \<Rightarrow> rat \<Rightarrow> rat" where
  "sig_round rnd b p x =
     (if x = 0 then 0
      else let a = \<bar>x\<bar>; s = b powi (int p - 1 - exp_of b a)
           in sgn x * (of_int (rnd (a * s)) / s))"

definition round_even :: "rat \<Rightarrow> int" where
  "round_even y =
     (let f = \<lfloor>y\<rfloor>; d = y - of_int f
      in if d < 1 / 2 then f else if 1 / 2 < d then f + 1 else if even f then f else f + 1)"

definition fix_round :: "nat \<Rightarrow> rat \<Rightarrow> rat" where
  "fix_round p x = sgn x * (of_int (round (\<bar>x\<bar> * 10 ^ p)) / 10 ^ p)"

definition exact_arith :: arith where
  "exact_arith = \<lparr>dround = id, toFix = fix_round, toNum = id, col = fix_round 8\<rparr>"

definition js_arith :: arith where
  "js_arith = \<lparr>dround = sig_round round 10 20, toFix = fix_round,
     toNum = sig_round round_even 2 53, col = fix_round 8\<rparr>"

subsection \<open>The documented error bounds\<close>

definition unit_err :: rat where
  "unit_err = 1 / (2 * 10 ^ 19)"

text \<open>A value with at most eight decimals, as a money column stores it.\<close>

definition on_grid :: "rat \<Rightarrow> bool" where
  "on_grid x \<longleftrightarrow> x * 10 ^ 8 \<in> \<int>"

lemma on_gridI: "x = of_int n / 10 ^ 8 \<Longrightarrow> on_grid x"
  by (simp add: on_grid_def)

lemma on_gridE: "on_grid x \<Longrightarrow> \<exists>n::int. x = of_int n / 10 ^ 8"
  by (auto simp: on_grid_def field_simps elim!: Ints_cases)

lemma on_grid_arith [simp]:
  "on_grid 0" "on_grid x \<Longrightarrow> on_grid y \<Longrightarrow> on_grid (x + y)" "on_grid x \<Longrightarrow> on_grid y \<Longrightarrow> on_grid (x - y)"
  by (simp_all add: on_grid_def distrib_right left_diff_distrib)

locale decimal_arith =
  fixes E :: arith
  assumes dround_err: "\<bar>dround E x - x\<bar> \<le> unit_err * \<bar>x\<bar>"
    and toFix_err: "\<bar>toFix E p x - x\<bar> \<le> 1 / (2 * 10 ^ p)"
    and toFix_grid: "\<exists>n::int. toFix E p x = of_int n / 10 ^ p"
    and toNum_err: "\<bar>toNum E x - x\<bar> \<le> \<bar>x\<bar> / 2 ^ 52"
    and col_err: "\<bar>col E x - x\<bar> \<le> 1 / (2 * 10 ^ 8)"
    and col_grid: "\<exists>n::int. col E x = of_int n / 10 ^ 8"
    and col_shift: "0 \<le> g \<Longrightarrow> 0 \<le> x \<Longrightarrow> on_grid g \<Longrightarrow> col E (g + x) = g + col E x"
begin

lemma dround_le: "0 \<le> x \<Longrightarrow> x \<le> y \<Longrightarrow> dround E x \<le> (1 + unit_err) * y"
proof -
  assume x: "0 \<le> x" "x \<le> y"
  from dround_err [of x] x(1) have "dround E x \<le> (1 + unit_err) * x" by (auto simp: algebra_simps)
  also have "\<dots> \<le> (1 + unit_err) * y" using x by (intro mult_left_mono) (auto simp: unit_err_def)
  finally show ?thesis .
qed

lemma dround_ge: "0 \<le> y \<Longrightarrow> y \<le> x \<Longrightarrow> (1 - unit_err) * y \<le> dround E x"
proof -
  assume y: "0 \<le> y" "y \<le> x"
  have "(1 - unit_err) * y \<le> (1 - unit_err) * x" using y by (intro mult_left_mono) (auto simp: unit_err_def)
  also have "\<dots> \<le> dround E x" using dround_err [of x] y by (auto simp: algebra_simps)
  finally show ?thesis .
qed

lemma dround_nonneg: "0 \<le> x \<Longrightarrow> 0 \<le> dround E x"
  using dround_ge [of 0 x] by simp

lemma fair_share_upper:
  assumes "0 \<le> s" and "0 < W" and "0 \<le> L"
  shows "calculatePayout E s W L \<le> (1 + unit_err) ^ 3 * (s * (W + L) / W)"
proof -
  let ?u = "1 + unit_err"
  have u: "1 \<le> ?u" by (simp add: unit_err_def)
  define p where "p = dround E (s / W)"
  define q where "q = dround E (p * L)"
  have p: "0 \<le> p" "p \<le> ?u * (s / W)"
    unfolding p_def using assms by (simp_all only: dround_nonneg dround_le order_refl divide_nonneg_pos)
  have "q \<le> ?u * (?u * (s / W) * L)"
    unfolding q_def using p assms by (intro dround_le mult_right_mono mult_nonneg_nonneg) auto
  then have "s + q \<le> s + ?u ^ 2 * (s * L / W)" by (simp add: power2_eq_square mult.assoc)
  also have "\<dots> \<le> ?u ^ 2 * s + ?u ^ 2 * (s * L / W)"
    using assms one_le_power [OF u, of 2] mult_right_mono [of 1 "?u ^ 2" s] by simp
  finally have sq: "s + q \<le> ?u ^ 2 * (s * (W + L) / W)" using assms by (simp add: field_simps)
  have "0 \<le> q" unfolding q_def using p assms by (intro dround_nonneg) simp
  then have "dround E (s + q) \<le> ?u * (?u ^ 2 * (s * (W + L) / W))"
    using assms by (intro dround_le sq) simp
  then show ?thesis
    using assms by (simp add: calculatePayout_def decimal_defs p_def q_def power3_eq_cube power2_eq_square mult.assoc)
qed

lemma fair_share_lower:
  assumes "0 \<le> s" and "0 < W" and "0 \<le> L"
  shows "(1 - unit_err) ^ 3 * (s * (W + L) / W) \<le> calculatePayout E s W L"
proof -
  let ?u = "1 - unit_err"
  have u: "0 \<le> ?u" "?u \<le> 1" by (auto simp: unit_err_def)
  define p where "p = dround E (s / W)"
  define q where "q = dround E (p * L)"
  have p: "?u * (s / W) \<le> p"
    unfolding p_def using assms by (simp only: dround_ge order_refl divide_nonneg_pos)
  have q: "?u * (?u * (s / W) * L) \<le> q"
    unfolding q_def using p u assms by (intro dround_ge mult_right_mono mult_nonneg_nonneg) auto
  have "?u ^ 2 * (s * (W + L) / W) = ?u ^ 2 * s + ?u ^ 2 * (s * L / W)" using assms by (simp add: field_simps)
  also have "\<dots> \<le> s + ?u ^ 2 * (s * L / W)"
    using assms power_le_one [OF u, of 2] mult_right_mono [of "?u ^ 2" 1 s] by simp
  also have "\<dots> \<le> s + q" using q by (simp add: power2_eq_square mult.assoc)
  finally have "?u * (?u ^ 2 * (s * (W + L) / W)) \<le> dround E (s + q)"
    using u assms by (intro dround_ge) auto
  then show ?thesis
    using assms by (simp add: calculatePayout_def decimal_defs p_def q_def power3_eq_cube power2_eq_square mult.assoc)
qed

lemma payouts_total:
  assumes "\<forall>s \<in> set ss. 0 \<le> s" and "0 < W" and "0 \<le> L"
  shows "(\<Sum>s\<leftarrow>ss. calculatePayout E s W L) \<le> (1 + unit_err) ^ 3 * (sum_list ss * (W + L) / W)"
  using assms(1)
proof (induction ss)
  case (Cons s ss)
  with fair_share_upper [of s W L] assms(2,3) show ?case by (auto simp: field_simps)
qed simp

lemma toFix_exact: "x = of_int n / 10 ^ p \<Longrightarrow> toFix E p x = x"
proof -
  assume x: "x = of_int n / 10 ^ p"
  obtain m :: int where m: "toFix E p x = of_int m / 10 ^ p" using toFix_grid by blast
  have "\<bar>of_int (m - n) / 10 ^ p\<bar> \<le> (1::rat) / (2 * 10 ^ p)"
    using toFix_err [of p x] unfolding m by (simp add: x diff_divide_distrib)
  then have "\<bar>of_int (m - n)\<bar> \<le> (1::rat) / 2" by (simp add: field_simps)
  then have "m = n" by linarith
  with m show ?thesis by (simp only: x)
qed

lemma col_exact: "x = of_int n / 10 ^ 8 \<Longrightarrow> col E x = x"
proof -
  assume x: "x = of_int n / 10 ^ 8"
  obtain m :: int where m: "col E x = of_int m / 10 ^ 8" using col_grid by blast
  have "\<bar>of_int (m - n)\<bar> \<le> (1::rat) / 2"
    using col_err [of x] unfolding m by (simp add: x diff_divide_distrib [symmetric])
  then have "m = n" by linarith
  with m show ?thesis by (simp only: x)
qed

lemma col_on_grid [simp]: "on_grid (col E x)"
  using col_grid [of x] by (auto intro: on_gridI)

lemma col_id: "on_grid x \<Longrightarrow> col E x = x"
  by (auto dest!: on_gridE intro: col_exact)

lemma col_nonneg:
  assumes "0 \<le> x"
  shows "0 \<le> col E x"
proof -
  obtain n :: int where n: "col E x = of_int n / 10 ^ 8" using col_grid by blast
  have "x - 1 / (2 * 10 ^ 8) \<le> col E x" using col_err [of x] by linarith
  with assms n have "- 1 < (of_int n :: rat)" by (simp add: field_simps)
  then show ?thesis by (simp add: n)
qed

lemma toNum_nonneg:
  assumes "0 \<le> x"
  shows "0 \<le> toNum E x"
proof -
  have "\<bar>toNum E x - x\<bar> \<le> x" using toNum_err [of x] assms by (simp add: field_simps)
  then show ?thesis by linarith
qed

lemma increment_exact: "on_grid b \<Longrightarrow> on_grid x \<Longrightarrow> increment E b x = b + x"
  by (simp add: increment_def col_id)

lemma decrement_exact: "on_grid b \<Longrightarrow> on_grid x \<Longrightarrow> decrement E b x = b - x"
  by (simp add: decrement_def col_id)

lemma increment_grid [simp]: "on_grid (increment E b x)" "on_grid (decrement E b x)"
  by (simp_all add: increment_def decrement_def)

lemma increment_nonneg: "0 \<le> b \<Longrightarrow> 0 \<le> x \<Longrightarrow> 0 \<le> increment E b x"
  by (simp add: increment_def col_nonneg)

lemma decrement_nonneg: "x \<le> b \<Longrightarrow> 0 \<le> decrement E b x"
  by (simp add: decrement_def col_nonneg)

text \<open>A money column survives the round trip through a JavaScript number below about 22 million.\<close>

lemma col_toNum:
  assumes "on_grid x" and "\<bar>x\<bar> \<le> 2 * 10 ^ 7"
  shows "col E (toNum E x) = x"
proof -
  obtain n :: int where n: "x = of_int n / 10 ^ 8" using on_gridE [OF assms(1)] by blast
  define c where "c = col E (toNum E x)"
  obtain m :: int where m: "c = of_int m / 10 ^ 8" unfolding c_def using col_grid by blast
  have "\<bar>toNum E x - x\<bar> \<le> 2 * 10 ^ 7 / 2 ^ 52"
    using toNum_err [of x] divide_right_mono [OF assms(2), of "2 ^ 52"] by simp
  moreover have "(2 * 10 ^ 7 / 2 ^ 52 :: rat) < 1 / (2 * 10 ^ 8)" by simp
  ultimately have "\<bar>c - x\<bar> < 1 / 10 ^ 8"
    using col_err [of "toNum E x"] unfolding c_def by linarith
  then have "m = n" unfolding m n abs_less_iff by (simp add: field_simps)
  then have "c = x" using m n by simp
  then show ?thesis by (simp add: c_def)
qed

lemma increment_shift: "0 \<le> g \<Longrightarrow> 0 \<le> x \<Longrightarrow> on_grid g \<Longrightarrow> increment E g x = g + col E x"
  by (simp add: increment_def col_shift)

lemma stroops_exact:
  assumes "\<bar>n\<bar> \<le> 2 ^ 49"
  shows "xlmToStroops E (stroopsToXlm E n) = n"
proof -
  define x :: rat where "x = of_int n"
  define a where "a = toNum E x"
  define b where "b = toNum E (a / 10000000) * 10000000"
  define c where "c = dround E b"
  have x: "\<bar>x\<bar> \<le> 2 ^ 49"
    using assms unfolding x_def by (metis of_int_abs of_int_le_iff of_int_numeral of_int_power)
  then have ax: "\<bar>a - x\<bar> \<le> 1 / 8" using toNum_err [of x] by (simp add: a_def)
  have "\<bar>b - a\<bar> \<le> \<bar>a\<bar> / 2 ^ 52"
    using toNum_err [of "a / 10000000"] by (simp add: b_def abs_divide abs_le_iff field_simps)
  then have ba: "\<bar>b - a\<bar> \<le> 1 / 7" using ax x by (simp, linarith)
  have "\<bar>c - b\<bar> \<le> \<bar>b\<bar> / (2 * 10 ^ 19)" using dround_err [of b] by (simp add: c_def unit_err_def)
  then have cb: "\<bar>c - b\<bar> \<le> 1 / 100" using ax ba x by (simp, linarith)
  obtain m :: int where m: "toFix E 0 c = of_int m" using toFix_grid [of 0 c] by auto
  have "\<bar>of_int m - c\<bar> \<le> 1 / 2" using toFix_err [of 0 c] by (simp add: m)
  with ax ba cb have "\<bar>of_int m - x\<bar> < 1" by linarith
  then have "m = n" unfolding x_def by linarith
  then show ?thesis
    using m by (simp add: xlmToStroops_def stroopsToXlm_def toDecimal_def STROOPS_PER_XLM_def
        a_def b_def c_def x_def)
qed

end

subsection \<open>The two arithmetics satisfy the bounds\<close>

lemma exp_up_down:
  assumes "2 \<le> b" and "0 < x"
  shows "b powi exp_of b x \<le> x"
proof -
  have up: "b ^ exp_up b x \<le> x" if "1 \<le> x" for x
    using that
  proof (induction b x rule: exp_up.induct)
    case (1 b x)
    show ?case
    proof (cases "2 \<le> b \<and> b \<le> x")
      case True
      with 1 have "b ^ exp_up b (x / b) \<le> x / b" by auto
      with True show ?thesis by (simp add: exp_up.simps [of b x] field_simps)
    next
      case False
      then have "exp_up b x = 0" by (subst exp_up.simps) simp
      with 1 show ?thesis by simp
    qed
  qed
  have down: "1 \<le> x * b ^ exp_down b x" if "0 < x" "2 \<le> b" for b x :: rat
    using that
  proof (induction b x rule: exp_down.induct)
    case (1 b x)
    show ?case
    proof (cases "x < 1")
      case True
      with 1 show ?thesis by (simp add: exp_down.simps [of b x] mult.assoc)
    next
      case False
      with 1 show ?thesis by (simp add: exp_down.simps [of b x])
    qed
  qed
  show ?thesis
  proof (cases "1 \<le> x")
    case True
    then have "exp_down b x = 0" by (simp add: exp_down.simps)
    with up [OF True] show ?thesis by (simp add: exp_of_def)
  next
    case False
    with assms have "exp_up b x = 0" by (simp add: exp_up.simps)
    with down [OF assms(2,1)] assms show ?thesis
      by (simp add: exp_of_def power_int_minus field_simps)
  qed
qed

lemma scale_err: "0 < s \<Longrightarrow> \<bar>n / s - a\<bar> = \<bar>n - a * s\<bar> / s" for n s a :: rat
  by (subst abs_of_pos [of s, symmetric], assumption, subst abs_divide [symmetric])
    (simp add: diff_divide_distrib)

lemma sig_round_err:
  assumes "2 \<le> b" and rnd: "\<And>y. \<bar>of_int (rnd y) - y\<bar> \<le> 1 / 2"
  shows "\<bar>sig_round rnd b p x - x\<bar> \<le> \<bar>x\<bar> * (b powi (1 - int p) / 2)"
proof (cases "x = 0")
  case True
  then show ?thesis by (simp add: sig_round_def)
next
  case False
  define a where "a = \<bar>x\<bar>"
  define e where "e = exp_of b a"
  define s where "s = b powi (int p - 1 - e)"
  have "0 < a" "0 < s" using False assms by (auto simp: a_def s_def)
  have "sig_round rnd b p x - x = sgn x * (of_int (rnd (a * s)) / s - a)"
    using False by (simp add: sig_round_def Let_def a_def s_def e_def right_diff_distrib sgn_mult_abs)
  then have "\<bar>sig_round rnd b p x - x\<bar> = \<bar>of_int (rnd (a * s)) / s - a\<bar>"
    using False by (simp add: abs_mult abs_sgn_eq)
  also have "\<dots> = \<bar>of_int (rnd (a * s)) - a * s\<bar> / s"
    using \<open>0 < s\<close> by (rule scale_err)
  also have "\<dots> \<le> 1 / 2 / s" using rnd [of "a * s"] \<open>0 < s\<close> by (intro divide_right_mono) auto
  also have "\<dots> = b powi e * (b powi (1 - int p) / 2)"
    using assms by (simp add: s_def power_int_diff power_int_add field_simps)
  also have "\<dots> \<le> a * (b powi (1 - int p) / 2)"
    using exp_up_down [OF assms(1) \<open>0 < a\<close>] assms by (intro mult_right_mono) (auto simp: e_def)
  finally show ?thesis by (simp add: a_def)
qed

lemma round_err: "\<bar>of_int (round y) - y\<bar> \<le> 1 / 2" for y :: rat
  using of_int_round_abs_le [of y] by simp

lemma round_even_err: "\<bar>of_int (round_even y) - y\<bar> \<le> 1 / 2"
proof -
  have "of_int \<lfloor>y\<rfloor> \<le> y" "y < of_int \<lfloor>y\<rfloor> + 1" by linarith+
  then show ?thesis unfolding round_even_def Let_def by (auto simp: abs_le_iff)
qed

lemma fix_round_grid: "\<exists>n::int. fix_round p x = of_int n / 10 ^ p"
  by (rule exI [of _ "(if 0 < x then 1 else if x = 0 then 0 else - 1) * round (\<bar>x\<bar> * 10 ^ p)"])
    (auto simp: fix_round_def sgn_if)

lemma fix_round_err: "\<bar>fix_round p x - x\<bar> \<le> 1 / (2 * 10 ^ p)"
proof (cases "x = 0")
  case False
  let ?s = "10 ^ p :: rat"
  have "fix_round p x - x = sgn x * (of_int (round (\<bar>x\<bar> * ?s)) / ?s - \<bar>x\<bar>)"
    by (simp add: fix_round_def right_diff_distrib sgn_mult_abs)
  then have "\<bar>fix_round p x - x\<bar> = \<bar>of_int (round (\<bar>x\<bar> * ?s)) / ?s - \<bar>x\<bar>\<bar>"
    using False by (simp add: abs_mult abs_sgn_eq)
  also have "\<dots> = \<bar>of_int (round (\<bar>x\<bar> * ?s)) - \<bar>x\<bar> * ?s\<bar> / ?s"
    by (rule scale_err) simp
  also have "\<dots> \<le> 1 / 2 / ?s" by (intro divide_right_mono round_err) simp
  finally show ?thesis by simp
qed (simp add: fix_round_def)

lemma fix_round_shift:
  assumes "0 \<le> g" and "0 \<le> x" and "on_grid g"
  shows "fix_round 8 (g + x) = g + fix_round 8 x"
proof -
  obtain n :: int where n: "g = of_int n / 10 ^ 8" using on_gridE [OF assms(3)] by blast
  have abs: "fix_round 8 y = of_int (round (y * 10 ^ 8)) / 10 ^ 8" if "0 \<le> y" for y
    using that by (cases "y = 0") (auto simp: fix_round_def)
  have "round ((g + x) * 10 ^ 8) = n + round (x * 10 ^ 8)"
    by (simp add: n distrib_right round_def add.assoc)
  with assms show ?thesis by (simp add: abs n add_divide_distrib)
qed

interpretation exact: decimal_arith exact_arith
  by unfold_locales (use fix_round_err [of 8] fix_round_grid [of 8] in
    \<open>auto simp: exact_arith_def unit_err_def fix_round_grid fix_round_err fix_round_shift\<close>)

interpretation js: decimal_arith js_arith
proof (unfold_locales, goal_cases)
  case (1 x)
  show ?case using sig_round_err [where b = 10 and p = 20 and rnd = round and x = x, OF _ round_err]
    by (simp add: js_arith_def unit_err_def power_int_def field_simps)
next
  case (4 x)
  show ?case using sig_round_err [where b = 2 and p = 53 and rnd = round_even and x = x, OF _ round_even_err]
    by (simp add: js_arith_def power_int_def field_simps)
qed (use fix_round_err [of 8] fix_round_grid [of 8] in
  \<open>auto simp: js_arith_def fix_round_grid fix_round_err fix_round_shift\<close>)

subsection \<open>What the payout formula guarantees\<close>

text \<open>C9. A winner's payout is the stake plus a proportional share of the losing pool: with the
  20-digit decimal arithmetic of the program the result is within three unit roundoffs of
  \<open>stake * (winningPool + losingPool) / winningPool\<close>, so for stakes that are part of the winning
  pool it is never less than the stake by more than that error.\<close>

theorem payout_fair_share:
  assumes "0 \<le> s" and "0 < W" and "0 \<le> L"
  shows "(1 - unit_err) ^ 3 * (s * (W + L) / W) \<le> calculatePayout js_arith s W L \<and>
         calculatePayout js_arith s W L \<le> (1 + unit_err) ^ 3 * (s * (W + L) / W)"
  using js.fair_share_lower [OF assms] js.fair_share_upper [OF assms] by (rule conjI)

theorem payout_fair_share_witness:
  "(1 - unit_err) ^ 3 * (30 * (90 + 45) / 90) \<le> calculatePayout js_arith 30 90 45"
  using payout_fair_share [of 30 90 45] by simp

text \<open>Solvency: if the stakes of the winners are non-negative and do not exceed the winning
  pool, the payouts together do not exceed the two pools, up to the rounding of three decimal
  operations.\<close>

theorem payouts_solvent:
  assumes "\<forall>s \<in> set ss. 0 \<le> s" and "sum_list ss \<le> W" and "0 < W" and "0 \<le> L"
  shows "(\<Sum>s\<leftarrow>ss. calculatePayout js_arith s W L) \<le> (1 + unit_err) ^ 3 * (W + L)"
proof -
  have "sum_list ss * (W + L) / W \<le> W * (W + L) / W"
    using assms by (intro divide_right_mono mult_right_mono) auto
  then have "(1 + unit_err) ^ 3 * (sum_list ss * (W + L) / W) \<le> (1 + unit_err) ^ 3 * (W + L)"
    using assms by (intro mult_left_mono) (auto simp: unit_err_def)
  with js.payouts_total [OF assms(1,3,4)] show ?thesis by (rule order_trans)
qed

theorem payouts_solvent_witness:
  "(\<Sum>s\<leftarrow>[10, 20, 60]. calculatePayout js_arith s 90 45) \<le> (1 + unit_err) ^ 3 * (90 + 45)"
  using payouts_solvent [of "[10, 20, 60]" 90 45] by simp

text \<open>C10. Converting an on-chain amount to XLM as a JavaScript number and back is the identity for
  every amount up to 2 to the 49 stroops (about 56 million XLM), although both conversions go
  through binary floating point.\<close>

theorem stroops_roundtrip:
  assumes "\<bar>n\<bar> \<le> 2 ^ 49"
  shows "xlmToStroops js_arith (stroopsToXlm js_arith n) = n"
  using assms by (rule js.stroops_exact)

theorem stroops_roundtrip_witness:
  "xlmToStroops js_arith (stroopsToXlm js_arith 10000000001) = 10000000001"
  using stroops_roundtrip [of 10000000001] by simp

end
