(* ===== verification/Soroban.thy ===== *)
theory Soroban
  imports Resilience Money
begin

text \<open>
  The chain adapter (\<open>src/src/services/soroban.service.ts\<close>, class \<open>SorobanService\<close>).

  The state \<open>'c soroban\<close> holds what the class keeps (initialisation flags, keys, the circuit
  breaker, the concurrency limiter) and, as \<open>sor_chain\<close>, the state of everything behind the RPC
  endpoint.  The generated contract bindings and the RPC endpoint are not part of the sources: they
  are the parameter \<open>cl :: 'c xelma_client\<close>, whose calls read and change the chain state and may
  fail in any way (a per-attempt timeout is one of the failures).
  \<open>callWithBreaker\<close> composes limiter, breaker and \<open>withTimeout\<close> as the source does; its
  \<open>fallback\<close> is only put into the \<open>data\<close> of a failed result, which no caller reads, and is left
  out.  Metrics and logging are not modelled.
\<close>

subsection \<open>The contract client\<close>

datatype BetSide = Up | Down

datatype contract_call =
    create_round int nat               \<comment> \<open>start price scaled by 10000, mode\<close>
  | place_bet string int BetSide       \<comment> \<open>user, amount in stroops, side\<close>
  | place_precision_prediction string int int
  | resolve_round int nat int          \<comment> \<open>price, round id, timestamp\<close>
  | mint_initial string
  | claim_winnings string

datatype chain_value = BigInt int | OtherValue string   \<comment> \<open>the latter with its \<open>typeof\<close>\<close>

record sent_transaction =
  sent_result :: chain_value
  sent_hash :: "string option"
  sendTransactionResponse_hash :: "string option"

datatype rpc_reply =
    RpcError string
  | RpcNoResult
  | RpcResult string "int option" "int option" bool  \<comment> \<open>status, ledger, fee, has result XDR\<close>

record 'c xelma_client =
  assemble :: "contract_call \<Rightarrow> ('c, js_error, int) comp"
  submit :: "contract_call \<Rightarrow> ('c, js_error, sent_transaction) comp"
  get_active_round :: "('c, js_error, string option) comp"
  balance :: "string \<Rightarrow> ('c, js_error, int) comp"
  get_user_stats :: "string \<Rightarrow> ('c, js_error, string option) comp"
  get_pending_winnings :: "string \<Rightarrow> ('c, js_error, int) comp"
  get_user_position ::
    "(string \<Rightarrow> string option \<Rightarrow> ('c, js_error, (string option \<times> int) option) comp) option"
  rpc_getTransaction :: "string \<Rightarrow> ('c, js_error, rpc_reply) comp"

subsection \<open>State and initialisation\<close>

record soroban_config =
  contractId :: string
  adminSecret :: string
  oracleSecret :: string
  failClosed :: bool
  breakerFailureThreshold :: int
  breakerOpenBackoffMs :: int
  moneyPathMaxInFlight :: int

record 'c soroban =
  sor_config :: soroban_config
  sor_client :: bool
  adminKeypair :: bool
  oracleKeypair :: bool
  sor_initialized :: bool
  sor_breaker :: CircuitBreaker
  sor_limiter :: limiter
  sor_chain :: 'c

definition new_soroban :: "soroban_config \<Rightarrow> 'c \<Rightarrow> 'c soroban" where
  "new_soroban cfg chain = \<lparr>sor_config = cfg, sor_client = False, adminKeypair = False,
     oracleKeypair = False, sor_initialized = False,
     sor_breaker = new_breaker ''soroban-rpc'' (breakerFailureThreshold cfg) (breakerOpenBackoffMs cfg) 1,
     sor_limiter = createConcurrencyLimiter (moneyPathMaxInFlight cfg), sor_chain = chain\<rparr>"

text \<open>\<open>init\<close>; \<open>newClient\<close> and \<open>fromSecret\<close> are the constructors of the SDK, which may throw.\<close>

definition soroban_init ::
  "(js_error + unit) \<Rightarrow> (string \<Rightarrow> js_error + unit) \<Rightarrow> 'c soroban \<Rightarrow> 'c soroban" where
  "soroban_init newClient fromSecret s =
     (let cfg = sor_config s
      in if contractId cfg = [] then s\<lparr>sor_initialized := False\<rparr>
         else (case newClient of
             Inl e \<Rightarrow> s\<lparr>sor_initialized := False\<rparr>
           | Inr _ \<Rightarrow>
               let s1 = s\<lparr>sor_client := True\<rparr>
               in if adminSecret cfg \<noteq> [] \<and> oracleSecret cfg \<noteq> [] then
                    (case fromSecret (adminSecret cfg) of
                       Inl e \<Rightarrow> s1\<lparr>sor_initialized := False\<rparr>
                     | Inr _ \<Rightarrow>
                         (let s2 = s1\<lparr>adminKeypair := True\<rparr>
                          in case fromSecret (oracleSecret cfg) of
                               Inl e \<Rightarrow> s2\<lparr>sor_initialized := False\<rparr>
                             | Inr _ \<Rightarrow> s2\<lparr>oracleKeypair := True, sor_initialized := True\<rparr>))
                  else s1\<lparr>sor_initialized := True\<rparr>))"

record soroban_health =
  h_initialized :: bool
  h_contractId :: "string option"
  hasAdminKey :: bool
  hasOracleKey :: bool
  h_failClosed :: bool

definition isFailClosed :: "'c soroban \<Rightarrow> bool" where
  "isFailClosed s = failClosed (sor_config s)"

definition getHealth :: "'c soroban \<Rightarrow> soroban_health" where
  "getHealth s = \<lparr>h_initialized = sor_initialized s,
     h_contractId = (if contractId (sor_config s) = [] then None else Some (contractId (sor_config s))),
     hasAdminKey = adminKeypair s, hasOracleKey = oracleKeypair s, h_failClosed = isFailClosed s\<rparr>"

definition isReady :: "'c soroban \<Rightarrow> bool" where
  "isReady s = sor_initialized s"

definition as_error :: "js_error \<Rightarrow> js_error" where
  "as_error e = (if e = NonError then JsError (message_of e) else e)"

definition applyMoneyPathFailure :: "js_error \<Rightarrow> ('c soroban, js_error, unit) comp" where
  "applyMoneyPathFailure error s =
     (if isFailClosed s then m_throw (as_error error) s else m_return () s)"

definition ensureInitialized :: "('c soroban, js_error, unit) comp" where
  "ensureInitialized s =
     (if \<not> sor_initialized s \<or> \<not> sor_client s
      then m_throw (JsError ''Soroban service is not initialized'') s else m_return () s)"

definition signWithAdmin :: "'c soroban \<Rightarrow> js_error + unit" where
  "signWithAdmin s = (if adminKeypair s then Inr () else Inl (JsError ''Admin keypair not set''))"

definition signWithOracle :: "'c soroban \<Rightarrow> js_error + unit" where
  "signWithOracle s = (if oracleKeypair s then Inr () else Inl (JsError ''Oracle keypair not set''))"

subsection \<open>Guarded calls\<close>

fun is_backpressure :: "js_error \<Rightarrow> bool" where
  "is_backpressure (App e) = (errClass e = BackpressureError_class)"
| "is_backpressure _ = False"

fun is_breaker_open :: "js_error \<Rightarrow> bool" where
  "is_breaker_open (BreakerOpen n t) = True"
| "is_breaker_open _ = False"

definition failed_call :: "js_error \<Rightarrow> 'a timeout_result" where
  "failed_call e = \<lparr>tr_outcome = Inl (as_error e), retriesUsed = 0,
     timedOut = (\<not> is_breaker_open e \<and> e \<noteq> NonError \<and> str_includes (message_of e) ''timeout''),
     to_sleeps = []\<rparr>"

definition unwrap_timeout ::
  "('s \<Rightarrow> 'a timeout_result \<times> 's) \<Rightarrow> ('s, js_error, 'a timeout_result) comp" where
  "unwrap_timeout operation s =
     (let (tr, s') = operation s
      in case tr_outcome tr of Inl e \<Rightarrow> (Inl e, s') | Inr _ \<Rightarrow> (Inr tr, s'))"

definition callWithBreaker ::
  "int \<Rightarrow> ('c soroban \<Rightarrow> 'a timeout_result \<times> 'c soroban) \<Rightarrow>
   ('c soroban, js_error, 'a timeout_result) comp" where
  "callWithBreaker now operation =
     m_catch
       (limiter_execute sor_limiter sor_limiter_update ''soroban-rpc''
         (cb_execute sor_breaker sor_breaker_update now (unwrap_timeout operation)))
       (\<lambda>e. if is_backpressure e then m_throw e else m_return (failed_call e))"

definition MAX_RETRIES :: nat where
  "MAX_RETRIES = 2"

definition call_options :: "nat \<Rightarrow> nat \<Rightarrow> timeout_options" where
  "call_options ms n = \<lparr>timeoutMs = ms, retries = n, to_backoffMultiplier = 2, maxBackoffMs = 8000\<rparr>"

definition on_chain :: "('c, js_error, 'a) comp \<Rightarrow> ('c soroban, js_error, 'a) comp" where
  "on_chain m = m_zoom sor_chain sor_chain_update m"

text \<open>\<open>client.method(args)\<close> followed by \<open>tx.signAndSend\<close>: the simulated result and the sent
  transaction.\<close>

definition signAndSend ::
  "'c xelma_client \<Rightarrow> ('c soroban \<Rightarrow> js_error + unit) \<Rightarrow> contract_call \<Rightarrow>
   ('c soroban, js_error, int \<times> sent_transaction) comp" where
  "signAndSend cl sign call =
     m_bind (on_chain (assemble cl call)) (\<lambda>sim.
     m_bind (m_gets sign) (\<lambda>sg.
       case sg of Inl e \<Rightarrow> m_throw e
       | Inr _ \<Rightarrow> m_bind (on_chain (submit cl call)) (\<lambda>res. m_return (sim, res))))"

text \<open>The end of every mutating method: a failed result is rethrown through \<open>mapSorobanError\<close>.\<close>

definition unwrap_or_map :: "'a timeout_result \<Rightarrow> ('c soroban, js_error, 'a) comp" where
  "unwrap_or_map r =
     (case tr_outcome r of
        Inl e \<Rightarrow> m_throw (App (mapSorobanError (Some (message_of e))))
      | Inr a \<Rightarrow> m_return a)"

definition mutating ::
  "int \<Rightarrow> nat \<Rightarrow> ('c soroban, js_error, 'a) comp \<Rightarrow> ('c soroban, js_error, 'a) comp" where
  "mutating now n operation =
     m_then ensureInitialized
       (m_bind (callWithBreaker now (withTimeout (call_options 15000 n) operation)) unwrap_or_map)"

text \<open>The shape of every read: a default when uninitialised, the same default on failure.\<close>

definition querying ::
  "int \<Rightarrow> 'a \<Rightarrow> ('c soroban, js_error, 'a) comp \<Rightarrow> ('c soroban, js_error, 'a) comp" where
  "querying now dflt operation =
     m_bind (m_gets sor_initialized) (\<lambda>i.
       if \<not> i then m_return dflt
       else m_bind (callWithBreaker now (withTimeout (call_options 10000 1) operation))
         (\<lambda>r. case tr_outcome r of Inl e \<Rightarrow> m_return dflt | Inr a \<Rightarrow> m_return a))"

subsection \<open>Mutating methods\<close>

definition scaled_price :: "arith \<Rightarrow> rat \<Rightarrow> int" where
  "scaled_price E price = \<lfloor>toFix E 0 (decMul E price 10000)\<rfloor>"

definition amount_in_stroops :: "arith \<Rightarrow> rat \<Rightarrow> int" where
  "amount_in_stroops E amount = \<lfloor>toFix E 0 (decMul E amount 10000000)\<rfloor>"

definition createRound ::
  "arith \<Rightarrow> 'c xelma_client \<Rightarrow> int \<Rightarrow> rat \<Rightarrow> nat \<Rightarrow> ('c soroban, js_error, unit) comp" where
  "createRound E cl now startPrice mode =
     mutating now MAX_RETRIES
       (m_then (signAndSend cl signWithAdmin (create_round (scaled_price E startPrice) mode))
         (m_return ()))"

definition placeBet ::
  "arith \<Rightarrow> 'c xelma_client \<Rightarrow> int \<Rightarrow> string \<Rightarrow> rat \<Rightarrow> BetSide \<Rightarrow>
   ('c soroban, js_error, string option) comp" where
  "placeBet E cl now userAddress amount side =
     mutating now 1
       (m_bind (signAndSend cl signWithAdmin (place_bet userAddress (amount_in_stroops E amount) side))
         (\<lambda>(_, res). m_return (sent_hash res)))"

definition placePrecisionBet ::
  "arith \<Rightarrow> 'c xelma_client \<Rightarrow> int \<Rightarrow> string \<Rightarrow> rat \<Rightarrow> rat \<Rightarrow>
   ('c soroban, js_error, string option) comp" where
  "placePrecisionBet E cl now userAddress amount predictedPrice =
     mutating now MAX_RETRIES
       (m_bind (signAndSend cl signWithAdmin
           (place_precision_prediction userAddress (amount_in_stroops E amount)
             (scaled_price E predictedPrice)))
         (\<lambda>(_, res). m_return (sent_hash res)))"

definition resolveRound ::
  "arith \<Rightarrow> 'c xelma_client \<Rightarrow> int \<Rightarrow> rat \<Rightarrow> nat \<Rightarrow> int \<Rightarrow> ('c soroban, js_error, unit) comp" where
  "resolveRound E cl now finalPrice roundId timestamp =
     mutating now MAX_RETRIES
       (m_then (signAndSend cl signWithOracle (resolve_round (scaled_price E finalPrice) roundId timestamp))
         (m_return ()))"

definition mintInitial ::
  "arith \<Rightarrow> 'c xelma_client \<Rightarrow> int \<Rightarrow> string \<Rightarrow> ('c soroban, js_error, rat) comp" where
  "mintInitial E cl now userAddress =
     mutating now MAX_RETRIES
       (m_bind (signAndSend cl signWithAdmin (mint_initial userAddress))
         (\<lambda>(sim, _). m_return (stroopsToXlm E sim)))"

record claim_result =
  cr_amount :: rat
  cr_txHash :: "string option"

definition InvalidClaimResultError :: "string \<Rightarrow> js_error" where
  "InvalidClaimResultError reason = JsError (''Invalid Soroban claim_winnings result: '' @ reason)"

definition parseClaimResult :: "arith \<Rightarrow> sent_transaction \<Rightarrow> js_error + claim_result" where
  "parseClaimResult E sent =
     (case sent_result sent of
        OtherValue t \<Rightarrow> Inl (InvalidClaimResultError (''expected a bigint result, received '' @ t))
      | BigInt n \<Rightarrow>
          if n < 0 then Inl (InvalidClaimResultError ''claimed amount must not be negative'')
          else Inr \<lparr>cr_amount = stroopsToXlm E n, cr_txHash = sendTransactionResponse_hash sent\<rparr>)"

definition claimWinnings ::
  "arith \<Rightarrow> 'c xelma_client \<Rightarrow> int \<Rightarrow> string \<Rightarrow> ('c soroban, js_error, claim_result) comp" where
  "claimWinnings E cl now userAddress =
     mutating now MAX_RETRIES
       (m_bind (signAndSend cl signWithAdmin (claim_winnings userAddress))
         (\<lambda>(_, res). case parseClaimResult E res of Inl e \<Rightarrow> m_throw e | Inr r \<Rightarrow> m_return r))"

subsection \<open>Read-only methods\<close>

definition getActiveRound :: "'c xelma_client \<Rightarrow> int \<Rightarrow> ('c soroban, js_error, string option) comp" where
  "getActiveRound cl now = querying now None (on_chain (get_active_round cl))"

definition getBalance :: "arith \<Rightarrow> 'c xelma_client \<Rightarrow> int \<Rightarrow> string \<Rightarrow> ('c soroban, js_error, rat) comp" where
  "getBalance E cl now userAddress =
     querying now 0 (m_bind (on_chain (balance cl userAddress)) (\<lambda>n. m_return (stroopsToXlm E n)))"

definition getUserStats ::
  "'c xelma_client \<Rightarrow> int \<Rightarrow> string \<Rightarrow> ('c soroban, js_error, string option) comp" where
  "getUserStats cl now userAddress = querying now None (on_chain (get_user_stats cl userAddress))"

definition getPendingWinnings ::
  "'c xelma_client \<Rightarrow> int \<Rightarrow> string \<Rightarrow> ('c soroban, js_error, int) comp" where
  "getPendingWinnings cl now userAddress = querying now 0 (on_chain (get_pending_winnings cl userAddress))"

definition getUserPosition ::
  "arith \<Rightarrow> 'c xelma_client \<Rightarrow> int \<Rightarrow> string \<Rightarrow> string option \<Rightarrow>
   ('c soroban, js_error, (BetSide \<times> rat) option) comp" where
  "getUserPosition E cl now userAddress roundId =
     querying now None
       (case get_user_position cl of
          None \<Rightarrow> m_return None
        | Some q \<Rightarrow>
            m_bind (on_chain (q userAddress (if roundId = Some [] then None else roundId))) (\<lambda>pos.
              m_return (case pos of None \<Rightarrow> None
                | Some (tag, amount) \<Rightarrow>
                    Some (if tag = Some ''Up'' then Up else Down, stroopsToXlm E amount))))"

record transaction_status =
  ts_confirmed :: bool
  ts_successful :: bool
  ts_ledger :: "int option"
  ts_feeCharged :: "int option"
  ts_error :: "string option"

text \<open>A ledger or fee of 0 is falsy in the source.\<close>

definition truthy_int :: "int option \<Rightarrow> int option" where
  "truthy_int x = (if x = Some 0 then None else x)"

fun read_rpc_reply :: "rpc_reply \<Rightarrow> transaction_status" where
  "read_rpc_reply (RpcError m) = \<lparr>ts_confirmed = False, ts_successful = False, ts_ledger = None,
     ts_feeCharged = None, ts_error = Some m\<rparr>"
| "read_rpc_reply RpcNoResult = \<lparr>ts_confirmed = False, ts_successful = False, ts_ledger = None,
     ts_feeCharged = None, ts_error = Some ''Transaction not found''\<rparr>"
| "read_rpc_reply (RpcResult status ledger fee xdr) =
     \<lparr>ts_confirmed = (status \<noteq> ''NOT_FOUND'' \<and> status \<noteq> ''PENDING''),
      ts_successful = (status = ''SUCCESS''),
      ts_ledger = truthy_int ledger, ts_feeCharged = truthy_int fee,
      ts_error = (if status = ''SUCCESS'' then None else if xdr then Some ''Transaction failed'' else None)\<rparr>"

definition getTransactionStatus ::
  "'c xelma_client \<Rightarrow> int \<Rightarrow> string \<Rightarrow> ('c soroban, js_error, transaction_status) comp" where
  "getTransactionStatus cl now txHash =
     m_then ensureInitialized
       (m_bind (callWithBreaker now (withTimeout (call_options 10000 1)
           (m_bind (on_chain (rpc_getTransaction cl txHash)) (\<lambda>r. m_return (read_rpc_reply r)))))
         (\<lambda>r. case tr_outcome r of
            Inl e \<Rightarrow> m_return \<lparr>ts_confirmed = False, ts_successful = False, ts_ledger = None,
              ts_feeCharged = None, ts_error = Some (message_of e)\<rparr>
          | Inr a \<Rightarrow> m_return a))"

subsection \<open>How often a method submits\<close>

text \<open>A client that records every submitted call.\<close>

definition recording :: "'c xelma_client \<Rightarrow> ('c \<times> contract_call list) xelma_client" where
  "recording cl = \<lparr>
     assemble = (\<lambda>call. m_zoom fst apfst (assemble cl call)),
     submit = (\<lambda>call. m_then (m_modify (apsnd (\<lambda>l. l @ [call]))) (m_zoom fst apfst (submit cl call))),
     get_active_round = m_zoom fst apfst (get_active_round cl),
     balance = (\<lambda>u. m_zoom fst apfst (balance cl u)),
     get_user_stats = (\<lambda>u. m_zoom fst apfst (get_user_stats cl u)),
     get_pending_winnings = (\<lambda>u. m_zoom fst apfst (get_pending_winnings cl u)),
     get_user_position = map_option (\<lambda>q u r. m_zoom fst apfst (q u r)) (get_user_position cl),
     rpc_getTransaction = (\<lambda>h. m_zoom fst apfst (rpc_getTransaction cl h))\<rparr>"

definition submissions :: "('c \<times> contract_call list) soroban \<Rightarrow> contract_call list" where
  "submissions s = snd (sor_chain s)"

lemma submissions_frame [simp]:
  "submissions (s\<lparr>sor_breaker := b\<rparr>) = submissions s"
  "submissions (s\<lparr>sor_limiter := l\<rparr>) = submissions s"
  "submissions (sor_breaker_update f s) = submissions s"
  "submissions (sor_limiter_update g s) = submissions s"
  by (simp_all add: submissions_def)

lemma signAndSend_submissions:
  assumes "signAndSend (recording cl) sign call s = (r, s')"
  shows "submissions s' = submissions s @ [call] \<or> submissions s' = submissions s \<and> (\<exists>e. r = Inl e)"
  using assms unfolding signAndSend_def on_chain_def recording_def submissions_def comp_defs
  by (cases "sor_chain s") (auto split: prod.splits sum.splits)

text \<open>A property of the chain that a guarded call can only change by running its operation.\<close>

definition busy :: app_error where
  "busy = BackpressureError ''Too many in-flight soroban-rpc operations. Please retry shortly.''"

lemma limiter_execute_cases:
  assumes "limiter_execute sor_limiter sor_limiter_update ''soroban-rpc'' m s = (r, s')"
  obtains (rejected) "r = Inl (App busy)" "s' = s"
  | (run) l s1 where "m (s\<lparr>sor_limiter := l\<rparr>) = (r, s1)" "s' = sor_limiter_update limiter_end s1"
proof (cases "limiter_begin ''soroban-rpc'' (sor_limiter s)")
  case (Pair x l)
  show thesis
  proof (cases x)
    case (Inl e)
    with Pair assms show thesis
      by (intro that(1)) (auto simp: limiter_execute_def limiter_begin_def busy_def split: if_splits)
  next
    case (Inr u)
    obtain y t where "m (s\<lparr>sor_limiter := l\<rparr>) = (y, t)" by fastforce
    with Inr Pair assms show thesis by (intro that(2) [of l t]) (auto simp: limiter_execute_def)
  qed
qed

lemma beforeCall_Inl: "beforeCall now b = (Inl e, b') \<Longrightarrow> is_breaker_open e"
  by (auto simp: beforeCall_def beforeCall_probe_def open_error_def split: if_splits option.splits)

lemma cb_execute_cases:
  assumes "cb_execute sor_breaker sor_breaker_update now m s = (r, s')"
  obtains (rejected) b e where "r = Inl e" "is_breaker_open e" "s' = s\<lparr>sor_breaker := b\<rparr>"
  | (run) b s1 g where "m (s\<lparr>sor_breaker := b\<rparr>) = (r, s1)" "s' = sor_breaker_update g s1"
proof (cases "beforeCall now (sor_breaker s)")
  case (Pair x b)
  show thesis
  proof (cases x)
    case (Inl e)
    with Pair assms rejected show thesis by (auto simp: cb_execute_def dest: beforeCall_Inl)
  next
    case (Inr u)
    obtain y t where "m (s\<lparr>sor_breaker := b\<rparr>) = (y, t)" by fastforce
    with Inr Pair assms run show thesis by (cases y) (auto simp: cb_execute_def)
  qed
qed

text \<open>The three outcomes of a guarded call: refused by the limiter, refused by the breaker, or the
  wrapped operation ran once.\<close>

lemma callWithBreaker_cases:
  assumes "callWithBreaker now operation s = (r, s')"
  obtains (backpressure) "r = Inl (App busy)" "s' = s"
  | (opened) e b l where "r = Inr (failed_call e)" "s' = s\<lparr>sor_limiter := l, sor_breaker := b\<rparr>"
  | (run) b l tr s1 f g where
      "operation (s\<lparr>sor_limiter := l, sor_breaker := b\<rparr>) = (tr, s1)"
      "s' = sor_limiter_update f (sor_breaker_update g s1)"
      "case tr_outcome tr of Inr a \<Rightarrow> r = Inr tr
       | Inl e \<Rightarrow> (if is_backpressure e then r = Inl e else r = Inr (failed_call e))"
proof -
  let ?m = "cb_execute sor_breaker sor_breaker_update now (unwrap_timeout operation)"
  obtain x t where x: "limiter_execute sor_limiter sor_limiter_update ''soroban-rpc'' ?m s = (x, t)"
    by fastforce
  then have r: "(case x of Inl e \<Rightarrow> if is_backpressure e then (Inl e, t) else (Inr (failed_call e), t)
      | Inr a \<Rightarrow> (Inr a, t)) = (r, s')"
    using assms by (auto simp: callWithBreaker_def comp_defs split: sum.splits if_splits)
  from x show thesis
  proof (cases rule: limiter_execute_cases)
    case rejected
    with r show thesis by (intro that(1)) (auto simp: busy_def BackpressureError_def ExternalServiceError_def)
  next
    case (run l s1)
    note lim = run
    from run(1) show thesis
    proof (cases rule: cb_execute_cases)
      case (rejected b e)
      then have "\<not> is_backpressure e" by (cases e) auto
      then show thesis
        by (intro opened [of e b "limiter_end l"])
          (use rejected lim(2) r in \<open>auto intro!: soroban.equality\<close>)
    next
      case (run b s2 g)
      then obtain tr where tr: "operation (s\<lparr>sor_limiter := l, sor_breaker := b\<rparr>) = (tr, s2)"
          "x = (case tr_outcome tr of Inl e \<Rightarrow> Inl e | Inr _ \<Rightarrow> Inr tr)"
        by (auto simp: unwrap_timeout_def split: prod.splits sum.splits)
      show thesis
        by (rule that(3) [OF tr(1)])
          (use lim(2) run(2) r tr(2) in \<open>auto split: sum.splits if_splits\<close>)
    qed
  qed
qed

lemma timeout_loop_measure:
  assumes "\<And>s. f (snd (m s)) \<le> f s + (1::nat)"
  shows "f (snd (timeout_loop opts m attempt slept le s)) \<le> f s + (retries opts - attempt)"
  using assms
proof (induction opts m attempt slept le s rule: timeout_loop.induct)
  case (1 opts m attempt slept le s)
  obtain x t where mt: "m s = (x, t)" by fastforce
  with "1.prems" [of s] have t: "f t \<le> f s + 1" by simp
  show ?case
  proof (cases "attempt < retries opts \<and> (\<exists>e. x = Inl e) \<and> attempt < retries opts - 1")
    case True
    then obtain e where e: "x = Inl e" "attempt < retries opts" "attempt < retries opts - 1" by blast
    let ?d = "min (1000 * to_backoffMultiplier opts ^ attempt) (maxBackoffMs opts)"
    have eq: "timeout_loop opts m attempt slept le s =
        timeout_loop opts m (Suc attempt) (slept @ [?d]) (Some e) t"
      using e mt by (subst timeout_loop.simps) (simp add: Let_def)
    from "1.IH" [OF e(2) mt [symmetric] e(1,3) refl "1.prems"] t e(2) show ?thesis
      unfolding eq by linarith
  next
    case False
    with mt t show ?thesis
      by (subst timeout_loop.simps) (auto split: sum.splits)
  qed
qed

lemma callWithBreaker_measure:
  assumes "\<And>s. length (submissions (snd (m s))) \<le> length (submissions s) + 1"
  shows "length (submissions (snd (callWithBreaker now (withTimeout (call_options ms n) m) s)))
    \<le> length (submissions s) + n"
proof (cases "callWithBreaker now (withTimeout (call_options ms n) m) s")
  case (Pair r s')
  then show ?thesis
  proof (cases rule: callWithBreaker_cases)
    case (run b l tr s1 f g)
    with timeout_loop_measure [where f = "\<lambda>s. length (submissions s)" and m = m
        and opts = "call_options ms n" and attempt = 0, OF assms] Pair show ?thesis
      by (simp add: withTimeout_def call_options_def) (metis snd_conv submissions_frame(1,2))
  qed (use Pair in simp_all)
qed

lemma mutating_measure:
  assumes "\<And>s. length (submissions (snd (m s))) \<le> length (submissions s) + 1"
  shows "length (submissions (snd (mutating now n m s))) \<le> length (submissions s) + n"
  using callWithBreaker_measure [where m = m and now = now and ms = 15000 and n = n and s = s, OF assms]
  unfolding mutating_def
  by (auto simp: comp_defs ensureInitialized_def unwrap_or_map_def split: prod.splits sum.splits)

lemma send_then_measure:
  assumes "\<And>x s. snd (k x s) = s"
  shows "length (submissions (snd (m_bind (signAndSend (recording cl) sign call) k s)))
    \<le> length (submissions s) + 1"
proof (cases "signAndSend (recording cl) sign call s")
  case (Pair r s')
  with signAndSend_submissions [OF Pair] assms show ?thesis
    by (cases r) (auto simp: m_bind_def)
qed

lemma withTimeout_once:
  "withTimeout (call_options ms (Suc 0)) m s =
     (case m s of
        (Inr a, s') \<Rightarrow> (\<lparr>tr_outcome = Inr a, retriesUsed = 0, timedOut = False, to_sleeps = []\<rparr>, s')
      | (Inl e, s') \<Rightarrow> (\<lparr>tr_outcome = Inl e, retriesUsed = 1,
          timedOut = str_includes (message_of e) ''timeout'', to_sleeps = []\<rparr>, s'))"
  by (simp add: withTimeout_def timeout_loop.simps call_options_def split: prod.split sum.split)

lemma mutating_once:
  assumes "mutating now 1 m s = (r, s')"
  obtains (nothing) e where "r = Inl e" "submissions s' = submissions s"
  | (run) s1 x s2 where "submissions s1 = submissions s" "m s1 = (x, s2)"
      "submissions s' = submissions s2" "(\<exists>e. x = Inl e) \<longrightarrow> (\<exists>e. r = Inl e)"
proof (cases "sor_initialized s \<and> sor_client s")
  case False
  with assms have eqs: "r = Inl (JsError ''Soroban service is not initialized'')" "s' = s"
    by (auto simp: mutating_def ensureInitialized_def comp_defs)
  show thesis by (rule that(1) [OF eqs(1)]) (simp add: eqs)
next
  case True
  obtain c t where c: "callWithBreaker now (withTimeout (call_options 15000 1) m) s = (c, t)" by fastforce
  with assms True have r: "r = (case c of Inl e \<Rightarrow> Inl e | Inr tr \<Rightarrow> (case tr_outcome tr of
      Inl e \<Rightarrow> Inl (App (mapSorobanError (Some (message_of e)))) | Inr a \<Rightarrow> Inr a))" "s' = t"
    by (auto simp: mutating_def ensureInitialized_def unwrap_or_map_def comp_defs split: sum.splits)
  from c show thesis
  proof (cases rule: callWithBreaker_cases)
    case (run b l tr s1 f g)
    obtain x s2 where x: "m (s\<lparr>sor_limiter := l, sor_breaker := b\<rparr>) = (x, s2)" by fastforce
    with run have "submissions t = submissions s2" "tr_outcome tr = x"
      by (auto simp: withTimeout_once split: sum.splits)
    with run(3) r show thesis
      by (intro that(2) [OF _ x]) (auto simp: failed_call_def split: if_splits)
  qed (use r that(1) in \<open>auto simp: failed_call_def\<close>)
qed

text \<open>Errors of the external client are never of the server's own classes.\<close>

definition foreign_errors :: "'c xelma_client \<Rightarrow> bool" where
  "foreign_errors cl \<longleftrightarrow> (\<forall>call c e c'. (assemble cl call c = (Inl e, c') \<or> submit cl call c = (Inl e, c')) \<longrightarrow>
     \<not> is_backpressure e)"

lemma placeBet_errors:
  assumes "foreign_errors cl" and "placeBet E cl now u a side s = (Inl e, s')"
  shows "e \<in> {JsError ''Soroban service is not initialized'', App busy} \<or>
    (\<exists>m. e = App (mapSorobanError m))"
proof -
  have nb: "\<not> is_backpressure e"
    if "m_bind (signAndSend cl signWithAdmin c) (\<lambda>(_, res). m_return (sent_hash res)) t = (Inl e, t')" for c t t' e
    using that assms(1) unfolding foreign_errors_def
    by (auto simp: signAndSend_def on_chain_def signWithAdmin_def comp_defs split: prod.splits sum.splits if_splits)
  obtain r t where c: "callWithBreaker now (withTimeout (call_options 15000 1)
      (m_bind (signAndSend cl signWithAdmin (place_bet u (amount_in_stroops E a) side))
        (\<lambda>(_, res). m_return (sent_hash res)))) s = (r, t)" by fastforce
  then have "r = Inl (App busy) \<or> (\<exists>tr. r = Inr tr)"
  proof (cases rule: callWithBreaker_cases)
    case (run b l tr s1 f g)
    then show ?thesis
      by (auto simp: withTimeout_once split: prod.splits sum.splits if_splits dest: nb)
  qed auto
  with c assms(2) show ?thesis
    by (auto simp: placeBet_def mutating_def ensureInitialized_def unwrap_or_map_def comp_defs
        split: if_splits sum.splits)
qed

lemma placeBet_submissions:
  assumes "placeBet E (recording cl) now u a side s = (r, s')"
  shows "submissions s' = submissions s @ [place_bet u (amount_in_stroops E a) side] \<or>
    submissions s' = submissions s \<and> (\<exists>e. r = Inl e)"
  using assms unfolding placeBet_def
proof (cases rule: mutating_once)
  case (run s1 x s2)
  let ?call = "place_bet u (amount_in_stroops E a) side"
  obtain y s3 where y: "signAndSend (recording cl) signWithAdmin ?call s1 = (y, s3)" by fastforce
  with run(2) have "s3 = s2" "(\<exists>e. y = Inl e) \<longleftrightarrow> (\<exists>e. x = Inl e)"
    by (auto simp: comp_defs split: sum.splits prod.splits)
  with signAndSend_submissions [OF y] run show ?thesis by auto
qed auto


text \<open>A client whose submissions reach the chain but whose responses are lost, and a service
  that uses it.\<close>

definition lossy_client :: "unit xelma_client" where
  "lossy_client = \<lparr>
     assemble = (\<lambda>_. m_return 0),
     submit = (\<lambda>_. m_throw (JsError ''request timeout'')),
     get_active_round = m_return None, balance = (\<lambda>_. m_return 0),
     get_user_stats = (\<lambda>_. m_return None), get_pending_winnings = (\<lambda>_. m_return 0),
     get_user_position = None, rpc_getTransaction = (\<lambda>_. m_return RpcNoResult)\<rparr>"

definition ready_soroban :: "'c \<Rightarrow> 'c soroban" where
  "ready_soroban c = soroban_init (Inr ()) (\<lambda>_. Inr ())
     (new_soroban \<lparr>contractId = ''C'', adminSecret = ''A'', oracleSecret = ''O'', failClosed = False,
        breakerFailureThreshold = 3, breakerOpenBackoffMs = 30000, moneyPathMaxInFlight = 10\<rparr> c)"

text \<open>A mutating call that times out can be executed twice: with a client whose submissions reach
  the chain but whose responses time out, \<open>claimWinnings\<close> puts two transactions on chain, while
  \<open>placeBet\<close>, which is limited to one attempt, puts one there; both report the same error.\<close>

theorem lost_response_resubmits:
  "submissions (snd (claimWinnings E (recording lossy_client) 0 ''G'' (ready_soroban ((), [])))) =
     [claim_winnings ''G'', claim_winnings ''G''] \<and>
   submissions (snd (placeBet E (recording lossy_client) 0 ''G'' a Up (ready_soroban ((), [])))) =
     [place_bet ''G'' (amount_in_stroops E a) Up] \<and>
   fst (claimWinnings E (recording lossy_client) 0 ''G'' (ready_soroban ((), []))) =
     Inl (App (mapSorobanError (Some ''request timeout''))) \<and>
   fst (placeBet E (recording lossy_client) 0 ''G'' a Up (ready_soroban ((), []))) =
     Inl (App (mapSorobanError (Some ''request timeout'')))"
  by (simp add: claimWinnings_def placeBet_def mutating_def ensureInitialized_def ready_soroban_def
      soroban_init_def new_soroban_def callWithBreaker_def limiter_execute_def limiter_begin_def
      createConcurrencyLimiter_def cb_execute_def new_breaker_def breaker_defs unwrap_timeout_def
      withTimeout_def timeout_loop.simps call_options_def MAX_RETRIES_def signAndSend_def on_chain_def
      recording_def lossy_client_def signWithAdmin_def unwrap_or_map_def failed_call_def as_error_def
      submissions_def comp_defs)

lemma querying_failing:
  assumes "\<And>s. \<exists>e s1. m s = (Inl e, s1) \<and> \<not> is_backpressure e"
  shows "fst (querying now d m s) = Inr d \<or>
    (\<exists>e. fst (querying now d m s) = Inl e \<and> is_backpressure e)"
proof (cases "sor_initialized s")
  case False
  then show ?thesis by (simp add: querying_def comp_defs)
next
  case True
  obtain r t where c: "callWithBreaker now (withTimeout (call_options 10000 1) m) s = (r, t)" by fastforce
  have q: "fst (querying now d m s) = (case r of Inl e \<Rightarrow> Inl e
      | Inr tr \<Rightarrow> (case tr_outcome tr of Inl e \<Rightarrow> Inr d | Inr a \<Rightarrow> Inr a))"
    using True c by (auto simp: querying_def comp_defs split: sum.splits)
  from c show ?thesis
  proof (cases rule: callWithBreaker_cases)
    case (run b l tr s1 f g)
    with assms [of "s\<lparr>sor_limiter := l, sor_breaker := b\<rparr>"] q show ?thesis
      by (auto simp: withTimeout_once failed_call_def)
  qed (use q in \<open>auto simp: failed_call_def busy_def BackpressureError_def ExternalServiceError_def\<close>)
qed

text \<open>An outage is reported as a balance of zero: when every pending-winnings query fails,
  \<open>getPendingWinnings\<close> answers 0, the answer for an account without winnings; the only error it
  can throw instead is the limiter's \<open>BackpressureError\<close>.\<close>

theorem pendingWinnings_outage:
  assumes "\<And>c. \<exists>e c'. get_pending_winnings cl u c = (Inl e, c') \<and> \<not> is_backpressure e"
  shows "fst (getPendingWinnings cl now u s) = Inr 0 \<or>
    (\<exists>e. fst (getPendingWinnings cl now u s) = Inl e \<and> is_backpressure e)"
  unfolding getPendingWinnings_def
proof (rule querying_failing)
  fix s :: "'a soroban"
  from assms [of "sor_chain s"] show "\<exists>e s1. on_chain (get_pending_winnings cl u) s = (Inl e, s1) \<and>
      \<not> is_backpressure e" by (auto simp: on_chain_def comp_defs)
qed

theorem pendingWinnings_outage_witness:
  "fst (getPendingWinnings (lossy_client\<lparr>get_pending_winnings := \<lambda>_. m_throw (JsError ''fetch failed'')\<rparr>)
     0 ''G'' (ready_soroban ())) = Inr 0"
  (is "fst (getPendingWinnings ?cl _ _ ?s) = _")
proof -
  have "\<exists>e c'. get_pending_winnings ?cl ''G'' c = (Inl e, c') \<and> \<not> is_backpressure e" for c
    by (simp add: comp_defs)
  from pendingWinnings_outage [OF this, of 0 ?s] show ?thesis
    by (simp add: getPendingWinnings_def querying_def ready_soroban_def
      soroban_init_def new_soroban_def callWithBreaker_def limiter_execute_def limiter_begin_def
      createConcurrencyLimiter_def cb_execute_def new_breaker_def breaker_defs unwrap_timeout_def
      withTimeout_once on_chain_def failed_call_def as_error_def comp_defs)
qed

end
