(* ===== verification/Schema.thy ===== *)
theory Schema
  imports Collection Soroban
begin

text \<open>
  The tables (\<open>src/prisma/schema.prisma\<close>, and the defaults of
  \<open>src/src/lib/memory-prisma.ts\<close>) and the state of the whole server.

  \<open>db\<close> has one \<open>collection\<close> per table; \<open>'c app\<close> extends it with the chain adapter and with the
  list of events the services emit outside the database (WebSocket, audit, metrics, cache
  invalidation).  A handler is a computation on \<open>'c app\<close>; time stamps are integers
  (milliseconds) and the current time is an argument of the handler.  Request ids and correlation
  ids only label log entries and are left out.
\<close>

subsection \<open>Enumerations\<close>

datatype GameMode = UP_DOWN | LEGENDS

datatype RoundStatus = RS_PENDING | RS_ACTIVE | RS_LOCKED | RS_RESOLVED | RS_CANCELLED

datatype PredictionSide = UP | DOWN

datatype PredictionChainStatus =
  PC_NOT_REQUIRED | PC_PENDING | PC_SUBMITTED | PC_CONFIRMED | PC_FAILED | PC_NEEDS_MANUAL_REVIEW

datatype BetStatus = BS_ACCEPTED | BS_SUBMITTED | BS_CONFIRMED | BS_RESOLVED | BS_FAILED

datatype BetMode = BM_UP_DOWN | BM_PRECISION

datatype ClaimStatus =
  CS_PENDING | CS_SUBMITTED | CS_CONFIRMED | CS_FAILED | CS_NEEDS_MANUAL_REVIEW

datatype OutboxEventType =
  OE_NOTIFICATION_CREATE | OE_WEBSOCKET_EMIT | OE_BET_ACCEPTED | OE_BET_CONFIRMED | OE_BET_RESOLVED
  | OE_BET_FAILED

datatype OutboxEventStatus = OS_PENDING | OS_PROCESSING | OS_PROCESSED | OS_FAILED

datatype DispatchChannel = DC_NOTIFICATION_CREATE | DC_WEBSOCKET_EMIT

datatype DispatchStatus = DS_PENDING | DS_RETRYING | DS_RESOLVED | DS_ABANDONED

datatype TournamentStatus = TS_UPCOMING | TS_ACTIVE | TS_COMPLETED | TS_CANCELLED

datatype NotificationType = NT_WIN | NT_LOSS | NT_ROUND_START | NT_BONUS_AVAILABLE | NT_ANNOUNCEMENT

datatype UserRole = UR_USER | UR_ADMIN | UR_ORACLE

subsection \<open>JSON columns\<close>

datatype json = JNull | JBool bool | JNum rat | JStr string | JArr "json list" | JObj "(string \<times> json) list"

subsection \<open>Rows\<close>

record user_row =
  u_id :: string
  walletAddress :: string
  virtualBalance :: rat
  wins :: int
  streak :: int
  u_role :: UserRole
  lastLoginAt :: "int option"

record round_row =
  r_id :: string
  r_mode :: GameMode
  r_status :: RoundStatus
  startPrice :: rat
  endPrice :: "rat option"
  startTime :: int
  endTime :: int
  sorobanRoundId :: "string option"
  isSoroban :: bool
  poolUp :: rat
  poolDown :: rat
  priceRanges :: json
  r_resolvedAt :: "int option"

record prediction_row =
  p_id :: string
  p_userId :: string
  p_roundId :: string
  p_side :: "PredictionSide option"
  p_amount :: rat
  p_priceRange :: json
  p_won :: "bool option"
  p_payout :: "rat option"
  chainStatus :: PredictionChainStatus
  p_txHash :: "string option"
  chainAttemptCount :: int
  chainFailureReason :: "string option"
  chainSubmittedAt :: "int option"
  chainConfirmedAt :: "int option"
  chainFailedAt :: "int option"
  compensatedAt :: "int option"
  p_createdAt :: int

record bet_row =
  b_id :: string
  b_userId :: string
  b_roundId :: "string option"
  b_mode :: BetMode
  b_side :: "PredictionSide option"
  b_amount :: rat
  predictedPrice :: "rat option"
  b_status :: BetStatus
  b_txHash :: "string option"
  failureReason :: "string option"
  submittedAt :: "int option"
  confirmedAt :: "int option"
  b_resolvedAt :: "int option"
  failedAt :: "int option"
  b_createdAt :: int

record claim_row =
  c_id :: string
  c_userId :: "string option"
  c_walletAddress :: string
  c_amount :: "rat option"
  c_status :: ClaimStatus
  c_txHash :: "string option"
  c_attempts :: int
  c_lastError :: "string option"
  claimedAt :: "int option"
  c_createdAt :: int
  c_updatedAt :: int

text \<open>Notification texts carry an amount, which the source prints with two decimals.\<close>

datatype note_text = WinText rat string | LossText string | PlainText string

record round_view =
  v_id :: string
  v_mode :: GameMode
  v_status :: RoundStatus
  v_startTime :: int
  v_endTime :: int
  v_startPrice :: rat
  v_endPrice :: "rat option"
  v_poolUp :: rat
  v_poolDown :: rat
  v_priceRanges :: json
  v_resolvedAt :: "int option"

datatype ws_data =
    PredictionPlaced string string rat "PredictionSide option" json
  | RoundUpdate round_view
  | NotificationData NotificationType string note_text string "rat option"

datatype outbox_payload =
    NotificationPayload string NotificationType string note_text string "rat option"
      \<comment> \<open>user, type, title, message, round, amount\<close>
  | WebsocketPayload string string "string option" ws_data  \<comment> \<open>event, room, user, data\<close>
  | BetAcceptedPayload string string "string option" BetMode "PredictionSide option" rat "rat option"
      string "string option"
  | BetConfirmedPayload string string "string option" BetMode string
  | BetResolvedPayload string string string BetMode bool rat
  | BetFailedPayload string string "string option" BetMode string

record outbox_row =
  o_id :: string
  o_eventType :: OutboxEventType
  o_aggregateId :: string
  o_aggregateType :: string
  o_payload :: outbox_payload
  o_status :: OutboxEventStatus
  o_attempts :: int
  o_lastError :: "string option"
  o_createdAt :: int
  o_updatedAt :: int
  o_processedAt :: "int option"

text \<open>What a dead letter keeps: the payload of an outbox row, or the room and data of an emission.\<close>

datatype dispatch_payload = StoredPayload outbox_payload | RoomPayload string outbox_payload

record dispatch_row =
  d_id :: string
  d_channel :: DispatchChannel
  d_eventName :: "string option"
  d_userId :: "string option"
  d_payload :: dispatch_payload
  d_attempts :: int
  d_status :: DispatchStatus
  d_lastError :: string
  d_createdAt :: int
  d_lastRetryAt :: "int option"
  d_resolvedAt :: "int option"

record tournament_row =
  t_id :: string
  t_name :: string
  t_description :: string
  t_mode :: GameMode
  t_status :: TournamentStatus
  entryFee :: rat
  prizePool :: rat
  maxParticipants :: int
  currentParticipants :: int
  t_startTime :: int
  t_endTime :: int
  t_rounds :: int
  t_createdAt :: int

record participant_row =
  tp_id :: string
  tp_tournamentId :: string
  tp_userId :: string
  joinedAt :: int

record stats_row =
  s_id :: string
  s_userId :: string
  totalPredictions :: int
  correctPredictions :: int
  totalEarnings :: rat
  upDownWins :: int
  upDownLosses :: int
  upDownEarnings :: rat
  legendsWins :: int
  legendsLosses :: int
  legendsEarnings :: rat

record transaction_row =
  tr_id :: string
  tr_userId :: string
  tr_amount :: rat
  tr_type :: string
  tr_description :: string

record challenge_row =
  ac_id :: string
  ac_challenge :: string
  ac_walletAddress :: string
  ac_createdAt :: int
  ac_expiresAt :: int
  ac_usedAt :: "int option"
  ac_isUsed :: bool

subsection \<open>The database and the server\<close>

record db =
  users :: "user_row collection"
  rounds :: "round_row collection"
  predictions :: "prediction_row collection"
  bets :: "bet_row collection"
  claims :: "claim_row collection"
  outboxEvents :: "outbox_row collection"
  failedDispatches :: "dispatch_row collection"
  tournaments :: "tournament_row collection"
  participants :: "participant_row collection"
  userStats :: "stats_row collection"
  transactions :: "transaction_row collection"
  authChallenges :: "challenge_row collection"

datatype effect =
    EmitRoundUpdate string
  | EmitRoundResolved string
  | Audit string string
  | Metric string
  | InvalidateNamespace string
  | WsEmit string string  \<comment> \<open>event and room\<close>
  | NotificationCreated string  \<comment> \<open>user\<close>

record 'c app = db +
  soroban :: "'c soroban"
  effects :: "effect list"

text \<open>Every collection is well formed and files its rows under their id column.\<close>

definition wf_db :: "'z db_scheme \<Rightarrow> bool" where
  "wf_db s \<longleftrightarrow>
     wf_t u_id (users s) \<and> wf_t r_id (rounds s) \<and> wf_t p_id (predictions s) \<and>
     wf_t b_id (bets s) \<and> wf_t c_id (claims s) \<and> wf_t o_id (outboxEvents s) \<and>
     wf_t d_id (failedDispatches s) \<and> wf_t t_id (tournaments s) \<and>
     wf_t tp_id (participants s) \<and> wf_t s_id (userStats s) \<and> wf_t tr_id (transactions s) \<and>
     wf_t ac_id (authChallenges s)"

text \<open>The tables of \<open>s\<close>, everything else of \<open>s'\<close>.\<close>

definition rollback_db :: "'c app \<Rightarrow> 'c app \<Rightarrow> 'c app" where
  "rollback_db s s' = s\<lparr>soroban := soroban s', effects := effects s'\<rparr>"

definition tx :: "data_store \<Rightarrow> ('c app, js_error, 'a) comp \<Rightarrow> ('c app, js_error, 'a) comp" where
  "tx ds body = transaction ds rollback_db body"

definition emit :: "effect \<Rightarrow> ('c app, js_error, unit) comp" where
  "emit e = m_modify (effects_update (\<lambda>l. l @ [e]))"

text \<open>A call of the chain adapter from a service.\<close>

definition on_soroban :: "('c soroban, js_error, 'a) comp \<Rightarrow> ('c app, js_error, 'a) comp" where
  "on_soroban m = m_zoom soroban soroban_update m"

text \<open>\<open>outboxEvent.create\<close> with the column defaults.\<close>

definition outbox_create ::
  "int \<Rightarrow> OutboxEventType \<Rightarrow> string \<Rightarrow> string \<Rightarrow> outbox_payload \<Rightarrow> ('c app, js_error, outbox_row) comp" where
  "outbox_create now ty aggId aggType payload =
     t_create outboxEvents outboxEvents_update (\<lambda>i. \<lparr>o_id = i, o_eventType = ty, o_aggregateId = aggId,
       o_aggregateType = aggType, o_payload = payload, o_status = OS_PENDING, o_attempts = 0,
       o_lastError = None, o_createdAt = now, o_updatedAt = now, o_processedAt = None\<rparr>)"

text \<open>The error Prisma raises when the row of an \<open>update\<close> is missing.\<close>

definition P2025 :: js_error where
  "P2025 = Prisma ''P2025'' None ''No record was found for an update.''"

definition toChainSide :: "PredictionSide \<Rightarrow> BetSide" where
  "toChainSide side = (case side of UP \<Rightarrow> Up | DOWN \<Rightarrow> Down)"

subsection \<open>What a service relies on when it works on one table\<close>

text \<open>
  The accessor and the update function of a table, and its id column.  The laws hold by the
  record structure; the lemmas are what the handlers' proofs use.
\<close>

locale app_table =
  fixes tbl :: "'c app \<Rightarrow> 'r collection"
    and upd :: "('r collection \<Rightarrow> 'r collection) \<Rightarrow> 'c app \<Rightarrow> 'c app"
    and idf :: "'r \<Rightarrow> string"
  assumes tbl_wf: "wf_db s \<Longrightarrow> wf_t idf (tbl s)"
    and upd_wf: "wf_db s \<Longrightarrow> wf_t idf c \<Longrightarrow> wf_db (upd (\<lambda>_. c) s)"
    and upd_same: "upd (\<lambda>_. tbl s) s = s"
begin

lemma find_id: "wf_db s \<Longrightarrow> t_find tbl (\<lambda>r. idf r = k) s = (Inr (peek k (tbl s)), s)"
  by (rule t_find_id) (rule tbl_wf)

lemma unique_id: "wf_db s \<Longrightarrow> c_findUnique (\<lambda>r. idf r = k) (tbl s) = peek k (tbl s)"
  using tbl_wf [of s] findUnique_id [of "tbl s" k] by (simp add: wf_t_def)

lemma peek_id: "wf_db s \<Longrightarrow> peek k (tbl s) = Some r \<Longrightarrow> idf r = k"
  by (rule wf_t_id [OF tbl_wf])

lemma update_id:
  "wf_db s \<Longrightarrow> (\<And>r. idf (f r) = idf r) \<Longrightarrow> t_update nf tbl upd (\<lambda>r. idf r = k) f s =
     (case peek k (tbl s) of None \<Rightarrow> (Inl nf, s)
      | Some r \<Rightarrow> (Inr (f r), upd (\<lambda>_. c_set k (f r) (tbl s)) s))"
  by (rule t_update_id) (rule tbl_wf)

lemma update_id_conj:
  "wf_db s \<Longrightarrow> (\<And>r. idf (f r) = idf r) \<Longrightarrow> t_update nf tbl upd (\<lambda>r. idf r = k \<and> Q r) f s =
     (case peek k (tbl s) of None \<Rightarrow> (Inl nf, s)
      | Some r \<Rightarrow> if Q r then (Inr (f r), upd (\<lambda>_. c_set k (f r) (tbl s)) s) else (Inl nf, s))"
  by (rule t_update_id_conj) (rule tbl_wf)

lemma updateMany_id:
  "wf_db s \<Longrightarrow> (\<And>r. idf (f r) = idf r) \<Longrightarrow> t_updateMany tbl upd (\<lambda>r. idf r = k \<and> Q r) f s =
     (case peek k (tbl s) of None \<Rightarrow> (Inr 0, s)
      | Some r \<Rightarrow> if Q r then (Inr 1, upd (\<lambda>_. c_set k (f r) (tbl s)) s) else (Inr 0, s))"
  by (rule t_updateMany_id) (rule tbl_wf, assumption, assumption, rule upd_same)

lemma create_eq:
  "t_create tbl upd mk s =
     (Inr (mk (generateId (tbl s) (idCalls (tbl s)))), upd (\<lambda>_. snd (c_create mk (tbl s))) s)"
  by (simp add: t_create_def c_create_def Let_def)

lemma set_wf: "wf_db s \<Longrightarrow> peek k (tbl s) = Some r0 \<Longrightarrow> idf r = k \<Longrightarrow> wf_db (upd (\<lambda>_. c_set k r (tbl s)) s)"
  by (blast intro: upd_wf wf_t_set tbl_wf)

lemma create_wf: "wf_db s \<Longrightarrow> (\<And>i. idf (mk i) = i) \<Longrightarrow> wf_db (upd (\<lambda>_. snd (c_create mk (tbl s))) s)"
  by (blast intro: upd_wf wf_t_create tbl_wf)

lemma preserves_create: "(\<And>i. idf (mk i) = i) \<Longrightarrow> preserves wf_db (t_create tbl upd mk)"
  by (rule preservesI) (simp add: create_eq create_wf)

lemma preserves_update:
  assumes "\<And>r. idf (f r) = idf r"
  shows "preserves wf_db (t_update nf tbl upd P f)"
proof (rule preservesI)
  fix s :: "'c app" assume s: "wf_db s"
  then have t: "wf_collection (tbl s)" "idField (tbl s) = idf" using tbl_wf by (auto simp: wf_t_def)
  show "wf_db (snd (t_update nf tbl upd P f s))"
  proof (cases "c_update P f (tbl s)")
    case None
    with s show ?thesis by (simp add: t_update_def)
  next
    case (Some x)
    obtain r' c' where x: "x = (r', c')" by (cases x)
    with Some t assms have "wf_t idf c'"
      using wf_c_update [of "tbl s" f P r' c'] c_update_idField [of P f "tbl s" r' c'] by (auto simp: wf_t_def)
    with s Some x show ?thesis by (simp add: t_update_def upd_wf)
  qed
qed

lemma preserves_updateMany_id:
  assumes "\<And>r. idf (f r) = idf r"
  shows "preserves wf_db (t_updateMany tbl upd (\<lambda>r. idf r = k \<and> Q r) f)"
proof (rule preservesI)
  fix s :: "'c app" assume s: "wf_db s"
  have "idf (f r) = k" if "peek k (tbl s) = Some r" for r
    using wf_t_id [OF tbl_wf [OF s] that] by (simp add: assms)
  with s show "wf_db (snd (t_updateMany tbl upd (\<lambda>r. idf r = k \<and> Q r) f s))"
    by (auto simp: updateMany_id assms intro: set_wf split: option.split)
qed

lemmas preserves_table = preserves_create preserves_update preserves_updateMany_id

end

interpretation users: app_table users users_update u_id
  by unfold_locales (simp_all add: wf_db_def)

interpretation rounds: app_table rounds rounds_update r_id
  by unfold_locales (simp_all add: wf_db_def)

interpretation predictions: app_table predictions predictions_update p_id
  by unfold_locales (simp_all add: wf_db_def)

interpretation bets: app_table bets bets_update b_id
  by unfold_locales (simp_all add: wf_db_def)

interpretation claims: app_table claims claims_update c_id
  by unfold_locales (simp_all add: wf_db_def)

interpretation outbox: app_table outboxEvents outboxEvents_update o_id
  by unfold_locales (simp_all add: wf_db_def)

interpretation dispatches: app_table failedDispatches failedDispatches_update d_id
  by unfold_locales (simp_all add: wf_db_def)

interpretation tournaments: app_table tournaments tournaments_update t_id
  by unfold_locales (simp_all add: wf_db_def)

interpretation participants: app_table participants participants_update tp_id
  by unfold_locales (simp_all add: wf_db_def)

interpretation userStats: app_table userStats userStats_update s_id
  by unfold_locales (simp_all add: wf_db_def)

interpretation transactions: app_table transactions transactions_update tr_id
  by unfold_locales (simp_all add: wf_db_def)

interpretation challenges: app_table authChallenges authChallenges_update ac_id
  by unfold_locales (simp_all add: wf_db_def)

lemmas preserves_tables [preserve_intros] =
  users.preserves_table rounds.preserves_table predictions.preserves_table bets.preserves_table
  claims.preserves_table outbox.preserves_table dispatches.preserves_table
  tournaments.preserves_table participants.preserves_table userStats.preserves_table
  transactions.preserves_table challenges.preserves_table

lemmas table_eqs =
  users.find_id users.update_id users.update_id_conj users.updateMany_id users.create_eq
  rounds.find_id rounds.update_id rounds.updateMany_id rounds.create_eq
  predictions.find_id predictions.update_id predictions.create_eq
  bets.find_id bets.update_id bets.create_eq claims.find_id claims.updateMany_id claims.create_eq
  outbox.find_id outbox.update_id outbox.updateMany_id outbox.create_eq
  dispatches.find_id dispatches.update_id dispatches.create_eq
  tournaments.find_id tournaments.update_id tournaments.create_eq
  participants.create_eq transactions.create_eq

lemmas unique_ids = users.unique_id rounds.unique_id predictions.unique_id bets.unique_id claims.unique_id
  outbox.unique_id dispatches.unique_id tournaments.unique_id

lemmas find_simps = t_find_def m_gets_def unique_ids

subsection \<open>Effects and the chain leave the tables alone\<close>

lemma wf_db_effects [simp]: "wf_db (effects_update f s) = wf_db s"
  by (simp add: wf_db_def)

lemma wf_db_soroban [simp]: "wf_db (soroban_update f s) = wf_db s"
  by (simp add: wf_db_def)

lemma wf_db_rollback [simp]: "wf_db (rollback_db s s') = wf_db s"
  by (simp add: rollback_db_def)

lemma emit_eq: "emit e s = (Inr (), s\<lparr>effects := effects s @ [e]\<rparr>)"
  by (simp add: emit_def m_modify_def)

lemma preserves_emit [preserve_intros]: "preserves wf_db (emit e)"
  unfolding emit_def by (rule preserves_modify) simp

lemma preserves_on_soroban [preserve_intros]: "preserves wf_db (on_soroban m)"
  unfolding on_soroban_def by (rule preserves_zoom) simp

lemma preserves_tx [preserve_intros]: "preserves wf_db m \<Longrightarrow> preserves wf_db (tx ds m)"
  unfolding tx_def by (rule preserves_transaction) simp_all

lemma tx_commit: "body s = (Inr a, s') \<Longrightarrow> tx ds body s = (Inr a, s')"
  by (simp add: tx_def transaction_def)

lemma tx_abort: "body s = (Inl e, s') \<Longrightarrow> tx Postgres body s = (Inl e, rollback_db s s')"
  by (simp add: tx_def transaction_def)

lemma preserves_outbox_create [preserve_intros]: "preserves wf_db (outbox_create now ty a b p)"
  unfolding outbox_create_def by (rule outbox.preserves_create) simp

text \<open>A computation that only adds outbox rows, talks to the chain or emits effects keeps every
  other table.\<close>

definition core :: "'c app \<Rightarrow> user_row collection \<times> round_row collection \<times> prediction_row collection" where
  "core s = (users s, rounds s, predictions s)"

lemma core_simps [simp]:
  "core (outboxEvents_update f s) = core s" "core (effects_update g s) = core s"
  "core (soroban_update h s) = core s" "core (bets_update b s) = core s" "core (claims_update cl s) = core s"
  by (simp_all add: core_def)

lemma outbox_create_eq:
  "\<exists>r c. outbox_create now ty a b p s = (Inr r, s\<lparr>outboxEvents := c\<rparr>)"
  unfolding outbox_create_def outbox.create_eq by blast

lemma on_soroban_core: "core (snd (on_soroban m s)) = core s"
  by (simp add: on_soroban_def m_zoom_def split: prod.split)

subsection \<open>Concrete databases\<close>

text \<open>Tables seeded with given rows; generated ids start with \<open>@\<close>.\<close>

definition demo_gen :: "nat \<Rightarrow> string" where
  "demo_gen n = CHR ''@'' # replicate n CHR ''x''"

definition table_of :: "('r \<Rightarrow> string) \<Rightarrow> 'r list \<Rightarrow> 'r collection" where
  "table_of idf rs = seed rs (mk_collection idf demo_gen)"

lemma wf_t_put:
  "wf_t idf c \<Longrightarrow> idf r = k \<Longrightarrow> \<forall>n. generateId c n \<noteq> k \<Longrightarrow> wf_t idf (c_set k r c)"
  by (auto simp: wf_t_def intro: wf_c_set)

lemma wf_table_of:
  assumes "\<forall>r \<in> set rs. take 1 (idf r) \<noteq> ''@''"
  shows "wf_t idf (table_of idf rs)"
proof -
  have "inj demo_gen" by (auto simp: inj_def demo_gen_def replicate_eq_replicate)
  then have base: "wf_t idf (mk_collection idf demo_gen)"
    by (simp add: wf_t_def wf_collection_def mk_collection_def)
  have "wf_t idf (seed rs c)" if "wf_t idf c" "generateId c = demo_gen" for c
    using that assms
  proof (induction rs arbitrary: c)
    case (Cons r rs)
    have "take 1 (demo_gen n) = ''@''" for n by (simp add: demo_gen_def)
    with Cons.prems(3) have "demo_gen n \<noteq> idf r" for n by (metis list.set_intros(1))
    with Cons.prems have "wf_t idf (c_set (idf r) r c)" by (intro wf_t_put) auto
    with Cons show ?case by (auto simp: seed_def wf_t_def)
  qed (simp add: seed_def)
  with base show ?thesis by (simp add: table_of_def mk_collection_def)
qed

definition blank_app :: "'c \<Rightarrow> 'c app" where
  "blank_app c = \<lparr>users = table_of u_id [], rounds = table_of r_id [], predictions = table_of p_id [],
     bets = table_of b_id [], claims = table_of c_id [], outboxEvents = table_of o_id [],
     failedDispatches = table_of d_id [], tournaments = table_of t_id [],
     participants = table_of tp_id [], userStats = table_of s_id [], transactions = table_of tr_id [],
     authChallenges = table_of ac_id [],
     soroban = ready_soroban c, effects = []\<rparr>"

lemma wf_blank_app [simp]: "wf_db (blank_app c)"
  by (simp add: wf_db_def blank_app_def wf_table_of)

lemmas table_of_eval = table_of_def seed_def mk_collection_def c_set_def peek_def

end
