(* ===== verification/PriceRange.thy ===== *)
theory PriceRange
  imports Schema
begin

text \<open>
  Price ranges of LEGENDS rounds: the type guards of \<open>src/src/types/round.types.ts\<close>, the
  helpers of \<open>src/src/utils/price-range.util.ts\<close>, and the choice of the winning range in
  \<open>src/src/services/resolution.service.ts\<close> (\<open>resolveLegendsRound\<close>).

  A range is read from a JSON column, so the guards work on \<open>json\<close> values; the parsed values are
  records.  Numbers are JavaScript numbers: a sum is rounded by \<open>toNum E\<close>.
\<close>

record RoundPriceRange =
  rng_min :: rat
  rng_max :: rat
  rng_pool :: rat

record UserPriceRange =
  urng_min :: rat
  urng_max :: rat

fun num_field :: "string \<Rightarrow> json \<Rightarrow> rat option" where
  "num_field f (JObj fs) = (case map_of fs f of Some (JNum n) \<Rightarrow> Some n | _ \<Rightarrow> None)"
| "num_field f _ = None"

definition isRoundPriceRange :: "json \<Rightarrow> bool" where
  "isRoundPriceRange v \<longleftrightarrow>
     (case (num_field ''min'' v, num_field ''max'' v, num_field ''pool'' v) of
        (Some mn, Some mx, Some p) \<Rightarrow> mn < mx | _ \<Rightarrow> False)"

definition isUserPriceRange :: "json \<Rightarrow> bool" where
  "isUserPriceRange v \<longleftrightarrow>
     (case (num_field ''min'' v, num_field ''max'' v) of (Some mn, Some mx) \<Rightarrow> mn < mx | _ \<Rightarrow> False)"

fun isRoundPriceRangeArray :: "json \<Rightarrow> bool" where
  "isRoundPriceRangeArray (JArr vs) = list_all isRoundPriceRange vs"
| "isRoundPriceRangeArray _ = False"

definition the_num :: "string \<Rightarrow> json \<Rightarrow> rat" where
  "the_num f v = (case num_field f v of Some n \<Rightarrow> n | None \<Rightarrow> 0)"

definition read_round_range :: "json \<Rightarrow> RoundPriceRange" where
  "read_round_range v = \<lparr>rng_min = the_num ''min'' v, rng_max = the_num ''max'' v, rng_pool = the_num ''pool'' v\<rparr>"

definition parseRoundPriceRanges :: "json \<Rightarrow> js_error + RoundPriceRange list" where
  "parseRoundPriceRanges v =
     (case v of
        JArr vs \<Rightarrow>
          if isRoundPriceRangeArray v then Inr (map read_round_range vs)
          else Inl (JsError ''Invalid round price ranges: expected RoundPriceRange[]'')
      | _ \<Rightarrow> Inl (JsError ''Invalid round price ranges: expected RoundPriceRange[]''))"

definition validateUserPriceRange :: "json \<Rightarrow> UserPriceRange option" where
  "validateUserPriceRange v =
     (if isUserPriceRange v
      then Some \<lparr>urng_min = the_num ''min'' v, urng_max = the_num ''max'' v\<rparr> else None)"

definition parseUserPriceRange :: "json \<Rightarrow> js_error + UserPriceRange" where
  "parseUserPriceRange v =
     (case validateUserPriceRange v of
        Some r \<Rightarrow> Inr r
      | None \<Rightarrow> Inl (JsError ''Invalid user price range: expected UserPriceRange''))"

definition createUserPriceRange :: "rat \<Rightarrow> rat \<Rightarrow> js_error + UserPriceRange" where
  "createUserPriceRange mn mx =
     (if mn < mx then Inr \<lparr>urng_min = mn, urng_max = mx\<rparr> else Inl (JsError ''min must be less than max''))"

definition createRoundPriceRange :: "rat \<Rightarrow> rat \<Rightarrow> rat \<Rightarrow> js_error + RoundPriceRange" where
  "createRoundPriceRange mn mx pool =
     (if mn < mx then Inr \<lparr>rng_min = mn, rng_max = mx, rng_pool = pool\<rparr>
      else Inl (JsError ''min must be less than max''))"

text \<open>The stored form of parsed ranges.\<close>

definition range_json :: "RoundPriceRange \<Rightarrow> json" where
  "range_json r = JObj [(''min'', JNum (rng_min r)), (''max'', JNum (rng_max r)), (''pool'', JNum (rng_pool r))]"

definition serializeRoundPriceRanges :: "RoundPriceRange list \<Rightarrow> json" where
  "serializeRoundPriceRanges rs = JArr (map range_json rs)"

definition user_range_json :: "UserPriceRange \<Rightarrow> json" where
  "user_range_json r = JObj [(''min'', JNum (urng_min r)), (''max'', JNum (urng_max r))]"

definition findRangeByBounds :: "RoundPriceRange list \<Rightarrow> rat \<Rightarrow> rat \<Rightarrow> RoundPriceRange option" where
  "findRangeByBounds ranges mn mx = List.find (\<lambda>r. rng_min r = mn \<and> rng_max r = mx) ranges"

definition updateRangePool ::
  "arith \<Rightarrow> RoundPriceRange list \<Rightarrow> rat \<Rightarrow> rat \<Rightarrow> rat \<Rightarrow> RoundPriceRange list" where
  "updateRangePool E ranges mn mx amountToAdd =
     map (\<lambda>r. if rng_min r = mn \<and> rng_max r = mx
              then r\<lparr>rng_pool := toNum E (rng_pool r + amountToAdd)\<rparr> else r) ranges"

text \<open>\<open>resolveLegendsRound\<close>: ranges sorted by lower bound; the lower bound is inclusive, the upper
  bound exclusive except for the last range.\<close>

definition sortedRanges :: "RoundPriceRange list \<Rightarrow> RoundPriceRange list" where
  "sortedRanges rs = sort_key rng_min rs"

fun find_winning :: "rat \<Rightarrow> RoundPriceRange list \<Rightarrow> RoundPriceRange option" where
  "find_winning p [] = None"
| "find_winning p [r] = (if rng_min r \<le> p \<and> p \<le> rng_max r then Some r else None)"
| "find_winning p (r # rs) = (if rng_min r \<le> p \<and> p < rng_max r then Some r else find_winning p rs)"

definition winningRange :: "rat \<Rightarrow> RoundPriceRange list \<Rightarrow> RoundPriceRange option" where
  "winningRange finalPrice ranges = find_winning finalPrice (sortedRanges ranges)"

subsection \<open>Round trip and pool updates\<close>

lemma parse_serialize:
  assumes "\<forall>r \<in> set rs. rng_min r < rng_max r"
  shows "parseRoundPriceRanges (serializeRoundPriceRanges rs) = Inr rs"
proof -
  have "isRoundPriceRange (range_json r) \<and> read_round_range (range_json r) = r" if "rng_min r < rng_max r" for r
    using that by (simp add: isRoundPriceRange_def range_json_def read_round_range_def the_num_def)
  with assms show ?thesis
    by (simp add: parseRoundPriceRanges_def serializeRoundPriceRanges_def list_all_iff map_idI)
qed

lemma updateRangePool_bounds:
  "map (\<lambda>r. (rng_min r, rng_max r)) (updateRangePool E rs mn mx a) = map (\<lambda>r. (rng_min r, rng_max r)) rs"
  by (simp add: updateRangePool_def)

lemma find_winning_sound: "find_winning p rs = Some r \<Longrightarrow> r \<in> set rs \<and> rng_min r \<le> p \<and> p \<le> rng_max r"
  by (induction p rs rule: find_winning.induct) (auto split: if_splits)

text \<open>Consecutive ranges that share their end points tile an interval.\<close>

fun tiled :: "RoundPriceRange list \<Rightarrow> bool" where
  "tiled [] = True"
| "tiled [r] = (rng_min r < rng_max r)"
| "tiled (r # r' # rs) = (rng_min r < rng_max r \<and> rng_max r = rng_min r' \<and> tiled (r' # rs))"

lemma tiled_sorted: "tiled rs \<Longrightarrow> sorted (map rng_min rs) \<and> (rs \<noteq> [] \<longrightarrow> (\<forall>r \<in> set rs. rng_min (hd rs) \<le> rng_min r))"
proof (induction rs rule: tiled.induct)
  case (3 r r' rs)
  then have "rng_min r \<le> rng_min r'" "\<forall>x \<in> set (r' # rs). rng_min r' \<le> rng_min x" by auto
  with 3 show ?case by fastforce
qed auto

lemma find_winning_tiled:
  assumes "tiled rs" and "rs \<noteq> []"
  shows "find_winning p rs = None \<longleftrightarrow> p < rng_min (hd rs) \<or> rng_max (last rs) < p"
  using assms
proof (induction rs rule: tiled.induct)
  case (3 r r' rs)
  have "rng_min r' < rng_max (last (r' # rs))" if "tiled (r' # rs)" for r' rs
    using that by (induction rs arbitrary: r') fastforce+
  with 3 have "rng_max r < rng_max (last (r' # rs))" by auto
  with 3 show ?case by auto
qed auto

text \<open>For a LEGENDS round whose ranges tile an interval (in any stored order) every final price
  inside the interval has a winning range, that range contains the price and is the only one with
  its lower bound at or below the price and its upper bound above it, and a price has no winning
  range exactly when it lies outside the interval.\<close>

theorem winningRange_partition:
  assumes "tiled (sortedRanges rs)" and "rs \<noteq> []"
  shows "(winningRange p rs = None \<longleftrightarrow>
            p < rng_min (hd (sortedRanges rs)) \<or> rng_max (last (sortedRanges rs)) < p) \<and>
         (\<forall>r. winningRange p rs = Some r \<longrightarrow> r \<in> set rs \<and> rng_min r \<le> p \<and> p \<le> rng_max r) \<and>
         (\<forall>r \<in> set rs. rng_min r \<le> p \<and> p < rng_max r \<longrightarrow> winningRange p rs = Some r)"
proof (intro conjI ballI allI impI)
  have ne: "sortedRanges rs \<noteq> []" and set: "set (sortedRanges rs) = set rs"
    using assms(2) by (auto simp: sortedRanges_def dest: arg_cong [where f = set])
  show "winningRange p rs = None \<longleftrightarrow>
      p < rng_min (hd (sortedRanges rs)) \<or> rng_max (last (sortedRanges rs)) < p"
    unfolding winningRange_def by (rule find_winning_tiled [OF assms(1) ne])
  fix r
  show "r \<in> set rs" "rng_min r \<le> p" "p \<le> rng_max r" if "winningRange p rs = Some r"
    using find_winning_sound [OF that [unfolded winningRange_def]] set by auto
  have unique: "find_winning p xs = Some r"
    if "tiled xs" "r \<in> set xs" "rng_min r \<le> p" "p < rng_max r" for xs
    using that
  proof (induction xs rule: tiled.induct)
    case (3 x x' xs)
    show ?case
    proof (cases "r = x")
      case False
      with 3 tiled_sorted [of "x' # xs"] have "rng_max x \<le> p" by force
      with 3 False show ?thesis by auto
    qed (use 3 in auto)
  qed auto
  show "winningRange p rs = Some r" if "r \<in> set rs" "rng_min r \<le> p \<and> p < rng_max r"
    unfolding winningRange_def using unique [OF assms(1)] that set by auto
qed

definition demo_ranges :: "RoundPriceRange list" where
  "demo_ranges = [\<lparr>rng_min = 2, rng_max = 3, rng_pool = 10\<rparr>, \<lparr>rng_min = 1, rng_max = 2, rng_pool = 5\<rparr>]"

theorem winningRange_partition_witness:
  "winningRange 2 demo_ranges = Some \<lparr>rng_min = 2, rng_max = 3, rng_pool = 10\<rparr>"
  using winningRange_partition [of demo_ranges 2]
  by (simp add: demo_ranges_def sortedRanges_def)

end
