(* ===== verification/Predictions.thy ===== *)
theory Predictions
  imports PriceRange
begin

text \<open>
  Placing predictions (\<open>src/src/services/prediction.service.ts\<close>).

  \<open>submitPrediction\<close> runs in three phases: a reservation transaction that debits the user, files
  the prediction and credits the pool; the chain call; and either the finalisation or the
  compensation.  The service uses the database-backed client (the in-memory client has no
  prediction writes), so every transaction rolls back on a throw.

  The invariant \<open>books\<close> ties the pools of an UP/DOWN round to the predictions that back them;
  \<open>money\<close> is what users own: their balances and their open stakes.
\<close>

subsection \<open>Outbox events of a placed prediction\<close>

definition round_view_of :: "arith \<Rightarrow> round_row \<Rightarrow> round_view" where
  "round_view_of E r = \<lparr>v_id = r_id r, v_mode = r_mode r, v_status = r_status r, v_startTime = startTime r,
     v_endTime = endTime r, v_startPrice = serializeMoney E (Some (startPrice r)),
     v_endPrice = serializeNullableMoney E (endPrice r), v_poolUp = serializeMoney E (Some (poolUp r)),
     v_poolDown = serializeMoney E (Some (poolDown r)), v_priceRanges = priceRanges r,
     v_resolvedAt = r_resolvedAt r\<rparr>"

definition placed_events ::
  "arith \<Rightarrow> int \<Rightarrow> string \<Rightarrow> prediction_row \<Rightarrow> round_row \<Rightarrow> ('c app, js_error, unit) comp" where
  "placed_events E now roundId prediction updatedRound =
     m_then (outbox_create now OE_WEBSOCKET_EMIT (p_id prediction) ''prediction''
       (WebsocketPayload ''prediction:placed'' ''round'' None
         (PredictionPlaced roundId (p_id prediction) (serializeMoney E (Some (p_amount prediction)))
           (p_side prediction) (p_priceRange prediction))))
     (m_then (outbox_create now OE_WEBSOCKET_EMIT roundId ''round''
       (WebsocketPayload ''round_update'' (''round:'' @ roundId) None
         (RoundUpdate (round_view_of E updatedRound))))
     (m_then (outbox_create now OE_WEBSOCKET_EMIT roundId ''round''
       (WebsocketPayload ''round_update'' ''round'' None (RoundUpdate (round_view_of E updatedRound))))
     (m_return ())))"

subsection \<open>Phase 1: reservation\<close>

definition business :: "string \<Rightarrow> ErrorCode \<Rightarrow> js_error" where
  "business m c = App (BusinessRuleError m c)"

definition invalid :: "string \<Rightarrow> js_error" where
  "invalid m = App (ValidationError m)"

text \<open>The refusal for an existing prediction; \<open>None\<close> means that a compensated row is reused.\<close>

definition existing_refusal :: "prediction_row option \<Rightarrow> js_error option" where
  "existing_refusal existing =
     (case existing of
        None \<Rightarrow> None
      | Some p \<Rightarrow>
          if chainStatus p \<in> {PC_PENDING, PC_SUBMITTED} then
            Some (business ''Prediction is currently being processed or reconciled on chain. Please wait.''
              BUSINESS_RULE_VIOLATION)
          else if chainStatus p = PC_NEEDS_MANUAL_REVIEW then
            Some (business ''Previous prediction attempt requires manual review. Please contact support.''
              BUSINESS_RULE_VIOLATION)
          else if chainStatus p \<in> {PC_CONFIRMED, PC_NOT_REQUIRED} then
            Some (business ''User has already placed a prediction for this round'' DUPLICATE_PREDICTION)
          else None)"

definition input_refusal ::
  "round_row \<Rightarrow> PredictionSide option \<Rightarrow> UserPriceRange option \<Rightarrow> js_error option" where
  "input_refusal rnd side priceRange =
     (case r_mode rnd of
        UP_DOWN \<Rightarrow>
          if side = None then Some (invalid ''Side (UP/DOWN) is required for UP_DOWN mode'') else None
      | LEGENDS \<Rightarrow>
          (case priceRange of
             None \<Rightarrow> Some (invalid ''Price range is required for LEGENDS mode'')
           | Some pr \<Rightarrow>
               if validateUserPriceRange (user_range_json pr) = None then
                 Some (invalid ''Price range must include numeric min and max with min < max'')
               else (case parseRoundPriceRanges (priceRanges rnd) of
                   Inl e \<Rightarrow> Some e
                 | Inr ranges \<Rightarrow>
                     if findRangeByBounds ranges (urng_min pr) (urng_max pr) = None then
                       Some (invalid ''Invalid price range for this round'') else None)))"

definition debit :: "arith \<Rightarrow> string \<Rightarrow> rat \<Rightarrow> ('c app, js_error, user_row) comp" where
  "debit E userId amountNum =
     m_catch (t_update P2025 users users_update
         (\<lambda>u. u_id u = userId \<and> virtualBalance u \<ge> amountNum)
         (\<lambda>u. u\<lparr>virtualBalance := decrement E (virtualBalance u) amountNum\<rparr>))
       (\<lambda>err. if code_of err = Some ''P2025'' then m_throw (business ''Insufficient balance'' INSUFFICIENT_FUNDS)
              else m_throw err)"

definition stored_range :: "UserPriceRange option \<Rightarrow> json \<Rightarrow> json" where
  "stored_range priceRange dflt = (case priceRange of None \<Rightarrow> dflt | Some pr \<Rightarrow> user_range_json pr)"

definition file_prediction ::
  "arith \<Rightarrow> int \<Rightarrow> string \<Rightarrow> round_row \<Rightarrow> rat \<Rightarrow> PredictionSide option \<Rightarrow> UserPriceRange option \<Rightarrow>
   prediction_row option \<Rightarrow> ('c app, js_error, prediction_row) comp" where
  "file_prediction E now userId rnd amountNum side priceRange existing =
     (let target = (if r_mode rnd = LEGENDS then PC_NOT_REQUIRED else PC_PENDING)
      in case existing of
           Some old \<Rightarrow>
             t_update P2025 predictions predictions_update (\<lambda>p. p_id p = p_id old) (\<lambda>p. p\<lparr>
               p_amount := col E amountNum,
               p_side := (if side = None then p_side p else side),
               p_priceRange := stored_range priceRange (p_priceRange p),
               chainStatus := target, p_txHash := None, chainAttemptCount := 0,
               chainFailureReason := None, chainSubmittedAt := None, chainConfirmedAt := None,
               chainFailedAt := None, compensatedAt := None, p_won := None, p_payout := None\<rparr>)
         | None \<Rightarrow>
             t_create predictions predictions_update (\<lambda>i. \<lparr>p_id = i, p_userId = userId,
               p_roundId = r_id rnd, p_side = side, p_amount = col E amountNum,
               p_priceRange = stored_range priceRange JNull, p_won = None, p_payout = None,
               chainStatus = target, p_txHash = None, chainAttemptCount = 0,
               chainFailureReason = None, chainSubmittedAt = None, chainConfirmedAt = None,
               chainFailedAt = None, compensatedAt = None, p_createdAt = now\<rparr>))"

definition credit_pool ::
  "arith \<Rightarrow> string \<Rightarrow> PredictionSide option \<Rightarrow> rat \<Rightarrow> ('c app, js_error, round_row) comp" where
  "credit_pool E roundId side amountNum =
     t_update P2025 rounds rounds_update (\<lambda>r. r_id r = roundId) (\<lambda>r. r\<lparr>
       poolUp := (if side = Some UP then increment E (poolUp r) amountNum else poolUp r),
       poolDown := (if side = Some DOWN then increment E (poolDown r) amountNum else poolDown r)\<rparr>)"

definition credit_range ::
  "arith \<Rightarrow> int \<Rightarrow> round_row \<Rightarrow> UserPriceRange option \<Rightarrow> rat \<Rightarrow> prediction_row \<Rightarrow>
   ('c app, js_error, round_row) comp" where
  "credit_range E now rnd priceRange amount prediction =
     (case (parseRoundPriceRanges (priceRanges rnd), priceRange) of
        (Inl e, _) \<Rightarrow> m_throw e
      | (Inr ranges, None) \<Rightarrow> m_throw (JsError ''Cannot read properties of undefined'')
      | (Inr ranges, Some pr) \<Rightarrow>
          m_bind (t_update P2025 rounds rounds_update (\<lambda>r. r_id r = r_id rnd) (\<lambda>r. r\<lparr>priceRanges :=
              serializeRoundPriceRanges (updateRangePool E ranges (urng_min pr) (urng_max pr) amount)\<rparr>))
            (\<lambda>updated. m_then (placed_events E now (r_id rnd) prediction updated) (m_return updated)))"

definition reserve ::
  "arith \<Rightarrow> int \<Rightarrow> string \<Rightarrow> string \<Rightarrow> rat \<Rightarrow> PredictionSide option \<Rightarrow> UserPriceRange option \<Rightarrow>
   ('c app, js_error, prediction_row \<times> user_row \<times> round_row) comp" where
  "reserve E now userId roundId amount side priceRange =
     m_bind (t_find rounds (\<lambda>r. r_id r = roundId)) (\<lambda>found.
     case found of None \<Rightarrow> m_throw (App (NotFoundError ''Round not found'')) | Some rnd \<Rightarrow>
     if r_status rnd \<noteq> RS_ACTIVE then m_throw (business ''Round is not active'' ROUND_NOT_ACTIVE) else
     m_bind (t_find predictions (\<lambda>p. p_roundId p = roundId \<and> p_userId p = userId)) (\<lambda>existing.
     case existing_refusal existing of Some e \<Rightarrow> m_throw e | None \<Rightarrow>
     case input_refusal rnd side priceRange of Some e \<Rightarrow> m_throw e | None \<Rightarrow>
     (let amountNum = toNumber E (Some (toDecimal amount)) in
     m_bind (t_find users (\<lambda>u. u_id u = userId)) (\<lambda>existingUser.
     case existingUser of None \<Rightarrow> m_throw (App (NotFoundError ''User not found'')) | Some _ \<Rightarrow>
     m_bind (debit E userId amountNum) (\<lambda>user.
     m_bind (file_prediction E now userId rnd amountNum side priceRange existing) (\<lambda>prediction.
     m_bind (case r_mode rnd of
         UP_DOWN \<Rightarrow> credit_pool E roundId side amountNum
       | LEGENDS \<Rightarrow> credit_range E now rnd priceRange amount prediction) (\<lambda>updatedRound.
     m_return (prediction, user, updatedRound))))))))"

subsection \<open>Phase 3: finalisation and compensation\<close>

definition finalize_policy :: retry_policy where
  "finalize_policy = \<lparr>maxAttempts = 3, initialDelayMs = 50, maxDelayMs = 2000, backoffMultiplier = 2\<rparr>"

definition finalized :: "int \<Rightarrow> string option \<Rightarrow> prediction_row \<Rightarrow> prediction_row" where
  "finalized now txHash p = p\<lparr>chainStatus := PC_CONFIRMED,
     p_txHash := (if txHash = None then p_txHash p else txHash), chainConfirmedAt := Some now,
     chainAttemptCount := 1\<rparr>"

definition finalize_body ::
  "arith \<Rightarrow> int \<Rightarrow> string \<Rightarrow> string \<Rightarrow> prediction_row \<Rightarrow> round_row \<Rightarrow> string option \<Rightarrow>
   ('c app, js_error, unit) comp" where
  "finalize_body E now predictionId roundId prediction updatedRound txHash =
     m_bind (t_find predictions (\<lambda>p. p_id p = predictionId)) (\<lambda>current.
       case current of None \<Rightarrow> m_return () | Some p \<Rightarrow>
         if chainStatus p \<noteq> PC_PENDING then m_return ()
         else m_then (t_update P2025 predictions predictions_update (\<lambda>p. p_id p = predictionId)
               (finalized now txHash))
             (placed_events E now roundId prediction updatedRound))"

definition finalizeChainSuccess ::
  "arith \<Rightarrow> int \<Rightarrow> string \<Rightarrow> string \<Rightarrow> prediction_row \<Rightarrow> round_row \<Rightarrow> string option \<Rightarrow>
   ('c app, js_error, unit) comp" where
  "finalizeChainSuccess E now predictionId roundId prediction updatedRound txHash =
     retryOrThrow finalize_policy isRetryableError
       (tx Postgres (finalize_body E now predictionId roundId prediction updatedRound txHash))"

definition missing_relation :: js_error where
  "missing_relation = JsError ''Inconsistent query result: a required relation is missing''"

definition compensated :: "int \<Rightarrow> prediction_row \<Rightarrow> prediction_row" where
  "compensated now p = p\<lparr>compensatedAt := Some now, chainStatus := PC_FAILED,
     chainFailureReason := Some ''Chain transaction failed''\<rparr>"

definition unpool :: "arith \<Rightarrow> prediction_row \<Rightarrow> round_row \<Rightarrow> round_row" where
  "unpool E pred r = r\<lparr>
     poolUp := (if p_side pred = Some UP then decrement E (poolUp r) (p_amount pred) else poolUp r),
     poolDown := (if p_side pred = Some DOWN then decrement E (poolDown r) (p_amount pred) else poolDown r)\<rparr>"

definition compensate_body :: "arith \<Rightarrow> int \<Rightarrow> string \<Rightarrow> ('c app, js_error, unit) comp" where
  "compensate_body E now predictionId =
     m_bind (t_find predictions (\<lambda>p. p_id p = predictionId)) (\<lambda>found.
       case found of None \<Rightarrow> m_return () | Some pred \<Rightarrow>
       m_bind (t_find rounds (\<lambda>r. r_id r = p_roundId pred)) (\<lambda>round_found.
       case round_found of None \<Rightarrow> m_throw missing_relation | Some rnd \<Rightarrow>
       if chainStatus pred \<notin> {PC_PENDING, PC_FAILED, PC_SUBMITTED} \<or> compensatedAt pred \<noteq> None
       then m_return ()
       else
         m_then (t_update P2025 users users_update (\<lambda>u. u_id u = p_userId pred) (\<lambda>u.
             u\<lparr>virtualBalance := increment E (virtualBalance u) (p_amount pred)\<rparr>))
         (m_then (if r_mode rnd = UP_DOWN then
             m_then (t_update P2025 rounds rounds_update (\<lambda>r. r_id r = p_roundId pred) (unpool E pred))
               (m_return ())
           else m_return ())
         (m_then (t_update P2025 predictions predictions_update (\<lambda>p. p_id p = predictionId)
             (compensated now)) (m_return ())))))"

definition compensatePrediction :: "arith \<Rightarrow> int \<Rightarrow> string \<Rightarrow> ('c app, js_error, unit) comp" where
  "compensatePrediction E now predictionId = tx Postgres (compensate_body E now predictionId)"

definition is_timeout :: "js_error \<Rightarrow> bool" where
  "is_timeout e \<longleftrightarrow> e \<noteq> NonError \<and> str_includes (toLowerCase (message_of e)) ''timeout''"

definition handleChainFailure :: "arith \<Rightarrow> int \<Rightarrow> string \<Rightarrow> js_error \<Rightarrow> ('c app, js_error, unit) comp" where
  "handleChainFailure E now predictionId error =
     (if is_timeout error then
        m_then (t_update P2025 predictions predictions_update (\<lambda>p. p_id p = predictionId)
          (\<lambda>p. p\<lparr>chainStatus := PC_SUBMITTED\<rparr>)) (m_return ())
      else compensatePrediction E now predictionId)"

subsection \<open>Submission\<close>

definition chain_phase ::
  "arith \<Rightarrow> 'c xelma_client \<Rightarrow> int \<Rightarrow> string \<Rightarrow> rat \<Rightarrow> PredictionSide option \<Rightarrow>
   prediction_row \<Rightarrow> user_row \<Rightarrow> round_row \<Rightarrow> ('c app, js_error, unit) comp" where
  "chain_phase E cl now roundId amount side prediction user updatedRound =
     m_catch
       (m_bind (on_soroban (placeBet E cl now (walletAddress user) amount
           (if side = Some UP then Up else Down))) (\<lambda>txHash.
         finalizeChainSuccess E now (p_id prediction) roundId prediction updatedRound txHash))
       (\<lambda>chainError. m_then (handleChainFailure E now (p_id prediction) chainError) (m_throw chainError))"

definition submitPredictionInternal ::
  "arith \<Rightarrow> 'c xelma_client \<Rightarrow> int \<Rightarrow> string \<Rightarrow> string \<Rightarrow> rat \<Rightarrow> PredictionSide option \<Rightarrow>
   UserPriceRange option \<Rightarrow> ('c app, js_error, prediction_row) comp" where
  "submitPredictionInternal E cl now userId roundId amount side priceRange =
     m_bind (tx Postgres (reserve E now userId roundId amount side priceRange))
       (\<lambda>(prediction, user, updatedRound).
     m_then (if r_mode updatedRound = UP_DOWN
         then chain_phase E cl now roundId amount side prediction user updatedRound else m_return ())
     (m_then (emit (InvalidateNamespace ''leaderboard''))
     (m_then (emit (Metric ''predictions_placed_total''))
       (if r_mode updatedRound = UP_DOWN then
          m_bind (t_find predictions (\<lambda>p. p_id p = p_id prediction)) (\<lambda>found.
            case found of None \<Rightarrow> m_throw P2025 | Some p \<Rightarrow> m_return p)
        else m_return prediction))))"

definition submitPrediction ::
  "arith \<Rightarrow> 'c xelma_client \<Rightarrow> int \<Rightarrow> string \<Rightarrow> string \<Rightarrow> rat \<Rightarrow> PredictionSide option \<Rightarrow>
   UserPriceRange option \<Rightarrow> ('c app, js_error, prediction_row) comp" where
  "submitPrediction E cl now userId roundId amount side priceRange =
     submitPredictionInternal E cl now userId roundId amount side priceRange"

definition confirmPredictionFromReconciliation ::
  "arith \<Rightarrow> int \<Rightarrow> string \<Rightarrow> string option \<Rightarrow> ('c app, js_error, unit) comp" where
  "confirmPredictionFromReconciliation E now predictionId txHash =
     m_bind (t_find predictions (\<lambda>p. p_id p = predictionId)) (\<lambda>found.
       case found of None \<Rightarrow> m_return () | Some pred \<Rightarrow>
       m_bind (t_find rounds (\<lambda>r. r_id r = p_roundId pred)) (\<lambda>round_found.
       case round_found of None \<Rightarrow> m_throw missing_relation | Some rnd \<Rightarrow>
       if chainStatus pred = PC_CONFIRMED then m_return ()
       else finalizeChainSuccess E now predictionId (p_roundId pred) pred rnd
         (if txHash \<noteq> None \<and> txHash \<noteq> Some [] then txHash
          else if p_txHash pred \<noteq> None \<and> p_txHash pred \<noteq> Some [] then p_txHash pred
          else Some ''reconciled-no-txhash'')))"

definition flagForManualReview :: "string \<Rightarrow> string \<Rightarrow> ('c app, js_error, unit) comp" where
  "flagForManualReview predictionId reason =
     m_then (t_update P2025 predictions predictions_update (\<lambda>p. p_id p = predictionId) (\<lambda>p. p\<lparr>
       chainStatus := PC_NEEDS_MANUAL_REVIEW, chainFailureReason := Some reason\<rparr>)) (m_return ())"

record batch_item =
  bi_roundId :: string
  bi_amount :: rat
  bi_side :: "PredictionSide option"
  bi_priceRange :: "UserPriceRange option"

record batch_entry =
  be_id :: string
  be_roundId :: string
  be_amount :: rat
  be_side :: "PredictionSide option"
  be_priceRange :: json
  be_createdAt :: int

record batch_result =
  br_index :: nat
  br_success :: bool
  br_prediction :: "batch_entry option"
  br_error :: "string option"

definition batch_entry_of :: "arith \<Rightarrow> prediction_row \<Rightarrow> batch_entry" where
  "batch_entry_of E p = \<lparr>be_id = p_id p, be_roundId = p_roundId p,
     be_amount = serializeMoney E (Some (p_amount p)), be_side = p_side p,
     be_priceRange = p_priceRange p, be_createdAt = p_createdAt p\<rparr>"

definition submit_item ::
  "arith \<Rightarrow> 'c xelma_client \<Rightarrow> int \<Rightarrow> string \<Rightarrow> batch_result list \<Rightarrow> batch_item \<Rightarrow>
   ('c app, js_error, batch_result list) comp" where
  "submit_item E cl now userId results pred =
     m_catch (m_bind (submitPrediction E cl now userId (bi_roundId pred) (bi_amount pred) (bi_side pred)
         (bi_priceRange pred)) (\<lambda>p. m_return (results @ [\<lparr>br_index = length results,
           br_success = True, br_prediction = Some (batch_entry_of E p), br_error = None\<rparr>])))
       (\<lambda>error. m_return (results @ [\<lparr>br_index = length results, br_success = False,
         br_prediction = None,
         br_error = Some (if error = NonError then ''Unknown error'' else message_of error)\<rparr>]))"

definition submitBatchPredictions ::
  "arith \<Rightarrow> 'c xelma_client \<Rightarrow> int \<Rightarrow> string \<Rightarrow> batch_item list \<Rightarrow>
   ('c app, js_error, bool \<times> batch_result list) comp" where
  "submitBatchPredictions E cl now userId preds =
     m_bind (m_foldl (submit_item E cl now userId) [] preds) (\<lambda>results.
       m_return (0 < length (filter br_success results), results))"

text \<open>The listings join each prediction with its round, respectively with its user.\<close>

definition getUserPredictions ::
  "string \<Rightarrow> ('c app, js_error, (prediction_row \<times> round_row option) list) comp" where
  "getUserPredictions userId =
     m_gets (\<lambda>s. map (\<lambda>p. (p, peek (p_roundId p) (rounds s)))
       (c_findMany (\<lambda>p. p_userId p = userId) (Some (p_createdAt, True)) 0 None (predictions s)))"

definition getRoundPredictions ::
  "string \<Rightarrow> ('c app, js_error, (prediction_row \<times> (string \<times> string) option) list) comp" where
  "getRoundPredictions roundId =
     m_gets (\<lambda>s. map (\<lambda>p. (p, map_option (\<lambda>u. (u_id u, walletAddress u)) (peek (p_userId p) (users s))))
       (c_findMany (\<lambda>p. p_roundId p = roundId) None 0 None (predictions s)))"

subsection \<open>The steps of a reservation\<close>

lemma placed_events_eq: "\<exists>c. placed_events E now rid p r s = (Inr (), s\<lparr>outboxEvents := c\<rparr>)"
  by (simp add: placed_events_def comp_defs outbox_create_def outbox.create_eq) blast

lemma debit_eq:
  assumes "wf_db s"
  shows "debit E uid x s =
    (case peek uid (users s) of
       Some u \<Rightarrow>
         if x \<le> virtualBalance u then
           (Inr (u\<lparr>virtualBalance := decrement E (virtualBalance u) x\<rparr>),
            s\<lparr>users := c_set uid (u\<lparr>virtualBalance := decrement E (virtualBalance u) x\<rparr>) (users s)\<rparr>)
         else (Inl (business ''Insufficient balance'' INSUFFICIENT_FUNDS), s)
     | None \<Rightarrow> (Inl (business ''Insufficient balance'' INSUFFICIENT_FUNDS), s))"
  by (simp add: debit_def m_catch_def users.update_id_conj assms P2025_def m_throw_def split: option.split)

text \<open>The table \<open>ps'\<close> is \<open>ps\<close> with row \<open>p\<close> filed in place of \<open>old\<close>.\<close>

definition filed ::
  "prediction_row collection \<Rightarrow> prediction_row option \<Rightarrow> prediction_row \<Rightarrow> prediction_row collection \<Rightarrow> bool" where
  "filed ps old p ps' \<longleftrightarrow>
     peek (p_id p) ps = old \<and> (\<forall>k. peek k ps' = (if k = p_id p then Some p else peek k ps)) \<and>
     (\<forall>f :: prediction_row \<Rightarrow> rat.
        c_sum f ps' = c_sum f ps + f p - (case old of None \<Rightarrow> 0 | Some q \<Rightarrow> f q))"

lemma filed_set: "peek (p_id p) ps = old \<Longrightarrow> filed ps old p (c_set (p_id p) p ps)"
  by (simp add: filed_def c_sum_set)

lemma file_prediction_cases:
  assumes wf: "wf_db s" and ex: "\<And>old. existing = Some old \<Longrightarrow> peek (p_id old) (predictions s) = Some old"
    and old: "\<And>old. existing = Some old \<Longrightarrow> p_roundId old = r_id rnd \<and> p_userId old = uid"
  obtains p ps where
    "file_prediction E now uid rnd x side pr existing s = (Inr p, s\<lparr>predictions := ps\<rparr>)"
    "wf_db (s\<lparr>predictions := ps\<rparr>)" "filed (predictions s) existing p ps"
    "p_amount p = col E x" "compensatedAt p = None" "p_payout p = None" "p_roundId p = r_id rnd"
    "p_userId p = uid" "side \<noteq> None \<longrightarrow> p_side p = side"
    "chainStatus p = (if r_mode rnd = LEGENDS then PC_NOT_REQUIRED else PC_PENDING)"
proof (cases existing)
  case None
  have fresh: "peek (generateId (predictions s) (idCalls (predictions s))) (predictions s) = None"
    using wf predictions.tbl_wf wf_t_fresh by blast
  obtain mk where mk: "file_prediction E now uid rnd x side pr existing s =
      t_create predictions predictions_update mk s" "\<And>i. p_id (mk i) = i"
      "\<And>i. p_amount (mk i) = col E x" "\<And>i. compensatedAt (mk i) = None" "\<And>i. p_payout (mk i) = None"
      "\<And>i. p_roundId (mk i) = r_id rnd" "\<And>i. p_userId (mk i) = uid" "\<And>i. p_side (mk i) = side"
      "\<And>i. chainStatus (mk i) = (if r_mode rnd = LEGENDS then PC_NOT_REQUIRED else PC_PENDING)"
    by (rule that, unfold None file_prediction_def Let_def option.case, rule refl) simp_all
  have eq: "file_prediction E now uid rnd x side pr existing s =
      (Inr (mk (generateId (predictions s) (idCalls (predictions s)))),
       s\<lparr>predictions := snd (c_create mk (predictions s))\<rparr>)"
    by (simp add: mk(1) predictions.create_eq)
  show thesis
    by (rule that [OF eq predictions.create_wf [OF wf mk(2)]])
      (use None fresh in \<open>simp_all add: mk(2-) filed_def peek_c_create c_sum_create [OF predictions.tbl_wf [OF wf]]\<close>)
next
  case (Some q)
  have p: "peek (p_id q) (predictions s) = Some q" by (rule ex [OF Some])
  obtain f where f: "file_prediction E now uid rnd x side pr existing s =
      t_update P2025 predictions predictions_update (\<lambda>p. p_id p = p_id q) f s" "\<And>p. p_id (f p) = p_id p"
      "\<And>p. p_amount (f p) = col E x" "\<And>p. compensatedAt (f p) = None" "\<And>p. p_payout (f p) = None"
      "\<And>p. p_roundId (f p) = p_roundId p" "\<And>p. p_userId (f p) = p_userId p"
      "\<And>p. side \<noteq> None \<longrightarrow> p_side (f p) = side"
      "\<And>p. chainStatus (f p) = (if r_mode rnd = LEGENDS then PC_NOT_REQUIRED else PC_PENDING)"
    by (rule that, unfold Some file_prediction_def Let_def option.case, rule refl) simp_all
  have eq: "file_prediction E now uid rnd x side pr existing s =
      (Inr (f q), s\<lparr>predictions := c_set (p_id q) (f q) (predictions s)\<rparr>)"
    by (simp add: f(1) predictions.update_id [OF wf f(2)] p)
  show thesis
    by (rule that [OF eq predictions.set_wf [OF wf p]])
      (use old [OF Some] Some p filed_set [of "f q" "predictions s" "Some q"] in \<open>simp_all add: f(2-)\<close>)
qed

lemma credit_pool_eq:
  assumes "wf_db s" and "peek rid (rounds s) = Some rnd"
  shows "credit_pool E rid side x s =
    (let r' = rnd\<lparr>poolUp := (if side = Some UP then increment E (poolUp rnd) x else poolUp rnd),
        poolDown := (if side = Some DOWN then increment E (poolDown rnd) x else poolDown rnd)\<rparr>
     in (Inr r', s\<lparr>rounds := c_set rid r' (rounds s)\<rparr>))"
  using assms by (simp add: credit_pool_def rounds.update_id Let_def)

lemma credit_range_cases:
  assumes "wf_db s" and "peek (r_id rnd) (rounds s) = Some rnd"
    and "credit_range E now rnd pr amount p s = (Inr r', s')"
  obtains j c where "r' = rnd\<lparr>priceRanges := j\<rparr>"
    "s' = s\<lparr>rounds := c_set (r_id rnd) r' (rounds s), outboxEvents := c\<rparr>"
proof -
  from assms(3) obtain ranges q where "parseRoundPriceRanges (priceRanges rnd) = Inr ranges" "pr = Some q"
    unfolding credit_range_def by (auto split: sum.splits option.splits)
  then have j: "credit_range E now rnd pr amount p s =
      m_bind (t_update P2025 rounds rounds_update (\<lambda>r. r_id r = r_id rnd) (\<lambda>r. r\<lparr>priceRanges :=
          serializeRoundPriceRanges (updateRangePool E ranges (urng_min q) (urng_max q) amount)\<rparr>))
        (\<lambda>updated. m_then (placed_events E now (r_id rnd) p updated) (m_return updated)) s"
    by (simp add: credit_range_def)
  define j where "j = serializeRoundPriceRanges (updateRangePool E ranges (urng_min q) (urng_max q) amount)"
  let ?r = "rnd\<lparr>priceRanges := j\<rparr>"
  obtain c where "placed_events E now (r_id rnd) p ?r (s\<lparr>rounds := c_set (r_id rnd) ?r (rounds s)\<rparr>) =
      (Inr (), s\<lparr>rounds := c_set (r_id rnd) ?r (rounds s), outboxEvents := c\<rparr>)"
    using placed_events_eq by blast
  with j [folded j_def] assms have "r' = ?r \<and> s' = s\<lparr>rounds := c_set (r_id rnd) ?r (rounds s), outboxEvents := c\<rparr>"
    by (auto simp: m_bind_def rounds.update_id m_then_def m_return_def)
  with that show thesis by blast
qed

lemma reserve_cases:
  assumes wf: "wf_db s" and res: "reserve E now uid rid amount side pr s = (Inr (p, u', r'), s')"
  obtains rnd u old where
    "peek rid (rounds s) = Some rnd" "r_status rnd = RS_ACTIVE" "peek uid (users s) = Some u"
    "toNum E amount \<le> virtualBalance u"
    "u' = u\<lparr>virtualBalance := decrement E (virtualBalance u) (toNum E amount)\<rparr>"
    "users s' = c_set uid u' (users s)"
    "filed (predictions s) old p (predictions s')" "\<And>q. old = Some q \<Longrightarrow> chainStatus q = PC_FAILED \<and> p_roundId q = rid"
    "p_amount p = col E (toNum E amount)" "compensatedAt p = None" "p_payout p = None"
    "p_roundId p = rid" "p_userId p = uid" "p_side p = side \<or> side = None"
    "chainStatus p = (if r_mode rnd = LEGENDS then PC_NOT_REQUIRED else PC_PENDING)"
    "rounds s' = c_set rid r' (rounds s)"
    "r_mode rnd = UP_DOWN \<Longrightarrow> side \<noteq> None \<and> r' = rnd\<lparr>
       poolUp := (if side = Some UP then increment E (poolUp rnd) (toNum E amount) else poolUp rnd),
       poolDown := (if side = Some DOWN then increment E (poolDown rnd) (toNum E amount) else poolDown rnd)\<rparr>"
    "r_mode rnd = LEGENDS \<Longrightarrow> \<exists>j. r' = rnd\<lparr>priceRanges := j\<rparr>"
proof -
  let ?x = "toNum E amount"
  let ?old = "c_findUnique (\<lambda>p. p_roundId p = rid \<and> p_userId p = uid) (predictions s)"
  from res obtain rnd u s1 s2 where
    r: "peek rid (rounds s) = Some rnd" "r_status rnd = RS_ACTIVE" "existing_refusal ?old = None"
       "input_refusal rnd side pr = None" "peek uid (users s) = Some u"
    and d: "debit E uid ?x s = (Inr u', s1)"
    and f: "file_prediction E now uid rnd ?x side pr ?old s1 = (Inr p, s2)"
    and c: "(case r_mode rnd of UP_DOWN \<Rightarrow> credit_pool E rid side ?x
       | LEGENDS \<Rightarrow> credit_range E now rnd pr amount p) s2 = (Inr r', s')"
    unfolding reserve_def
    by (auto simp: find_simps wf toNumber_def toDecimal_def Let_def
        elim!: m_bindE split: option.splits if_splits)
  let ?u' = "u\<lparr>virtualBalance := decrement E (virtualBalance u) ?x\<rparr>"
  have rid: "r_id rnd = rid" and uid: "u_id u = uid"
    using rounds.peek_id [OF wf r(1)] users.peek_id [OF wf r(5)] by auto
  from d r(5) have u: "?x \<le> virtualBalance u" "u' = ?u'" "s1 = s\<lparr>users := c_set uid ?u' (users s)\<rparr>"
    by (auto simp: debit_eq wf split: if_splits)
  then have wf1: "wf_db s1" using users.set_wf [OF wf r(5)] uid by simp
  have old: "peek (p_id q) (predictions s1) = Some q" "p_roundId q = r_id rnd \<and> p_userId q = uid"
    "chainStatus q = PC_FAILED \<and> p_roundId q = rid" if "?old = Some q" for q
    using findUnique_SomeD [OF _ that] predictions.tbl_wf [OF wf] r(3) rid u(3) that
    by (auto simp: wf_t_def existing_refusal_def split: if_splits) (metis PredictionChainStatus.exhaust)
  obtain ps where ps: "s2 = s1\<lparr>predictions := ps\<rparr>" "wf_db s2" "filed (predictions s) ?old p ps"
     "p_amount p = col E ?x" "compensatedAt p = None" "p_payout p = None" "p_roundId p = rid"
     "p_userId p = uid" "side \<noteq> None \<longrightarrow> p_side p = side"
     "chainStatus p = (if r_mode rnd = LEGENDS then PC_NOT_REQUIRED else PC_PENDING)"
    by (rule file_prediction_cases [OF wf1 old(1,2), where E = E and now = now and x = ?x and side = side
          and pr = pr]) (use f u(3) rid in auto)
  have r2: "peek rid (rounds s2) = Some rnd" "rounds s2 = rounds s" "users s2 = users s1"
    "predictions s2 = ps" using r(1) by (auto simp: u(3) ps(1))
  show thesis
  proof (cases "r_mode rnd")
    case UP_DOWN
    with c r2(1) have s': "s' = s2\<lparr>rounds := c_set rid r' (rounds s2)\<rparr>" "r' = rnd\<lparr>
       poolUp := (if side = Some UP then increment E (poolUp rnd) ?x else poolUp rnd),
       poolDown := (if side = Some DOWN then increment E (poolDown rnd) ?x else poolDown rnd)\<rparr>"
      by (auto simp: credit_pool_eq [OF ps(2)] Let_def)
    have "side \<noteq> None" using r(4) UP_DOWN by (auto simp: input_refusal_def split: if_splits)
    have eqs: "users s' = c_set uid u' (users s)" "filed (predictions s) ?old p (predictions s')"
        "rounds s' = c_set rid r' (rounds s)" by (simp_all add: s'(1) r2 ps(3) u(2,3))
    show thesis
      by (rule that [OF r(1,2,5) u(1,2) eqs(1,2) old(3) ps(4-8) _ ps(10) eqs(3)])
        (use UP_DOWN \<open>side \<noteq> None\<close> ps(9) s'(2) in simp_all)
  next
    case LEGENDS
    obtain j oc where s': "r' = rnd\<lparr>priceRanges := j\<rparr>" "s' = s2\<lparr>rounds := c_set rid r' (rounds s2), outboxEvents := oc\<rparr>"
      by (rule credit_range_cases [OF ps(2), of rnd E now pr amount p r' s'])
        (use c LEGENDS r2(1) rid in auto)
    have eqs: "users s' = c_set uid u' (users s)" "filed (predictions s) ?old p (predictions s')"
        "rounds s' = c_set rid r' (rounds s)" by (simp_all add: s'(2) r2 ps(3) u(2,3))
    show thesis
      by (rule that [OF r(1,2,5) u(1,2) eqs(1,2) old(3) ps(4-8) _ ps(10) eqs(3)])
        (use LEGENDS ps(9) s'(1) in auto)
  qed
qed

subsection \<open>The books\<close>

definition stake_on :: "string \<Rightarrow> PredictionSide \<Rightarrow> prediction_row \<Rightarrow> rat" where
  "stake_on k sd p = (if p_roundId p = k \<and> p_side p = Some sd \<and> compensatedAt p = None then p_amount p else 0)"

definition open_stake :: "prediction_row \<Rightarrow> rat" where
  "open_stake p = (if compensatedAt p = None \<and> p_payout p = None then p_amount p else 0)"

text \<open>What the users own: balances plus stakes that are neither settled nor compensated.\<close>

definition money :: "'c app \<Rightarrow> rat" where
  "money s = c_sum virtualBalance (users s) + c_sum open_stake (predictions s)"

definition prediction_ok :: "prediction_row \<Rightarrow> bool" where
  "prediction_ok p \<longleftrightarrow> on_grid (p_amount p) \<and> 0 \<le> p_amount p \<and>
     (chainStatus p = PC_FAILED \<longrightarrow> compensatedAt p \<noteq> None) \<and>
     (chainStatus p \<in> {PC_PENDING, PC_SUBMITTED, PC_FAILED} \<longrightarrow> p_payout p = None) \<and>
     (chainStatus p \<in> {PC_PENDING, PC_SUBMITTED, PC_CONFIRMED, PC_NOT_REQUIRED} \<longrightarrow> compensatedAt p = None)"

definition pools_ok :: "prediction_row collection \<Rightarrow> round_row \<Rightarrow> bool" where
  "pools_ok ps r \<longleftrightarrow> (r_mode r = UP_DOWN \<longrightarrow>
     poolUp r = c_sum (stake_on (r_id r) UP) ps \<and> poolDown r = c_sum (stake_on (r_id r) DOWN) ps)"

text \<open>Every prediction belongs to a user: the foreign key of the \<open>Prediction\<close> table.\<close>

definition owned :: "user_row collection \<Rightarrow> prediction_row collection \<Rightarrow> bool" where
  "owned us ps \<longleftrightarrow> (\<forall>k p. peek k ps = Some p \<longrightarrow> peek (p_userId p) us \<noteq> None)"

lemma ownedD: "owned us ps \<Longrightarrow> peek k ps = Some p \<Longrightarrow> peek (p_userId p) us \<noteq> None"
  unfolding owned_def by blast

lemma owned_filed:
  assumes "owned us ps" and "filed ps old p ps'"
  shows "owned (c_set (p_userId p) u us) ps'"
  using assms by (auto simp: owned_def filed_def)

text \<open>Money columns have eight decimals, no balance is negative, every prediction is in order and has
  its user, and the two pools of an UP/DOWN round are the sums of the uncompensated stakes on its
  sides.\<close>

definition books :: "'c app \<Rightarrow> bool" where
  "books s \<longleftrightarrow> wf_db s \<and>
     (\<forall>k u. peek k (users s) = Some u \<longrightarrow> on_grid (virtualBalance u) \<and> 0 \<le> virtualBalance u) \<and>
     (\<forall>k p. peek k (predictions s) = Some p \<longrightarrow> prediction_ok p) \<and> owned (users s) (predictions s) \<and>
     (\<forall>k r. peek k (rounds s) = Some r \<longrightarrow> pools_ok (predictions s) r)"

lemma books_wf: "books s \<Longrightarrow> wf_db s"
  by (simp add: books_def)

lemma books_user: "books s \<Longrightarrow> peek k (users s) = Some u \<Longrightarrow> on_grid (virtualBalance u)"
  by (auto simp: books_def)

lemma books_balance: "books s \<Longrightarrow> peek k (users s) = Some u \<Longrightarrow> 0 \<le> virtualBalance u"
  by (auto simp: books_def)

lemma books_prediction: "books s \<Longrightarrow> peek k (predictions s) = Some p \<Longrightarrow> prediction_ok p"
  by (auto simp: books_def)

lemma books_owned: "books s \<Longrightarrow> owned (users s) (predictions s)"
  by (simp add: books_def)

lemma books_round: "books s \<Longrightarrow> peek k (rounds s) = Some r \<Longrightarrow> pools_ok (predictions s) r"
  by (auto simp: books_def)

lemma staked_grid_nonneg:
  assumes "books s"
  shows "on_grid (c_sum (stake_on k sd) (predictions s)) \<and> 0 \<le> c_sum (stake_on k sd) (predictions s)"
  by (rule c_sum_closed [OF predictions.tbl_wf [OF books_wf [OF assms]]])
    (use books_prediction [OF assms] in \<open>auto simp: stake_on_def prediction_ok_def\<close>)

lemma pools_grid:
  assumes "books s" and "peek k (rounds s) = Some r" and "r_mode r = UP_DOWN"
  shows "on_grid (poolUp r)" "on_grid (poolDown r)" "0 \<le> poolUp r" "0 \<le> poolDown r"
  using books_round [OF assms(1,2)] staked_grid_nonneg [OF assms(1)] assms(3) by (auto simp: pools_ok_def)

text \<open>Books after the tables changed: one user row, one prediction row, one round row.\<close>

lemma books_intro:
  assumes "books s" and "wf_db s'"
    and "users s' = c_set uid u' (users s)" and "on_grid (virtualBalance u') \<and> 0 \<le> virtualBalance u'"
    and "filed (predictions s) old p (predictions s')" and "prediction_ok p"
    and "rounds s' = c_set rid r' (rounds s)" and "pools_ok (predictions s') r'" and "r_id r' = rid"
    and "p_roundId p = rid" and "\<And>q. old = Some q \<Longrightarrow> p_roundId q = rid" and "p_userId p = uid"
  shows "books s'"
proof -
  have "owned (users s') (predictions s')"
    using owned_filed [OF books_owned [OF assms(1)] assms(5)] by (simp add: assms(3) assms(12) [symmetric])
  moreover
  have other: "c_sum (stake_on k sd) (predictions s') = c_sum (stake_on k sd) (predictions s)" if "k \<noteq> rid" for k sd
    using assms(5,10,11) that by (auto simp: filed_def stake_on_def split: option.splits)
  have "pools_ok (predictions s') r" if "peek k (rounds s) = Some r" "k \<noteq> rid" for k r
    using books_round [OF assms(1) that(1)] rounds.peek_id [OF books_wf [OF assms(1)] that(1)] that(2)
    by (simp add: pools_ok_def other)
  ultimately show ?thesis using assms by (auto simp: books_def filed_def)
qed

lemma books_core: "core s' = core s \<Longrightarrow> wf_db s' \<Longrightarrow> books s \<Longrightarrow> books s'"
  by (auto simp: books_def core_def)

lemma money_core: "core s' = core s \<Longrightarrow> money s' = money s"
  by (auto simp: money_def core_def)

definition ledger :: "rat \<Rightarrow> 'c app \<Rightarrow> bool" where
  "ledger M s \<longleftrightarrow> books s \<and> money s = M"

lemma ledger_core: "core s' = core s \<Longrightarrow> wf_db s' \<Longrightarrow> ledger M s \<Longrightarrow> ledger M s'"
  by (auto simp: ledger_def dest: books_core money_core)

lemma ledger_rollback [simp]: "ledger M (rollback_db s s') = ledger M s"
  by (simp add: ledger_def books_def money_def rollback_db_def wf_db_def)

text \<open>A transaction keeps the ledger if its committing runs do.\<close>

lemma ledger_tx:
  assumes "\<And>s a s'. ledger M s \<Longrightarrow> m s = (Inr a, s') \<Longrightarrow> ledger M s'"
  shows "preserves (ledger M) (tx Postgres m)"
proof (rule preservesI)
  fix s :: "'a app" assume s: "ledger M s"
  show "ledger M (snd (tx Postgres m s))"
  proof (cases "m s")
    case (Pair r s')
    then show ?thesis using s assms by (cases r) (auto simp: tx_commit tx_abort)
  qed
qed

lemma ledger_emit [preserve_intros]: "preserves (ledger M) (emit e)"
  by (rule preservesI) (auto simp: emit_eq ledger_def books_def money_def wf_db_def)

lemma ledger_soroban [preserve_intros]: "preserves (ledger M) (on_soroban m)"
  unfolding on_soroban_def
  by (rule preserves_zoom) (auto simp: ledger_def books_def money_def wf_db_def)

text \<open>An update of one prediction row that keeps its stake.\<close>

definition same_stake :: "prediction_row \<Rightarrow> prediction_row \<Rightarrow> bool" where
  "same_stake p p' \<longleftrightarrow> p_id p' = p_id p \<and> p_roundId p' = p_roundId p \<and> p_side p' = p_side p \<and>
     p_amount p' = p_amount p \<and> p_userId p' = p_userId p \<and> compensatedAt p' = compensatedAt p \<and> p_payout p' = p_payout p"

lemma ledger_same_stake:
  assumes "ledger M s" and "peek k (predictions s) = Some p" and "same_stake p p'" and "prediction_ok p'"
  shows "ledger M (s\<lparr>predictions := c_set k p' (predictions s)\<rparr>)"
proof -
  have sums: "c_sum (stake_on j sd) (c_set k p' (predictions s)) = c_sum (stake_on j sd) (predictions s)"
    "c_sum open_stake (c_set k p' (predictions s)) = c_sum open_stake (predictions s)" for j sd
    using assms(2,3) by (auto simp: c_sum_set same_stake_def stake_on_def open_stake_def)
  have wf: "wf_db s" using assms(1) by (simp add: ledger_def books_def)
  have "p_id p' = k" using predictions.peek_id [OF wf assms(2)] assms(3) by (simp add: same_stake_def)
  then have "wf_db (s\<lparr>predictions := c_set k p' (predictions s)\<rparr>)"
    by (rule predictions.set_wf [OF wf assms(2)])
  moreover have "owned (users s) (c_set k p' (predictions s))"
    using assms(1-3) by (auto simp: ledger_def books_def owned_def same_stake_def)
  ultimately show ?thesis using assms sums
    by (auto simp: ledger_def books_def money_def pools_ok_def)
qed

lemma ledger_update_status:
  assumes "\<And>p. prediction_ok p \<Longrightarrow> same_stake p (f p) \<and> prediction_ok (f p)"
    and "\<And>p. p_id (f p) = p_id p"
  shows "preserves (ledger M) (t_update P2025 predictions predictions_update (\<lambda>p. p_id p = pid) f)"
proof (rule preservesI)
  fix s :: "'a app" assume s: "ledger M s"
  then have wf: "wf_db s" by (simp add: ledger_def books_def)
  have "ledger M (s\<lparr>predictions := c_set pid (f p) (predictions s)\<rparr>)" if "peek pid (predictions s) = Some p" for p
  proof -
    have "prediction_ok p" using s that by (auto simp: ledger_def intro: books_prediction)
    with assms(1) show ?thesis by (intro ledger_same_stake [OF s that]) simp_all
  qed
  with s show "ledger M (snd (t_update P2025 predictions predictions_update (\<lambda>p. p_id p = pid) f s))"
    by (simp add: predictions.update_id wf assms(2) split: option.split)
qed

lemma preserves_wf_predictions [preserve_intros]:
  "preserves wf_db (placed_events E now rid p r)" "preserves wf_db (debit E uid x)"
  "preserves wf_db (file_prediction E now uid rnd x side pr ex)" "preserves wf_db (credit_pool E rid side x)"
  "preserves wf_db (credit_range E now rnd pr amount p)"
  unfolding placed_events_def debit_def file_prediction_def credit_pool_def credit_range_def
  by (intro preserve_intros; simp)+

lemma preserves_mode [preserve_intros]:
  "(mode = UP_DOWN \<Longrightarrow> preserves I m) \<Longrightarrow> (mode = LEGENDS \<Longrightarrow> preserves I n) \<Longrightarrow>
   preserves I (case mode of UP_DOWN \<Rightarrow> m | LEGENDS \<Rightarrow> n)"
  by (cases mode) simp_all

lemma preserves_wf_reserve [preserve_intros]: "preserves wf_db (reserve E now uid rid amount side pr)"
  unfolding reserve_def by (intro preserve_intros; simp)

lemma finalized_fields [simp]:
  "p_id (finalized now h p) = p_id p" "p_userId (finalized now h p) = p_userId p"
  "p_amount (finalized now h p) = p_amount p" "chainStatus (finalized now h p) = PC_CONFIRMED"
  by (simp_all add: finalized_def)

lemma finalize_pending:
  assumes "wf_db s" and "peek pid (predictions s) = Some p" and "chainStatus p = PC_PENDING"
  shows "\<exists>c. finalize_body E now pid rid prediction r h s =
    (Inr (), s\<lparr>predictions := c_set pid (finalized now h p) (predictions s), outboxEvents := c\<rparr>)"
  using placed_events_eq [of E now rid prediction r
      "s\<lparr>predictions := c_set pid (finalized now h p) (predictions s)\<rparr>"] assms
  by (simp add: finalize_body_def m_bind_def m_then_def find_simps predictions.update_id)

lemma finalize_other:
  assumes "wf_db s" and "\<not> (\<exists>p. peek pid (predictions s) = Some p \<and> chainStatus p = PC_PENDING)"
  shows "finalize_body E now pid rid prediction r h s = (Inr (), s)"
  using assms by (auto simp: finalize_body_def m_bind_def find_simps m_return_def split: option.split)

lemma preserves_wf_finalize [preserve_intros]: "preserves wf_db (finalize_body E now pid rid p r h)"
  unfolding finalize_body_def by (intro preserve_intros; simp)

lemma compensated_fields [simp]:
  "p_id (compensated now p) = p_id p" "p_amount (compensated now p) = p_amount p"
  "p_roundId (compensated now p) = p_roundId p" "p_userId (compensated now p) = p_userId p" "p_payout (compensated now p) = p_payout p"
  "compensatedAt (compensated now p) = Some now" "chainStatus (compensated now p) = PC_FAILED"
  "r_id (unpool E p r) = r_id r" "r_mode (unpool E p r) = r_mode r"
  by (simp_all add: compensated_def unpool_def)

definition refunded :: "arith \<Rightarrow> int \<Rightarrow> string \<Rightarrow> prediction_row \<Rightarrow> user_row \<Rightarrow> round_row \<Rightarrow> 'c app \<Rightarrow> 'c app" where
  "refunded E now pid pred u rnd s = s\<lparr>
     users := c_set (p_userId pred) (u\<lparr>virtualBalance := increment E (virtualBalance u) (p_amount pred)\<rparr>) (users s),
     rounds := (if r_mode rnd = UP_DOWN then c_set (p_roundId pred) (unpool E pred rnd) (rounds s) else rounds s),
     predictions := c_set pid (compensated now pred) (predictions s)\<rparr>"

lemma compensate_eq:
  assumes wf: "wf_db s" and p: "peek pid (predictions s) = Some pred"
    and r: "peek (p_roundId pred) (rounds s) = Some rnd" and u: "peek (p_userId pred) (users s) = Some u"
  shows "compensate_body E now pid s =
    (if chainStatus pred \<in> {PC_PENDING, PC_FAILED, PC_SUBMITTED} \<and> compensatedAt pred = None
     then (Inr (), refunded E now pid pred u rnd s) else (Inr (), s))"
    and "wf_db (refunded E now pid pred u rnd s)"
proof -
  let ?u = "u\<lparr>virtualBalance := increment E (virtualBalance u) (p_amount pred)\<rparr>"
  let ?s1 = "s\<lparr>users := c_set (p_userId pred) ?u (users s)\<rparr>"
  let ?s2 = "?s1\<lparr>rounds := c_set (p_roundId pred) (unpool E pred rnd) (rounds s)\<rparr>"
  have wf1: "wf_db ?s1" using users.set_wf [OF wf u, of ?u] users.peek_id [OF wf u] by simp
  have r1: "peek (p_roundId pred) (rounds ?s1) = Some rnd" by (simp add: r)
  have wf2: "wf_db ?s2"
    using rounds.set_wf [OF wf1 r1, of "unpool E pred rnd"] rounds.peek_id [OF wf1 r1] by simp
  have p1: "peek pid (predictions ?s1) = Some pred" and p2: "peek pid (predictions ?s2) = Some pred"
    by (simp_all add: p)
  show "wf_db (refunded E now pid pred u rnd s)"
    using predictions.set_wf [OF wf1 p1, of "compensated now pred"] predictions.peek_id [OF wf p]
      predictions.set_wf [OF wf2 p2, of "compensated now pred"] by (simp add: refunded_def)
  show "compensate_body E now pid s =
    (if chainStatus pred \<in> {PC_PENDING, PC_FAILED, PC_SUBMITTED} \<and> compensatedAt pred = None
     then (Inr (), refunded E now pid pred u rnd s) else (Inr (), s))"
    by (simp add: compensate_body_def m_bind_def m_then_def m_return_def find_simps wf p r u refunded_def
        users.update_id [OF wf] rounds.update_id [OF wf1] predictions.update_id [OF wf1]
        predictions.update_id [OF wf2])
qed

lemma compensate_cases:
  assumes "wf_db s" and "compensate_body E now pid s = (Inr a, s')"
  obtains (nothing) "s' = s"
  | (refund) pred u rnd where "peek pid (predictions s) = Some pred"
      "peek (p_roundId pred) (rounds s) = Some rnd" "peek (p_userId pred) (users s) = Some u"
      "chainStatus pred \<in> {PC_PENDING, PC_FAILED, PC_SUBMITTED}" "compensatedAt pred = None"
      "s' = refunded E now pid pred u rnd s"
proof (cases "\<exists>pred rnd u. peek pid (predictions s) = Some pred \<and>
    peek (p_roundId pred) (rounds s) = Some rnd \<and> peek (p_userId pred) (users s) = Some u")
  case True
  then obtain pred rnd u where *: "peek pid (predictions s) = Some pred"
    "peek (p_roundId pred) (rounds s) = Some rnd" "peek (p_userId pred) (users s) = Some u" by blast
  show thesis
    using compensate_eq(1) [OF assms(1) *, of E now] assms(2) that(1) that(2) [OF *] by (auto split: if_splits)
next
  case False
  with assms have "s' = s"
    by (auto simp: compensate_body_def m_bind_def m_then_def m_return_def m_throw_def find_simps
        users.update_id split: option.splits if_splits)
  then show thesis by (rule that(1))
qed

lemma books_user_round:
  assumes "books s" and "peek k (rounds s) = Some r"
  shows "r_id r = k"
  using rounds.peek_id [OF books_wf [OF assms(1)] assms(2)] .

subsection \<open>Reservation, finalisation and compensation keep the ledger\<close>

context decimal_arith
begin

lemma reserve_pools:
  assumes "books s" and "0 \<le> x" and "peek rid (rounds s) = Some rnd" and "r_mode rnd = UP_DOWN"
    and "filed (predictions s) old p ps" and "\<And>q. old = Some q \<Longrightarrow> compensatedAt q \<noteq> None"
    and "p_amount p = col E x" and "compensatedAt p = None" and "p_roundId p = rid" and "p_side p = side"
  shows "pools_ok ps (rnd\<lparr>
       poolUp := (if side = Some UP then increment E (poolUp rnd) x else poolUp rnd),
       poolDown := (if side = Some DOWN then increment E (poolDown rnd) x else poolDown rnd)\<rparr>)"
proof -
  note g = pools_grid [OF assms(1,3,4)]
  have "c_sum (stake_on rid sd) ps = c_sum (stake_on rid sd) (predictions s) + (if side = Some sd then col E x else 0)" for sd
    using assms(5-10) by (auto simp: filed_def stake_on_def split: option.splits)
  with books_round [OF assms(1,3)] books_user_round [OF assms(1,3)] assms(2,4) g show ?thesis
    by (auto simp: pools_ok_def increment_shift)
qed

lemma reserve_books:
  assumes "books s" and "0 \<le> amount" and "reserve E now uid rid amount side pr s = (Inr (p, u', r'), s')"
  shows "books s'"
  using books_wf [OF assms(1)] assms(3)
proof (cases rule: reserve_cases)
  case (1 rnd u old)
  have x: "0 \<le> toNum E amount" by (rule toNum_nonneg [OF assms(2)])
  have wf': "wf_db s'"
    using preservesD [OF preserves_wf_reserve books_wf [OF assms(1)]] assms(3) by (metis snd_conv)
  have rid: "r_id rnd = rid" by (rule books_user_round [OF assms(1) 1(1)])
  have old: "compensatedAt q \<noteq> None" "p_roundId q = rid" if "old = Some q" for q
    using that 1(7,8) books_prediction [OF assms(1)] by (auto simp: filed_def prediction_ok_def)
  have pools: "r_id r' = rid \<and> pools_ok (predictions s') r'"
  proof (cases "r_mode rnd")
    case UP_DOWN
    with 1(14,17) have side: "p_side p = side" and r': "r' = rnd\<lparr>
       poolUp := (if side = Some UP then increment E (poolUp rnd) (toNum E amount) else poolUp rnd),
       poolDown := (if side = Some DOWN then increment E (poolDown rnd) (toNum E amount) else poolDown rnd)\<rparr>"
      by auto
    from reserve_pools [OF assms(1) x 1(1) UP_DOWN 1(7) old(1) 1(9,10,12) side] rid r' show ?thesis by simp
  next
    case LEGENDS
    with 1(18) rid show ?thesis by (auto simp: pools_ok_def)
  qed
  have "prediction_ok p"
    using 1(9-11,15) x by (auto simp: prediction_ok_def col_nonneg)
  with pools show ?thesis
    by (intro books_intro [OF assms(1) wf' 1(6) _ 1(7) _ 1(16) _ _ 1(12) old(2) 1(13)])
      (use 1(4) in \<open>auto simp: 1(5) decrement_nonneg\<close>)
qed

lemma reserve_money:
  assumes "books s" and "on_grid (toNum E amount)"
    and "reserve E now uid rid amount side pr s = (Inr (p, u', r'), s')"
  shows "money s' = money s"
  using books_wf [OF assms(1)] assms(3)
proof (cases rule: reserve_cases)
  case (1 rnd u old)
  have "compensatedAt q \<noteq> None" if "old = Some q" for q
    using that 1(7,8) books_prediction [OF assms(1)] by (auto simp: filed_def prediction_ok_def)
  then have "c_sum open_stake (predictions s') = c_sum open_stake (predictions s) + toNum E amount"
    using 1(7,9-11) assms(2) by (auto simp: filed_def open_stake_def col_id split: option.splits)
  moreover have "c_sum virtualBalance (users s') = c_sum virtualBalance (users s) - toNum E amount"
    using books_user [OF assms(1) 1(3)] assms(2) by (simp add: 1(6,3,5) c_sum_set decrement_exact)
  ultimately show ?thesis by (simp add: money_def)
qed

lemma reserve_ledger:
  assumes "0 \<le> amount" and "on_grid (toNum E amount)"
  shows "preserves (ledger M) (tx Postgres (reserve E now uid rid amount side pr))"
proof (rule ledger_tx)
  fix s a and s' :: "'a app"
  assume "ledger M s" "reserve E now uid rid amount side pr s = (Inr a, s')"
  with reserve_books reserve_money assms show "ledger M s'" by (cases a) (auto simp: ledger_def)
qed

lemma finalize_ledger [preserve_intros]:
  "preserves (ledger M) (finalizeChainSuccess E now pid rid prediction r h)"
  unfolding finalizeChainSuccess_def
proof (intro preserves_retryOrThrow ledger_tx)
  fix s a and s' :: "'a app"
  assume s: "ledger M s" and run: "finalize_body E now pid rid prediction r h s = (Inr a, s')"
  have wf: "wf_db s" using s by (simp add: ledger_def books_def)
  show "ledger M s'"
  proof (cases "\<exists>p. peek pid (predictions s) = Some p \<and> chainStatus p = PC_PENDING")
    case False
    with run s show ?thesis by (simp add: finalize_other [OF wf])
  next
    case True
    then obtain p where p: "peek pid (predictions s) = Some p" "chainStatus p = PC_PENDING" by blast
    let ?s = "s\<lparr>predictions := c_set pid (finalized now h p) (predictions s)\<rparr>"
    obtain c where s': "s' = ?s\<lparr>outboxEvents := c\<rparr>"
      using finalize_pending [OF wf p, of E now rid prediction r h] run by auto
    have "prediction_ok p" using s p books_prediction by (auto simp: ledger_def)
    then have "ledger M ?s"
      using p by (intro ledger_same_stake [OF s p(1)]) (auto simp: same_stake_def prediction_ok_def finalized_def)
    moreover have "wf_db s'"
      using preservesD [OF preserves_wf_finalize wf, of E now pid rid prediction r h] run by simp
    ultimately show ?thesis using s' by (auto intro: ledger_core [of _ ?s])
  qed
qed

lemma unpool_ok:
  assumes "books s" and "peek pid (predictions s) = Some pred" and "compensatedAt pred = None"
    and "peek (p_roundId pred) (rounds s) = Some rnd" and "r_mode rnd = UP_DOWN"
  shows "pools_ok (c_set pid (compensated now pred) (predictions s)) (unpool E pred rnd)"
proof -
  note g = pools_grid [OF assms(1,4,5)]
  have am: "on_grid (p_amount pred)" using books_prediction [OF assms(1,2)] by (simp add: prediction_ok_def)
  have "c_sum (stake_on (p_roundId pred) sd) (c_set pid (compensated now pred) (predictions s)) =
      c_sum (stake_on (p_roundId pred) sd) (predictions s) - (if p_side pred = Some sd then p_amount pred else 0)" for sd
    using assms(2,3) by (simp add: c_sum_set stake_on_def)
  with books_round [OF assms(1,4)] books_user_round [OF assms(1,4)] assms(5) g am show ?thesis
    by (auto simp: pools_ok_def unpool_def decrement_exact)
qed

lemma refunded_books:
  assumes "books s" and "peek pid (predictions s) = Some pred" and "compensatedAt pred = None"
    and "peek (p_roundId pred) (rounds s) = Some rnd" and "peek (p_userId pred) (users s) = Some u"
    and "chainStatus pred \<in> {PC_PENDING, PC_FAILED, PC_SUBMITTED}"
  shows "books (refunded E now pid pred u rnd s)"
proof -
  let ?r = "if r_mode rnd = UP_DOWN then unpool E pred rnd else rnd"
  have wf: "wf_db s" by (rule books_wf [OF assms(1)])
  have ok: "prediction_ok pred" by (rule books_prediction [OF assms(1,2)])
  have same: "c_set k r (rounds s) = rounds s" if "peek k (rounds s) = Some r" for k r
    using that by (simp add: c_set_def peek_def update_triv)
  have pid: "p_id pred = pid" by (rule predictions.peek_id [OF wf assms(2)])
  show ?thesis
  proof (rule books_intro [where u' = "u\<lparr>virtualBalance := increment E (virtualBalance u) (p_amount pred)\<rparr>",
        OF assms(1) compensate_eq(2) [OF wf assms(2,4,5)]])
    show "filed (predictions s) (Some pred) (compensated now pred) (predictions (refunded E now pid pred u rnd s))"
      using filed_set [of "compensated now pred" "predictions s" "Some pred"] assms(2) pid by (simp add: refunded_def)
    show "rounds (refunded E now pid pred u rnd s) = c_set (p_roundId pred) ?r (rounds s)"
      using same [OF assms(4)] by (simp add: refunded_def)
    show "pools_ok (predictions (refunded E now pid pred u rnd s)) ?r"
      using unpool_ok [OF assms(1-4)] by (auto simp: refunded_def pools_ok_def)
    show "prediction_ok (compensated now pred)" using ok assms(6) by (auto simp: prediction_ok_def)
    show "r_id ?r = p_roundId pred" using books_user_round [OF assms(1,4)] by simp
  qed (use ok books_balance [OF assms(1,5)] in \<open>simp_all add: refunded_def increment_nonneg prediction_ok_def\<close>)
qed

lemma refunded_money:
  assumes "books s" and "peek pid (predictions s) = Some pred" and "compensatedAt pred = None"
    and "peek (p_userId pred) (users s) = Some u"
    and "chainStatus pred \<in> {PC_PENDING, PC_FAILED, PC_SUBMITTED}"
  shows "money (refunded E now pid pred u rnd s) = money s"
proof -
  have ok: "prediction_ok pred" by (rule books_prediction [OF assms(1,2)])
  then have "c_sum open_stake (predictions (refunded E now pid pred u rnd s)) =
      c_sum open_stake (predictions s) - p_amount pred"
    using assms by (auto simp: refunded_def c_sum_set open_stake_def prediction_ok_def)
  moreover have "c_sum virtualBalance (users (refunded E now pid pred u rnd s)) =
      c_sum virtualBalance (users s) + p_amount pred"
    using books_user [OF assms(1,4)] ok assms(4)
    by (simp add: refunded_def c_sum_set increment_exact prediction_ok_def)
  ultimately show ?thesis by (simp add: money_def)
qed

lemma compensate_ledger [preserve_intros]: "preserves (ledger M) (compensatePrediction E now pid)"
  unfolding compensatePrediction_def
proof (rule ledger_tx, goal_cases)
  case (1 s a s')
  then have books: "books s" by (simp add: ledger_def)
  from books_wf [OF books] 1(2) show ?case
  proof (cases rule: compensate_cases)
    case nothing
    with 1(1) show ?thesis by simp
  next
    case (refund pred u rnd)
    with 1(1) books show ?thesis by (simp add: ledger_def refunded_books refunded_money)
  qed
qed

end

subsection \<open>The chain phase\<close>

lemma is_timeout_busy: "\<not> is_timeout (App busy)" "\<not> is_timeout (JsError ''Soroban service is not initialized'')"
  unfolding is_timeout_def by code_simp+

lemma placeBet_not_timeout:
  assumes "foreign_errors cl" and "placeBet E cl now u a sd s = (Inl e, s')"
  shows "\<not> is_timeout e"
  using placeBet_errors [OF assms] is_timeout_busy mapSorobanError_no_timeout by (auto simp: is_timeout_def)

lemma finalize_body_total:
  "wf_db s \<Longrightarrow> \<exists>s'. finalize_body E now pid rid prediction r h s = (Inr (), s')"
  by (cases "\<exists>p. peek pid (predictions s) = Some p \<and> chainStatus p = PC_PENDING")
    (use finalize_pending finalize_other in fast)+

lemma finalize_once:
  assumes "finalize_body E now pid rid prediction r h s = (Inr (), s')"
  shows "finalizeChainSuccess E now pid rid prediction r h s = (Inr (), s')"
proof -
  have "\<exists>sl. retry_loop finalize_policy isRetryableError
      (tx Postgres (finalize_body E now pid rid prediction r h)) 1 50 [] None s =
    (\<lparr>rr_outcome = Inr (), attemptsUsed = 1 + 0, sleeps = sl\<rparr>, s')"
    by (rule retry_loop_success) (auto simp: finalize_policy_def tx_commit assms)
  then show ?thesis
    by (auto simp: finalizeChainSuccess_def retryOrThrow_def withRetry_def) (simp add: finalize_policy_def)
qed

lemma chain_phase_cases:
  assumes wf: "wf_db s" and "foreign_errors cl"
    and run: "chain_phase E cl now rid amount side prediction user rnd s = (r, s')"
  obtains (confirmed) h s1 where "on_soroban (placeBet E cl now (walletAddress user) amount
       (if side = Some UP then Up else Down)) s = (Inr h, s1)"
      "finalizeChainSuccess E now (p_id prediction) rid prediction rnd h s1 = (Inr (), s')" "r = Inr ()"
  | (compensated) e s1 where "on_soroban (placeBet E cl now (walletAddress user) amount
       (if side = Some UP then Up else Down)) s = (Inl e, s1)"
      "s' = snd (compensatePrediction E now (p_id prediction) s1)" "\<exists>e'. r = Inl e'"
proof -
  let ?bet = "placeBet E cl now (walletAddress user) amount (if side = Some UP then Up else Down)"
  obtain x s1 where bet: "on_soroban ?bet s = (x, s1)" by fastforce
  then have wf1: "wf_db s1" using preservesD [OF preserves_on_soroban wf] by (metis snd_conv)
  show thesis
  proof (cases x)
    case (Inr h)
    from finalize_body_total [OF wf1] finalize_once obtain s2
      where f: "finalizeChainSuccess E now (p_id prediction) rid prediction rnd h s1 = (Inr (), s2)" by blast
    from run bet Inr f have "r = Inr ()" "s' = s2" by (auto simp: chain_phase_def m_catch_def m_bind_def)
    with that(1) bet Inr f show thesis by blast
  next
    case (Inl e)
    from bet Inl have "\<not> is_timeout e"
      using placeBet_not_timeout [OF assms(2)] by (auto simp: on_soroban_def m_zoom_def split: prod.splits)
    with run bet Inl have "(\<exists>e'. r = Inl e')" "s' = snd (compensatePrediction E now (p_id prediction) s1)"
      by (auto simp: chain_phase_def m_catch_def m_bind_def m_then_def m_throw_def handleChainFailure_def
          split: prod.splits sum.splits)
    with that(2) bet Inl show thesis by blast
  qed
qed

context decimal_arith
begin

lemma chain_phase_ledger:
  fixes cl :: "'a xelma_client"
  assumes "foreign_errors cl"
  shows "preserves (ledger M) (chain_phase E cl now rid amount side prediction user rnd)"
proof (rule preservesI)
  fix s :: "'a app" assume s: "ledger M s"
  then have wf: "wf_db s" by (simp add: ledger_def books_def)
  obtain r s' where run: "chain_phase E cl now rid amount side prediction user rnd s = (r, s')" by fastforce
  from wf assms run show "ledger M (snd (chain_phase E cl now rid amount side prediction user rnd s))"
  proof (cases rule: chain_phase_cases)
    case (confirmed h s1)
    then show ?thesis
      using preservesD [OF ledger_soroban s] preservesD [OF finalize_ledger] run by (metis snd_conv)
  next
    case (compensated e s1)
    then show ?thesis
      using preservesD [OF ledger_soroban s] preservesD [OF compensate_ledger] run by (metis snd_conv)
  qed
qed

lemma submit_ledger:
  assumes "foreign_errors cl" and "0 \<le> amount" and "on_grid (toNum E amount)"
  shows "preserves (ledger M) (submitPrediction E cl now uid rid amount side pr)"
  unfolding submitPrediction_def submitPredictionInternal_def
  by (intro preserve_intros reserve_ledger chain_phase_ledger assms)

lemma confirm_ledger [preserve_intros]:
  "preserves (ledger M) (confirmPredictionFromReconciliation E now pid h)"
  unfolding confirmPredictionFromReconciliation_def by (intro preserve_intros)

lemma flag_ledger [preserve_intros]: "preserves (ledger M) (flagForManualReview pid reason)"
  unfolding flagForManualReview_def
  by (intro preserve_intros ledger_update_status) (auto simp: same_stake_def prediction_ok_def)

end

subsection \<open>Every run of a submission\<close>

lemma reserve_quiet:
  "soroban (snd (reserve E now uid rid amount side pr s)) = soroban s \<and>
   effects (snd (reserve E now uid rid amount side pr s)) = effects s"
proof -
  have "preserves (\<lambda>t. soroban t = soroban s \<and> effects t = effects s) (reserve E now uid rid amount side pr)"
    unfolding reserve_def debit_def file_prediction_def credit_pool_def credit_range_def placed_events_def
      outbox_create_def
    by (intro preserve_intros preserves_other_table; simp)
  then show ?thesis by (rule preservesD) simp
qed

lemma submit_cases:
  assumes wf: "wf_db s" and fe: "foreign_errors cl"
    and run: "submitPrediction E cl now uid rid amount side pr s = (r, s')"
  obtains (refused) e s0 where "reserve E now uid rid amount side pr s = (Inl e, s0)" "r = Inl e" "s' = s"
  | (placed) p u' r' s1 fx where "reserve E now uid rid amount side pr s = (Inr (p, u', r'), s1)"
      "r_mode r' = LEGENDS" "r = Inr p" "s' = s1\<lparr>effects := fx\<rparr>"
  | (confirmed) p u' r' s1 h s2 s3 fx where "reserve E now uid rid amount side pr s = (Inr (p, u', r'), s1)"
      "r_mode r' = UP_DOWN" "on_soroban (placeBet E cl now (walletAddress u') amount
         (if side = Some UP then Up else Down)) s1 = (Inr h, s2)"
      "finalizeChainSuccess E now (p_id p) rid p r' h s2 = (Inr (), s3)" "s' = s3\<lparr>effects := fx\<rparr>"
      "r = (case peek (p_id p) (predictions s3) of Some q \<Rightarrow> Inr q | None \<Rightarrow> Inl P2025)"
  | (compensated) p u' r' s1 e s2 e' where "reserve E now uid rid amount side pr s = (Inr (p, u', r'), s1)"
      "r_mode r' = UP_DOWN" "on_soroban (placeBet E cl now (walletAddress u') amount
         (if side = Some UP then Up else Down)) s1 = (Inl e, s2)"
      "s' = snd (compensatePrediction E now (p_id p) s2)" "r = Inl e'"
proof -
  obtain x s1 where res: "reserve E now uid rid amount side pr s = (x, s1)" by fastforce
  have q: "soroban s1 = soroban s" "effects s1 = effects s"
    using reserve_quiet [of E now uid rid amount side pr s] res by auto
  have wf1: "wf_db s1" using preservesD [OF preserves_wf_reserve wf] res by (metis snd_conv)
  show thesis
  proof (cases x)
    case (Inl e)
    have "rollback_db s s1 = s" by (simp add: rollback_db_def q)
    with run res Inl have "r = Inl e" "s' = s"
      by (auto simp: submitPrediction_def submitPredictionInternal_def m_bind_def tx_abort)
    with that(1) res Inl show thesis by blast
  next
    case (Inr y)
    obtain p u' r' where y: "y = (p, u', r')" by (cases y)
    with res Inr have res': "reserve E now uid rid amount side pr s = (Inr (p, u', r'), s1)" by simp
    then have com: "tx Postgres (reserve E now uid rid amount side pr) s = (Inr (p, u', r'), s1)"
      by (simp add: tx_commit)
    note unf = submitPrediction_def submitPredictionInternal_def m_bind_def m_then_def m_return_def
      m_throw_def com emit_eq find_simps
    show thesis
    proof (cases "r_mode r'")
      case LEGENDS
      with run have "r = Inr p"
        "s' = s1\<lparr>effects := effects s1 @ [InvalidateNamespace ''leaderboard'', Metric ''predictions_placed_total'']\<rparr>"
        by (auto simp: unf)
      with that(2) res' LEGENDS show thesis by blast
    next
      case UP_DOWN
      obtain z t where ch: "chain_phase E cl now rid amount side p u' r' s1 = (z, t)" by fastforce
      with wf1 fe show thesis
      proof (cases rule: chain_phase_cases)
        case (confirmed h s2)
        have wft: "wf_db t"
          using preservesD [OF preserves_on_soroban wf1] confirmed
            preservesD [OF preserves_retryOrThrow [OF preserves_tx [OF preserves_wf_finalize]]]
          unfolding finalizeChainSuccess_def by (metis snd_conv)
        let ?t = "t\<lparr>effects := effects t @ [InvalidateNamespace ''leaderboard'', Metric ''predictions_placed_total'']\<rparr>"
        have "s' = ?t" "r = (case peek (p_id p) (predictions t) of Some q \<Rightarrow> Inr q | None \<Rightarrow> Inl P2025)"
          using run UP_DOWN ch confirmed(3) wft by (auto simp: unf split: option.splits)
        with that(3) res' UP_DOWN confirmed show thesis by blast
      next
        case (compensated e s2)
        then obtain e' where "z = Inl e'" by blast
        with run UP_DOWN ch have "r = Inl e'" "s' = t" by (auto simp: unf)
        with that(4) res' UP_DOWN compensated show thesis by blast
      qed
    qed
  qed
qed

subsection \<open>What a submission does to balances, pools and the chain\<close>

definition balance_of :: "'c app \<Rightarrow> string \<Rightarrow> rat option" where
  "balance_of s k = map_option virtualBalance (peek k (users s))"

definition pools_of :: "'c app \<Rightarrow> string \<Rightarrow> (rat \<times> rat) option" where
  "pools_of s k = map_option (\<lambda>r. (poolUp r, poolDown r)) (peek k (rounds s))"

lemma core_eqs: "core s' = core s \<Longrightarrow> users s' = users s \<and> rounds s' = rounds s \<and> predictions s' = predictions s"
  by (simp add: core_def)

lemma confirmed_state:
  assumes wf: "wf_db s" and res: "reserve E now uid rid amount side pr s = (Inr (p, u', r'), s1)"
    and mode: "r_mode r' = UP_DOWN" and bet: "on_soroban m s1 = (Inr h, s2)"
    and fin: "finalizeChainSuccess E now (p_id p) rid p r' h s2 = (Inr (), s3)"
  shows "users s3 = users s1 \<and> rounds s3 = rounds s1 \<and> soroban s3 = soroban s2 \<and>
    peek (p_id p) (predictions s3) = Some (finalized now h p)"
  using wf res
proof (cases rule: reserve_cases)
  case (1 rnd u old)
  have c: "users s2 = users s1 \<and> rounds s2 = rounds s1 \<and> predictions s2 = predictions s1"
    using core_eqs on_soroban_core bet by (metis snd_conv)
  have "wf_db s2"
    using preservesD [OF preserves_on_soroban] preservesD [OF preserves_wf_reserve wf] res bet by (metis snd_conv)
  moreover have "peek (p_id p) (predictions s2) = Some p" using 1(7) c by (simp add: filed_def)
  moreover have "r_mode rnd = UP_DOWN" using 1(18) mode by (cases "r_mode rnd") auto
  with 1(15) have "chainStatus p = PC_PENDING" by simp
  ultimately obtain oc where "s3 = s2\<lparr>predictions := c_set (p_id p) (finalized now h p) (predictions s2), outboxEvents := oc\<rparr>"
    using finalize_pending finalize_once fin by (metis Pair_inject)
  with c show ?thesis by simp
qed

context decimal_arith
begin

lemma compensation_restores:
  assumes books: "books s" and amt: "0 \<le> amount" "on_grid (toNum E amount)"
    and res: "reserve E now uid rid amount side pr s = (Inr (p, u', r'), s1)" and mode: "r_mode r' = UP_DOWN"
    and s2: "core s2 = core s1" "wf_db s2"
  shows "balance_of (snd (compensatePrediction E now (p_id p) s2)) = balance_of s \<and>
    pools_of (snd (compensatePrediction E now (p_id p) s2)) = pools_of s \<and>
    (\<exists>q. peek (p_id p) (predictions (snd (compensatePrediction E now (p_id p) s2))) = Some q \<and>
       chainStatus q = PC_FAILED \<and> compensatedAt q = Some now)"
  using books_wf [OF books] res
proof (cases rule: reserve_cases)
  case (1 rnd u old)
  note c = core_eqs [OF s2(1)]
  let ?x = "toNum E amount"
  have mode': "r_mode rnd = UP_DOWN" using 1(18) mode by (cases "r_mode rnd") auto
  with 1(17) have r': "r' = rnd\<lparr>poolUp := (if side = Some UP then increment E (poolUp rnd) ?x else poolUp rnd),
       poolDown := (if side = Some DOWN then increment E (poolDown rnd) ?x else poolDown rnd)\<rparr>"
    and side: "p_side p = side" using 1(14) by auto
  have p2: "peek (p_id p) (predictions s2) = Some p" using 1(7) c by (simp add: filed_def)
  have r2: "peek (p_roundId p) (rounds s2) = Some r'" using 1(12,16) c by simp
  have u2: "peek (p_userId p) (users s2) = Some u'" using 1(6,13) c by simp
  have x: "col E ?x = ?x" "0 \<le> ?x" using amt by (auto simp: col_id toNum_nonneg)
  note g = pools_grid [OF books 1(1) mode'] and gu = books_user [OF books 1(3)]
  have "compensate_body E now (p_id p) s2 = (Inr (), refunded E now (p_id p) p u' r' s2)"
    using compensate_eq(1) [OF s2(2) p2 r2 u2] 1(10,15) mode' by simp
  then have "snd (compensatePrediction E now (p_id p) s2) = refunded E now (p_id p) p u' r' s2"
    by (simp add: compensatePrediction_def tx_def transaction_def)
  then show ?thesis
    using 1(1,3,5,6,9,12,13,16) c r' side mode' g gu amt x
    by (auto simp: refunded_def balance_of_def pools_of_def fun_eq_iff unpool_def increment_exact decrement_exact)
qed

lemma submit_failure:
  assumes books: "books s" and fe: "foreign_errors cl" and amt: "0 \<le> amount" "on_grid (toNum E amount)"
    and run: "submitPrediction E cl now uid rid amount side pr s = (Inl e, s')"
  shows "balance_of s' = balance_of s \<and> pools_of s' = pools_of s"
  using books_wf [OF books] fe run
proof (cases rule: submit_cases)
  case (confirmed p u' r' s1 h s2 s3 fx)
  with confirmed_state [OF books_wf [OF books] confirmed(1-4)] show ?thesis by simp
next
  case (compensated p u' r' s1 e s2 e')
  have "core s2 = core s1" using on_soroban_core compensated(3) by (metis snd_conv)
  moreover have "wf_db s2"
    using preservesD [OF preserves_on_soroban] preservesD [OF preserves_wf_reserve books_wf [OF books]]
      compensated(1,3) by (metis snd_conv)
  ultimately show ?thesis
    using compensation_restores [OF books amt compensated(1,2)] compensated(4) by blast
qed auto

lemma submit_success:
  assumes books: "books s" and fe: "foreign_errors (recording cl)" and rnd: "peek rid (rounds s) = Some rnd"
    and amt: "0 \<le> amount" "on_grid (toNum E amount)"
    and run: "submitPrediction E (recording cl) now uid rid amount (Some side) pr s = (Inr p, s')"
  shows "r_status rnd = RS_ACTIVE \<and> p_userId p = uid \<and> p_amount p = toNum E amount \<and>
    (\<exists>u. peek uid (users s) = Some u \<and> toNum E amount \<le> virtualBalance u \<and>
       balance_of s' uid = Some (virtualBalance u - toNum E amount) \<and>
       (r_mode rnd = UP_DOWN \<longrightarrow> chainStatus p = PC_CONFIRMED \<and>
          pools_of s' rid = Some (if side = UP then (poolUp rnd + toNum E amount, poolDown rnd)
            else (poolUp rnd, poolDown rnd + toNum E amount)) \<and>
          submissions (soroban s') = submissions (soroban s) @
            [place_bet (walletAddress u) (amount_in_stroops E amount) (toChainSide side)]) \<and>
       (r_mode rnd = LEGENDS \<longrightarrow> chainStatus p = PC_NOT_REQUIRED \<and> soroban s' = soroban s))"
  using books_wf [OF books] fe run
proof (cases rule: submit_cases)
  case (placed p0 u' r' s1 fx)
  from books_wf [OF books] placed(1) show ?thesis
  proof (cases rule: reserve_cases)
    case (1 rnd0 u old)
    have "rnd0 = rnd" using 1(1) rnd by simp
    moreover have "r_mode rnd0 = LEGENDS" using 1(17) placed(2) by (cases "r_mode rnd0") auto
    moreover have "soroban s1 = soroban s" using reserve_quiet [of E now uid rid amount "Some side" pr s] placed(1) by simp
    ultimately show ?thesis
      using 1 placed(3,4) amt books_user [OF books 1(3)] by (auto simp: balance_of_def col_id decrement_exact)
  qed
next
  case (confirmed p0 u' r' s1 h s2 s3 fx)
  note cs = confirmed_state [OF books_wf [OF books] confirmed(1-4)]
  from books_wf [OF books] confirmed(1) show ?thesis
  proof (cases rule: reserve_cases)
    case (1 rnd0 u old)
    have eq: "rnd0 = rnd" using 1(1) rnd by simp
    have mode: "r_mode rnd = UP_DOWN" using 1(18) confirmed(2) eq by (cases "r_mode rnd0") auto
    have "soroban s1 = soroban s" using reserve_quiet [of E now uid rid amount "Some side" pr s] confirmed(1) by simp
    moreover from confirmed(3) obtain t where t: "soroban s2 = t"
      "placeBet E (recording cl) now (walletAddress u') amount (toChainSide side) (soroban s1) = (Inr h, t)"
      by (cases side) (auto simp: on_soroban_def m_zoom_def toChainSide_def split: prod.splits)
    ultimately have "submissions (soroban s2) = submissions (soroban s) @
        [place_bet (walletAddress u) (amount_in_stroops E amount) (toChainSide side)]"
      using placeBet_submissions [OF t(2)] 1(5) by auto
    with cs 1 confirmed(5,6) mode eq amt pools_grid [OF books rnd mode] books_user [OF books 1(3)] show ?thesis
      by (cases side) (auto simp: balance_of_def pools_of_def col_id decrement_exact increment_exact finalized_def)
  qed
qed auto

end

end
