(* ===== verification/RoundLifecycle.thy ===== *)
theory RoundLifecycle
  imports Schema
begin

text \<open>
  The round state machine: the transition table of \<open>src/src/types/round.types.ts\<close> and the
  transition engine of \<open>src/src/services/round-lifecycle.service.ts\<close>.

  \<open>transitionRound_commit\<close> is the second half of \<open>transitionRound\<close>, from the compare-and-set
  on.  It takes the row read by the first half as an argument, so that a stale reader (another
  request moved the round in between) is \<open>transitionRound_commit\<close> on a later state.  \<open>ctx.data\<close> is
  the pair of columns its callers pass, the end price and the resolution time.
\<close>

subsection \<open>The transition table\<close>

fun allowedSourcesFor :: "RoundStatus \<Rightarrow> RoundStatus list" where
  "allowedSourcesFor RS_ACTIVE = [RS_PENDING]"
| "allowedSourcesFor RS_LOCKED = [RS_ACTIVE]"
| "allowedSourcesFor RS_RESOLVED = [RS_LOCKED]"
| "allowedSourcesFor RS_CANCELLED = [RS_ACTIVE, RS_LOCKED]"
| "allowedSourcesFor RS_PENDING = []"

definition isLegalRoundTransition :: "RoundStatus \<Rightarrow> RoundStatus \<Rightarrow> bool" where
  "isLegalRoundTransition from to \<longleftrightarrow> from \<in> set (allowedSourcesFor to)"

datatype RoundLifecycleOutcome = UPDATED | ALREADY_LOCKED | ALREADY_RESOLVED | NO_OP

fun status_name :: "RoundStatus \<Rightarrow> string" where
  "status_name RS_PENDING = ''PENDING''"
| "status_name RS_ACTIVE = ''ACTIVE''"
| "status_name RS_LOCKED = ''LOCKED''"
| "status_name RS_RESOLVED = ''RESOLVED''"
| "status_name RS_CANCELLED = ''CANCELLED''"

subsection \<open>The transition engine\<close>

type_synonym round_data = "(rat \<times> int) option"

definition with_round_data :: "arith \<Rightarrow> round_data \<Rightarrow> round_row \<Rightarrow> round_row" where
  "with_round_data E d r =
     (case d of None \<Rightarrow> r | Some (price, ts) \<Rightarrow> r\<lparr>endPrice := Some (col E price), r_resolvedAt := Some ts\<rparr>)"

definition transition_failure :: "js_error \<Rightarrow> ('c app, js_error, 'a) comp" where
  "transition_failure e = m_then (emit (Metric ''round_transition_failures_total'')) (m_throw e)"

definition transitionRound_commit ::
  "arith \<Rightarrow> string \<Rightarrow> RoundStatus \<Rightarrow> round_data \<Rightarrow> bool \<Rightarrow> round_row \<Rightarrow> ('c app, js_error, round_row) comp" where
  "transitionRound_commit E roundId toState d em existing =
     m_bind (t_updateMany rounds rounds_update
         (\<lambda>r. r_id r = roundId \<and> r_status r \<in> set (allowedSourcesFor toState))
         (\<lambda>r. with_round_data E d (r\<lparr>r_status := toState\<rparr>))) (\<lambda>count.
       if count \<noteq> 1 then
         transition_failure (App (IllegalRoundTransitionError (status_name (r_status existing))
           (status_name toState)
           (Some (''Illegal round transition: '' @ status_name (r_status existing) @ '' -> '' @
             status_name toState @ '' (state changed concurrently).''))))
       else
         m_bind (t_find rounds (\<lambda>r. r_id r = roundId)) (\<lambda>found.
           case found of
             None \<Rightarrow> m_throw (App (NotFoundError (''Round not found after transition: '' @ roundId)))
           | Some updated \<Rightarrow>
               m_then (if em then emit (EmitRoundUpdate (r_id updated)) else m_return ())
                 (m_then (emit (InvalidateNamespace ''rounds'')) (m_return updated))))"

definition transitionRound ::
  "arith \<Rightarrow> string \<Rightarrow> RoundStatus \<Rightarrow> round_data \<Rightarrow> bool \<Rightarrow> ('c app, js_error, round_row) comp" where
  "transitionRound E roundId toState d em =
     m_bind (t_find rounds (\<lambda>r. r_id r = roundId)) (\<lambda>found.
       case found of
         None \<Rightarrow> m_throw (App (NotFoundError (''Round not found: '' @ roundId)))
       | Some existing \<Rightarrow>
           if \<not> isLegalRoundTransition (r_status existing) toState then
             transition_failure (App (IllegalRoundTransitionError (status_name (r_status existing))
               (status_name toState) None))
           else transitionRound_commit E roundId toState d em existing)"

definition lockRound :: "arith \<Rightarrow> string \<Rightarrow> ('c app, js_error, RoundLifecycleOutcome) comp" where
  "lockRound E roundId =
     m_bind (t_find rounds (\<lambda>r. r_id r = roundId)) (\<lambda>found.
       case found of
         None \<Rightarrow> m_return NO_OP
       | Some rnd \<Rightarrow>
           if r_status rnd = RS_LOCKED then m_return ALREADY_LOCKED
           else if r_status rnd = RS_RESOLVED \<or> r_status rnd = RS_CANCELLED then m_return NO_OP
           else m_then (transitionRound E roundId RS_LOCKED None True) (m_return UPDATED))"

subsection \<open>What the engine does\<close>

lemma with_round_data_fields [simp]:
  "r_id (with_round_data E d r) = r_id r" "r_status (with_round_data E d r) = r_status r"
  "poolUp (with_round_data E d r) = poolUp r" "poolDown (with_round_data E d r) = poolDown r"
  "r_mode (with_round_data E d r) = r_mode r" "priceRanges (with_round_data E d r) = priceRanges r"
  "startPrice (with_round_data E d r) = startPrice r"
  by (auto simp: with_round_data_def split: option.split)

text \<open>The row after a successful transition.\<close>

definition moved :: "arith \<Rightarrow> RoundStatus \<Rightarrow> round_data \<Rightarrow> round_row \<Rightarrow> round_row" where
  "moved E toState d r = with_round_data E d (r\<lparr>r_status := toState\<rparr>)"

lemma moved_fields [simp]:
  "r_id (moved E t d r) = r_id r" "r_status (moved E t d r) = t"
  "poolUp (moved E t d r) = poolUp r" "poolDown (moved E t d r) = poolDown r"
  "r_mode (moved E t d r) = r_mode r"
  by (simp_all add: moved_def)

lemma commit_eq:
  assumes "wf_db s"
  shows "transitionRound_commit E k to d em ex s =
    (case peek k (rounds s) of
       Some r \<Rightarrow>
         if isLegalRoundTransition (r_status r) to then
           (Inr (moved E to d r), s\<lparr>rounds := c_set k (moved E to d r) (rounds s),
              effects := effects s @ (if em then [EmitRoundUpdate k] else []) @
                [InvalidateNamespace ''rounds'']\<rparr>)
         else (Inl (App (IllegalRoundTransitionError (status_name (r_status ex)) (status_name to)
             (Some (''Illegal round transition: '' @ status_name (r_status ex) @ '' -> '' @
               status_name to @ '' (state changed concurrently).'')))),
           s\<lparr>effects := effects s @ [Metric ''round_transition_failures_total'']\<rparr>)
     | None \<Rightarrow> (Inl (App (IllegalRoundTransitionError (status_name (r_status ex)) (status_name to)
             (Some (''Illegal round transition: '' @ status_name (r_status ex) @ '' -> '' @
               status_name to @ '' (state changed concurrently).'')))),
           s\<lparr>effects := effects s @ [Metric ''round_transition_failures_total'']\<rparr>))"
proof -
  have "wf_db (s\<lparr>rounds := c_set k (moved E to d r) (rounds s)\<rparr>)" "r_id r = k"
    if "peek k (rounds s) = Some r" for r
    using that wf_t_id [OF rounds.tbl_wf [OF assms] that] rounds.set_wf [OF assms that] by simp_all
  then show ?thesis
    unfolding transitionRound_commit_def
    by (auto simp: comp_defs table_eqs assms transition_failure_def emit_eq
        isLegalRoundTransition_def moved_def [symmetric] split: option.split)
qed

lemma transitionRound_eq:
  assumes "wf_db s" and "peek k (rounds s) = Some r" and "isLegalRoundTransition (r_status r) to"
  shows "transitionRound E k to d em s =
    (Inr (moved E to d r), s\<lparr>rounds := c_set k (moved E to d r) (rounds s),
       effects := effects s @ (if em then [EmitRoundUpdate k] else []) @ [InvalidateNamespace ''rounds'']\<rparr>)"
  using assms by (simp add: transitionRound_def m_bind_def table_eqs commit_eq)

lemma transitionRound_Inl:
  assumes "wf_db s"
    and "\<And>r. peek k (rounds s) = Some r \<Longrightarrow> \<not> isLegalRoundTransition (r_status r) to"
  shows "\<exists>e fx. transitionRound E k to d em s = (Inl (App e), s\<lparr>effects := effects s @ fx\<rparr>)"
  using assms(2)
  by (auto simp: transitionRound_def comp_defs table_eqs assms(1) transition_failure_def emit_eq
      intro: exI [of _ "[]"] split: option.split)

lemma preserves_transitionRound [preserve_intros]:
  "preserves wf_db (transitionRound_commit E k to d em ex)" "preserves wf_db (transitionRound E k to d em)"
  "preserves wf_db (lockRound E k)"
  unfolding lockRound_def transitionRound_def transitionRound_commit_def transition_failure_def
  by (intro preserve_intros, simp_all)+

subsection \<open>The machine under any interleaving\<close>

datatype round_op =
    Transition string RoundStatus round_data bool
  | StaleCommit string RoundStatus round_data bool round_row
  | Lock string

fun round_step :: "arith \<Rightarrow> 'c app \<Rightarrow> round_op \<Rightarrow> 'c app" where
  "round_step E s (Transition k to d em) = snd (transitionRound E k to d em s)"
| "round_step E s (StaleCommit k to d em ex) = snd (transitionRound_commit E k to d em ex s)"
| "round_step E s (Lock k) = snd (lockRound E k s)"

definition round_status :: "'z db_scheme \<Rightarrow> string \<Rightarrow> RoundStatus option" where
  "round_status s k = map_option r_status (peek k (rounds s))"

lemma round_status_frame [simp]: "round_status (effects_update f s) k = round_status s k"
  by (simp add: round_status_def)

definition moves :: "RoundStatus \<Rightarrow> 'c app \<Rightarrow> 'c app \<Rightarrow> string \<Rightarrow> bool" where
  "moves a s s' k \<longleftrightarrow> (\<exists>b. round_status s' k = Some b \<and> (b = a \<or> isLegalRoundTransition a b))"

lemma commit_moves:
  assumes "wf_db s" and "round_status s k = Some a"
  shows "moves a s (snd (transitionRound_commit E k' to d em ex s)) k"
  using assms by (auto simp: moves_def commit_eq round_status_def split: option.split)

lemma transition_moves:
  assumes "wf_db s" and "round_status s k = Some a"
  shows "moves a s (snd (transitionRound E k' to d em s)) k"
  using commit_moves [OF assms] assms
  by (auto simp: transitionRound_def m_bind_def table_eqs transition_failure_def emit_eq
      m_then_def m_throw_def moves_def round_status_def split: option.split)

lemma lock_moves:
  assumes "wf_db s" and "round_status s k = Some a"
  shows "moves a s (snd (lockRound E k' s)) k"
proof -
  have stay: "moves a s s k" using assms(2) by (simp add: moves_def)
  have "snd (lockRound E k' s) = s \<or> snd (lockRound E k' s) = snd (transitionRound E k' RS_LOCKED None True s)"
    by (auto simp: lockRound_def comp_defs table_eqs assms(1) split: option.split prod.splits sum.splits)
  with stay transition_moves [OF assms] show ?thesis by auto
qed

interpretation round_machine: lifecycle "round_step E" wf_db round_status isLegalRoundTransition
proof (unfold_locales, goal_cases)
  case (1 s x)
  then show ?case by (cases x) (simp_all add: preservesD preserves_transitionRound)
next
  case (2 s k a x)
  then show ?case
    using commit_moves [OF 2] transition_moves [OF 2] lock_moves [OF 2]
    by (cases x) (auto simp: moves_def)
qed

lemma resolved_final: "\<not> isLegalRoundTransition RS_RESOLVED b" "\<not> isLegalRoundTransition RS_CANCELLED b"
  by (cases b; simp add: isLegalRoundTransition_def)+

fun round_rank :: "RoundStatus \<Rightarrow> nat" where
  "round_rank RS_PENDING = 0"
| "round_rank RS_ACTIVE = 1"
| "round_rank RS_LOCKED = 2"
| "round_rank RS_RESOLVED = 3"
| "round_rank RS_CANCELLED = 3"

lemma legal_rank: "isLegalRoundTransition a b \<Longrightarrow> round_rank a < round_rank b"
  by (cases b) (auto simp: isLegalRoundTransition_def)

text \<open>C5. Whatever sequence of transitions, locks and late writes of stale readers runs, the status
  of a round only ever moves forward along the declared edges: the status reached is the old one or
  of higher rank, a resolved or cancelled round keeps its status for ever, and an open round is
  never resolved without passing through \<open>LOCKED\<close>.\<close>

theorem round_lifecycle_forward:
  assumes "wf_db s" and "round_status s k = Some a"
  shows "\<exists>b. round_status (foldl (round_step E) s ops) k = Some b \<and>
      isLegalRoundTransition\<^sup>*\<^sup>* a b \<and> (b = a \<or> round_rank a < round_rank b) \<and>
      (a \<in> {RS_RESOLVED, RS_CANCELLED} \<longrightarrow> b = a) \<and>
      (\<forall>op. a = RS_ACTIVE \<longrightarrow> round_status (round_step E s op) k \<noteq> Some RS_RESOLVED)"
proof -
  obtain b where b: "round_status (foldl (round_step E) s ops) k = Some b" "isLegalRoundTransition\<^sup>*\<^sup>* a b"
    using round_machine.run_path [OF assms] by blast
  moreover have "b = a \<or> round_rank a < round_rank b"
    using round_machine.monotone_run [where rank = round_rank and xs = ops and E = E, OF legal_rank assms] b(1) by auto
  moreover have "a \<in> {RS_RESOLVED, RS_CANCELLED} \<longrightarrow> b = a"
    using round_machine.terminal_run [OF assms] resolved_final b(1) by force
  moreover have "round_status (round_step E s op) k \<noteq> Some RS_RESOLVED" if "a = RS_ACTIVE" for op
    using round_machine.step_edge [OF assms, where x = op and E = E] that
    by (auto simp: isLegalRoundTransition_def)
  ultimately show ?thesis by blast
qed

definition demo_round :: "RoundStatus \<Rightarrow> round_row" where
  "demo_round st = \<lparr>r_id = ''r1'', r_mode = UP_DOWN, r_status = st, startPrice = 1, endPrice = None,
     startTime = 0, endTime = 60000, sorobanRoundId = None, isSoroban = False, poolUp = 0,
     poolDown = 0, priceRanges = JNull, r_resolvedAt = None\<rparr>"

definition demo_rounds :: "RoundStatus \<Rightarrow> unit app" where
  "demo_rounds st = (blank_app ())\<lparr>rounds := table_of r_id [demo_round st]\<rparr>"

lemma demo_rounds_wf: "wf_db (demo_rounds st)"
  unfolding demo_rounds_def by (intro rounds.upd_wf wf_table_of) (simp_all add: demo_round_def)

lemma demo_rounds_peek [simp]: "peek ''r1'' (rounds (demo_rounds st)) = Some (demo_round st)"
  by (simp add: demo_rounds_def table_of_eval demo_round_def)

theorem round_lifecycle_forward_witness:
  "\<exists>b. round_status (foldl (round_step js_arith) (demo_rounds RS_LOCKED)
     [Transition ''r1'' RS_RESOLVED (Some (2, 5)) False, Lock ''r1'', Transition ''r1'' RS_CANCELLED None True]) ''r1'' =
       Some b \<and> isLegalRoundTransition\<^sup>*\<^sup>* RS_LOCKED b"
  (is "\<exists>b. round_status (foldl _ _ ?ops) _ = _ \<and> _")
proof -
  have "round_status (demo_rounds RS_LOCKED) ''r1'' = Some RS_LOCKED"
    by (simp add: round_status_def demo_round_def)
  from round_lifecycle_forward [OF demo_rounds_wf this, of js_arith ?ops] show ?thesis by blast
qed

text \<open>C8. Settlement happens at most once: after one successful \<open>RESOLVED\<close> write, every later
  attempt to resolve the same round fails, whatever ran in between and however stale the row it had
  read.\<close>

theorem resolve_once:
  assumes "wf_db s" and "transitionRound_commit E k RS_RESOLVED d em ex s = (Inr r, s1)"
  shows "\<exists>e. fst (transitionRound_commit E k RS_RESOLVED d' em' ex'
     (foldl (round_step E) s1 ops)) = Inl (App e)"
proof -
  have s1: "wf_db s1"
    using preservesD [OF preserves_transitionRound(1) assms(1), of E k RS_RESOLVED d em ex] assms(2) by simp
  have "round_status s1 k = Some RS_RESOLVED"
    using assms by (auto simp: commit_eq round_status_def split: option.splits if_splits)
  then have "round_status (foldl (round_step E) s1 ops) k = Some RS_RESOLVED"
    using round_machine.terminal_run [OF s1] resolved_final by blast
  with round_machine.run_inv [OF s1] show ?thesis
    by (auto simp: commit_eq round_status_def resolved_final)
qed

theorem resolve_once_witness:
  "\<exists>e. fst (transitionRound_commit js_arith ''r1'' RS_RESOLVED (Some (3, 9)) False (demo_round RS_LOCKED)
     (foldl (round_step js_arith)
       (snd (transitionRound_commit js_arith ''r1'' RS_RESOLVED (Some (2, 5)) False (demo_round RS_LOCKED)
         (demo_rounds RS_LOCKED))) [Lock ''r1''])) = Inl (App e)"
proof -
  have "\<exists>r s1. transitionRound_commit js_arith ''r1'' RS_RESOLVED (Some (2, 5)) False (demo_round RS_LOCKED)
      (demo_rounds RS_LOCKED) = (Inr r, s1)"
    by (simp add: commit_eq demo_rounds_wf demo_round_def isLegalRoundTransition_def)
  then show ?thesis using resolve_once [OF demo_rounds_wf] by (metis snd_conv)
qed

end
