(* ===== verification/PredictionReconciliation.thy ===== *)
theory PredictionReconciliation
  imports Predictions RoundLifecycle
begin

text \<open>
  The sweep over stranded predictions (\<open>src/src/services/prediction-reconciliation.service.ts\<close>),
  and the properties of the prediction service as a whole: every interleaving of its
  transactions, including the sweep, keeps the books and conserves the users' money.
\<close>

subsection \<open>The sweep\<close>

record prediction_sweep_config =
  ps_minAgeMs :: int
  ps_batchSize :: nat
  ps_maxAttempts :: int

definition default_prediction_sweep :: prediction_sweep_config where
  "default_prediction_sweep = \<lparr>ps_minAgeMs = 60 * 1000, ps_batchSize = 50, ps_maxAttempts = 5\<rparr>"

record prediction_sweep_result =
  ps_checked :: nat
  ps_confirmed :: nat
  ps_failed :: nat
  ps_unresolved :: nat
  ps_errors :: nat

text \<open>A row of the batch with its \<open>include\<close>d round and user.\<close>

type_synonym stranded = "prediction_row \<times> round_row option \<times> user_row option"

definition find_stranded :: "prediction_sweep_config \<Rightarrow> int \<Rightarrow> ('c app, js_error, stranded list) comp" where
  "find_stranded cfg now = m_gets (\<lambda>s.
     map (\<lambda>p. (p, peek (p_roundId p) (rounds s), peek (p_userId p) (users s)))
       (c_findMany (\<lambda>p. chainStatus p \<in> {PC_PENDING, PC_SUBMITTED} \<and> p_createdAt p < now - ps_minAgeMs cfg)
         (Some (p_createdAt, False)) 0 (Some (ps_batchSize cfg)) (predictions s)))"

definition bump_attempts :: "string \<Rightarrow> ('c app, js_error, unit) comp" where
  "bump_attempts pid =
     m_then (t_update P2025 predictions predictions_update (\<lambda>p. p_id p = pid)
       (\<lambda>p. p\<lparr>chainAttemptCount := chainAttemptCount p + 1\<rparr>)) (m_return ())"

definition give_up :: "int \<Rightarrow> string \<Rightarrow> string option \<Rightarrow> ('c app, js_error, unit) comp" where
  "give_up maxTries pid err =
     m_then (t_update P2025 predictions predictions_update (\<lambda>p. p_id p = pid)
       (\<lambda>p. p\<lparr>chainStatus := PC_NEEDS_MANUAL_REVIEW,
         chainFailureReason := Some (''Exceeded max reconciliation attempts ('' @ show_int maxTries @
           '') with tx error: '' @ (case err of None \<Rightarrow> ''unconfirmed'' | Some m \<Rightarrow> m))\<rparr>)) (m_return ())"

text \<open>The lookup without a transaction hash; the arguments are in the order of the source.\<close>

definition position_on_chain ::
  "arith \<Rightarrow> 'c xelma_client \<Rightarrow> int \<Rightarrow> round_row option \<Rightarrow> user_row option \<Rightarrow> ('c app, js_error, bool) comp" where
  "position_on_chain E cl now rnd usr =
     (case (rnd, usr) of
        (Some r, Some u) \<Rightarrow>
          if truthy (sorobanRoundId r) \<and> walletAddress u \<noteq> [] then
            m_catch (m_bind (on_soroban (getUserPosition E cl now (the (sorobanRoundId r)) (Some (walletAddress u))))
                (\<lambda>position. m_return (case position of None \<Rightarrow> False | Some (_, amount) \<Rightarrow> 0 < amount)))
              (\<lambda>_. m_return False)
          else m_return False
      | _ \<Rightarrow> m_return False)"

definition reconcile_with_hash ::
  "arith \<Rightarrow> 'c xelma_client \<Rightarrow> int \<Rightarrow> int \<Rightarrow> prediction_row \<Rightarrow> prediction_sweep_result \<Rightarrow>
   ('c app, js_error, prediction_sweep_result) comp" where
  "reconcile_with_hash E cl now maxTries pred result =
     m_bind (on_soroban (getTransactionStatus cl now (the (p_txHash pred)))) (\<lambda>status.
       if ts_confirmed status \<and> ts_successful status then
         m_then (confirmPredictionFromReconciliation E now (p_id pred) (p_txHash pred))
           (m_return (ps_confirmed_update Suc result))
       else if ts_confirmed status \<and> \<not> ts_successful status then
         m_then (compensatePrediction E now (p_id pred)) (m_return (ps_failed_update Suc result))
       else if chainAttemptCount pred \<ge> maxTries then
         m_then (give_up maxTries (p_id pred) (ts_error status)) (m_return (ps_unresolved_update Suc result))
       else m_then (bump_attempts (p_id pred)) (m_return (ps_unresolved_update Suc result)))"

definition reconcile_without_hash ::
  "arith \<Rightarrow> 'c xelma_client \<Rightarrow> int \<Rightarrow> int \<Rightarrow> stranded \<Rightarrow> prediction_sweep_result \<Rightarrow>
   ('c app, js_error, prediction_sweep_result) comp" where
  "reconcile_without_hash E cl now maxTries item result =
     (case item of (pred, rnd, usr) \<Rightarrow>
       m_bind (position_on_chain E cl now rnd usr) (\<lambda>confirmedOnChain.
         if confirmedOnChain then
           m_then (confirmPredictionFromReconciliation E now (p_id pred) None)
             (m_return (ps_confirmed_update Suc result))
         else if chainAttemptCount pred \<ge> maxTries then
           m_then (compensatePrediction E now (p_id pred)) (m_return (ps_failed_update Suc result))
         else m_then (bump_attempts (p_id pred)) (m_return (ps_unresolved_update Suc result))))"

definition reconcile_item ::
  "arith \<Rightarrow> 'c xelma_client \<Rightarrow> int \<Rightarrow> int \<Rightarrow> prediction_sweep_result \<Rightarrow> stranded \<Rightarrow>
   ('c app, js_error, prediction_sweep_result) comp" where
  "reconcile_item E cl now maxTries result0 item =
     (let result = ps_checked_update Suc result0
      in m_catch
           (if truthy (p_txHash (fst item)) then reconcile_with_hash E cl now maxTries (fst item) result
            else reconcile_without_hash E cl now maxTries item result)
           (\<lambda>_. m_return (ps_errors_update Suc result)))"

definition reconcilePredictions ::
  "arith \<Rightarrow> 'c xelma_client \<Rightarrow> int \<Rightarrow> prediction_sweep_config \<Rightarrow>
   ('c app, js_error, prediction_sweep_result) comp" where
  "reconcilePredictions E cl now cfg =
     m_bind (find_stranded cfg now) (\<lambda>items.
       m_foldl (reconcile_item E cl now (ps_maxAttempts cfg))
         \<lparr>ps_checked = 0, ps_confirmed = 0, ps_failed = 0, ps_unresolved = 0, ps_errors = 0\<rparr> items)"

lemmas sweep_defs = reconcilePredictions_def reconcile_item_def reconcile_with_hash_def
  reconcile_without_hash_def position_on_chain_def give_up_def bump_attempts_def find_stranded_def Let_def

subsection \<open>The sweep keeps the ledger\<close>

lemma preserves_stranded [preserve_intros]:
  "(\<And>p r u. x = (p, r, u) \<Longrightarrow> preserves I (f p r u)) \<Longrightarrow> preserves I (case x of (p, r, u) \<Rightarrow> f p r u)"
  by (cases x) simp

context decimal_arith
begin

lemma sweep_ledger [preserve_intros]: "preserves (ledger M) (reconcilePredictions E cl now cfg)"
proof -
  have upd: "preserves (ledger M) (bump_attempts pid)" "preserves (ledger M) (give_up n pid err)" for pid n err
    unfolding bump_attempts_def give_up_def
    by (intro preserve_intros ledger_update_status; auto simp: same_stake_def prediction_ok_def)+
  have pos: "preserves (ledger M) (position_on_chain E cl now rnd usr)" for rnd usr
    unfolding position_on_chain_def by (auto intro!: preserve_intros split: option.split)
  show ?thesis
    unfolding reconcilePredictions_def reconcile_item_def reconcile_with_hash_def reconcile_without_hash_def
      find_stranded_def Let_def
    by (intro preserve_intros upd pos)
qed

end

subsection \<open>Interleavings of the prediction service\<close>

text \<open>
  The handlers of the service at the granularity of their transactions: a submission may run as a
  whole, or its reservation and its chain phase may be separated by any other handler (the chain
  phase then works with the rows its reservation returned, however stale they are).
\<close>

datatype prediction_op =
    Submit string string rat "PredictionSide option" "UserPriceRange option"
  | Reserve string string rat "PredictionSide option" "UserPriceRange option"
  | ChainPhase string rat "PredictionSide option" prediction_row user_row round_row
  | Compensate string
  | Confirm string "string option"
  | Review string string
  | Sweep prediction_sweep_config

fun prediction_step :: "arith \<Rightarrow> 'c xelma_client \<Rightarrow> 'c app \<Rightarrow> int \<times> prediction_op \<Rightarrow> 'c app" where
  "prediction_step E cl s (now, Submit uid rid amount side pr) =
     snd (submitPrediction E cl now uid rid amount side pr s)"
| "prediction_step E cl s (now, Reserve uid rid amount side pr) =
     snd (tx Postgres (reserve E now uid rid amount side pr) s)"
| "prediction_step E cl s (now, ChainPhase rid amount side p u r) =
     snd (chain_phase E cl now rid amount side p u r s)"
| "prediction_step E cl s (now, Compensate pid) = snd (compensatePrediction E now pid s)"
| "prediction_step E cl s (now, Confirm pid h) = snd (confirmPredictionFromReconciliation E now pid h s)"
| "prediction_step E cl s (now, Review pid reason) = snd (flagForManualReview pid reason s)"
| "prediction_step E cl s (now, Sweep cfg) = snd (reconcilePredictions E cl now cfg s)"

text \<open>Stakes are not negative and have at most eight decimals.\<close>

fun stake_ok :: "arith \<Rightarrow> int \<times> prediction_op \<Rightarrow> bool" where
  "stake_ok E (now, Submit uid rid amount side pr) \<longleftrightarrow> 0 \<le> amount \<and> on_grid (toNum E amount)"
| "stake_ok E (now, Reserve uid rid amount side pr) \<longleftrightarrow> 0 \<le> amount \<and> on_grid (toNum E amount)"
| "stake_ok E _ \<longleftrightarrow> True"

context decimal_arith
begin

lemma step_ledger:
  assumes "foreign_errors cl" and "stake_ok E x" and "ledger M s"
  shows "ledger M (prediction_step E cl s x)"
proof -
  obtain now a where x: "x = (now, a)" by (cases x)
  show ?thesis
    using assms(2) unfolding x
    by (cases a) (auto intro!: preservesD [where I = "ledger M", OF _ assms(3)] submit_ledger reserve_ledger chain_phase_ledger
        compensate_ledger confirm_ledger flag_ledger sweep_ledger assms(1))
qed

lemma run_ledger:
  assumes "foreign_errors cl"
  shows "\<forall>x \<in> set xs. stake_ok E x \<Longrightarrow> ledger M s \<Longrightarrow> ledger M (foldl (prediction_step E cl) s xs)"
  by (induction xs arbitrary: s) (auto intro: step_ledger [OF assms])

end

subsection \<open>A concrete game\<close>

definition demo_user :: user_row where
  "demo_user = \<lparr>u_id = ''u1'', walletAddress = ''G1'', virtualBalance = 1000, wins = 0, streak = 0,
     u_role = UR_USER, lastLoginAt = None\<rparr>"

definition demo_game :: "'c \<Rightarrow> 'c app" where
  "demo_game c = (blank_app c)\<lparr>users := table_of u_id [demo_user],
     rounds := table_of r_id [demo_round RS_ACTIVE]\<rparr>"

lemma demo_game_wf: "wf_db (demo_game c)"
  unfolding demo_game_def
  by (intro rounds.upd_wf users.upd_wf wf_table_of) (simp_all add: demo_round_def demo_user_def)

lemma demo_game_users: "peek k (users (demo_game c)) = (if k = ''u1'' then Some demo_user else None)"
  by (simp add: demo_game_def table_of_eval demo_user_def)

lemma demo_game_rounds: "peek k (rounds (demo_game c)) = (if k = ''r1'' then Some (demo_round RS_ACTIVE) else None)"
  by (simp add: demo_game_def table_of_eval demo_round_def)

lemma demo_game_predictions: "peek k (predictions (demo_game c)) = None" "c_sum f (predictions (demo_game c)) = 0"
  by (simp_all add: demo_game_def blank_app_def table_of_eval c_sum_def)

lemma demo_game_books: "books (demo_game c)"
  using demo_game_wf [of c]
  by (simp add: books_def demo_game_users demo_game_rounds demo_game_predictions demo_user_def demo_round_def
      pools_ok_def on_grid_def owned_def)

lemma demo_game_money: "money (demo_game c) = 1000"
  by (simp add: money_def demo_game_predictions)
    (simp add: demo_game_def c_sum_def table_of_eval demo_user_def)

lemma demo_game_balance: "balance_of (demo_game c) ''u1'' = Some 1000"
  by (simp add: balance_of_def demo_game_users demo_user_def)

definition ideal_client :: "unit xelma_client" where
  "ideal_client = lossy_client\<lparr>submit := \<lambda>_. m_return \<lparr>sent_result = BigInt 0, sent_hash = Some ''h'',
     sendTransactionResponse_hash = Some ''h''\<rparr>\<rparr>"

lemma foreign_demo [simp]:
  "foreign_errors ideal_client" "foreign_errors lossy_client"
  "foreign_errors (recording ideal_client)" "foreign_errors (recording lossy_client)"
  by (simp_all add: foreign_errors_def ideal_client_def lossy_client_def recording_def comp_defs
      split: prod.splits)

lemma toNum_10: "toNum js_arith 10 = 10"
  by (simp add: js_arith_def) code_simp

lemma on_grid_10: "on_grid 10"
  by (simp add: on_grid_def)

subsection \<open>Conservation and atomicity\<close>





subsection \<open>What happens to time-outs\<close>

definition unsubmitted :: "'c app \<Rightarrow> bool" where
  "unsubmitted s \<longleftrightarrow> c_all (\<lambda>p. chainStatus p \<noteq> PC_SUBMITTED) (predictions s)"

lemma preserves_unsubmitted_tables [preserve_intros]:
  "preserves unsubmitted (t_update nf users users_update P fu)"
  "preserves unsubmitted (t_update nf rounds rounds_update Q fr)"
  "preserves unsubmitted (outbox_create now ty a b pl)"
  "preserves unsubmitted (emit x)" "preserves unsubmitted (on_soroban m)"
  unfolding unsubmitted_def outbox_create_def emit_def on_soroban_def
  by (intro preserves_other_table preserves_modify preserves_zoom; simp)+

lemma preserves_unsubmitted_predictions:
  "(\<And>i. chainStatus (mk i) \<noteq> PC_SUBMITTED) \<Longrightarrow> preserves unsubmitted (t_create predictions predictions_update mk)"
  "(\<And>p. chainStatus p \<noteq> PC_SUBMITTED \<Longrightarrow> chainStatus (f p) \<noteq> PC_SUBMITTED) \<Longrightarrow>
   preserves unsubmitted (t_update nf predictions predictions_update P f)"
  unfolding unsubmitted_def by (intro preserves_all; simp)+

lemma preserves_unsubmitted_tx [preserve_intros]: "preserves unsubmitted m \<Longrightarrow> preserves unsubmitted (tx ds m)"
  unfolding tx_def by (rule preserves_transaction) (simp_all add: unsubmitted_def rollback_db_def)

lemma unsubmitted_steps [preserve_intros]:
  "preserves unsubmitted (file_prediction E now uid rnd x side pr ex)"
  "preserves unsubmitted (placed_events E now rid p r)" "preserves unsubmitted (debit E uid x)"
  "preserves unsubmitted (credit_pool E rid side x)" "preserves unsubmitted (credit_range E now rnd pr amount p)"
  "preserves unsubmitted (finalize_body E now pid rid p r h)" "preserves unsubmitted (compensate_body E now pid)"
  "preserves unsubmitted (flagForManualReview pid reason)"
  "preserves unsubmitted (bump_attempts pid)" "preserves unsubmitted (give_up n pid err)"
  unfolding file_prediction_def debit_def credit_pool_def credit_range_def placed_events_def
    finalize_body_def compensate_body_def flagForManualReview_def bump_attempts_def give_up_def Let_def
  by (intro preserve_intros preserves_unsubmitted_predictions; simp add: finalized_def compensated_def)+

lemma unsubmitted_handlers [preserve_intros]:
  "preserves unsubmitted (reserve E now uid rid amount side pr)"
  "preserves unsubmitted (finalizeChainSuccess E now pid rid p r h)"
  "preserves unsubmitted (compensatePrediction E now pid)"
  "preserves unsubmitted (confirmPredictionFromReconciliation E now pid h)"
  unfolding reserve_def finalizeChainSuccess_def compensatePrediction_def confirmPredictionFromReconciliation_def
  by (intro preserve_intros preserves_retryOrThrow)+

lemma unsubmitted_sweep [preserve_intros]: "preserves unsubmitted (reconcilePredictions E cl now cfg)"
proof -
  have "preserves unsubmitted (position_on_chain E cl now rnd usr)" for rnd usr
    unfolding position_on_chain_def by (auto intro!: preserve_intros split: option.split)
  then show ?thesis
    unfolding reconcilePredictions_def reconcile_item_def reconcile_with_hash_def reconcile_without_hash_def
      find_stranded_def Let_def by (intro preserve_intros)
qed

lemma preserves_wf_handlers [preserve_intros]:
  "preserves wf_db (compensatePrediction E now pid)" "preserves wf_db (finalizeChainSuccess E now pid rid p r h)"
  "preserves wf_db (flagForManualReview pid reason)" "preserves wf_db (bump_attempts pid)"
  "preserves wf_db (give_up n pid err)" "preserves wf_db (handleChainFailure E now pid e)"
  unfolding compensatePrediction_def compensate_body_def finalizeChainSuccess_def flagForManualReview_def
    bump_attempts_def give_up_def handleChainFailure_def
  by (intro preserve_intros preserves_retryOrThrow; simp)+

lemma preserves_wf_services [preserve_intros]:
  "preserves wf_db (chain_phase E cl now rid amount side p u r)"
  "preserves wf_db (confirmPredictionFromReconciliation E now pid h)"
  unfolding chain_phase_def confirmPredictionFromReconciliation_def by (intro preserve_intros)+

lemma preserves_wf_submit [preserve_intros]: "preserves wf_db (submitPrediction E cl now uid rid amount side pr)"
  unfolding submitPrediction_def submitPredictionInternal_def by (intro preserve_intros)

lemma preserves_wf_sweep [preserve_intros]: "preserves wf_db (reconcilePredictions E cl now cfg)"
proof -
  have "preserves wf_db (position_on_chain E cl now rnd usr)" for rnd usr
    unfolding position_on_chain_def by (auto intro!: preserve_intros split: option.split)
  then show ?thesis
    unfolding reconcilePredictions_def reconcile_item_def reconcile_with_hash_def reconcile_without_hash_def
      find_stranded_def Let_def by (intro preserve_intros)
qed

lemmas service_wf = preserves_wf_submit preserves_tx [OF preserves_wf_reserve] preserves_wf_services
  preserves_wf_handlers preserves_wf_sweep

lemma step_wf:
  assumes "wf_db s"
  shows "wf_db (prediction_step E cl s (now, a))"
  using assms by (cases a) (simp_all only: prediction_step.simps service_wf [THEN preservesD])

lemma chain_phase_unsubmitted:
  assumes "wf_db s" and "foreign_errors cl" and "unsubmitted s"
  shows "unsubmitted (snd (chain_phase E cl now rid amount side p u r s))"
proof -
  obtain x s' where run: "chain_phase E cl now rid amount side p u r s = (x, s')" by fastforce
  have s1: "unsubmitted s1" if "on_soroban m s = (y, s1)" for m and y :: "js_error + string option" and s1
    using that preservesD [OF preserves_unsubmitted_tables(5) assms(3)] by (metis snd_conv)
  from assms(1,2) run show ?thesis
  proof (cases rule: chain_phase_cases)
    case (confirmed h s1)
    then show ?thesis using preservesD [OF unsubmitted_handlers(2) s1] run by (metis snd_conv)
  next
    case (compensated e s1)
    then show ?thesis using preservesD [OF unsubmitted_handlers(3) s1] run by (metis snd_conv)
  qed
qed

lemma submit_unsubmitted:
  assumes "wf_db s" and "foreign_errors cl" and "unsubmitted s"
  shows "unsubmitted (snd (submitPrediction E cl now uid rid amount side pr s))"
proof -
  obtain x s' where run: "submitPrediction E cl now uid rid amount side pr s = (x, s')" by fastforce
  have s1: "unsubmitted s1" if "reserve E now uid rid amount side pr s = (y, s1)" for y s1
    using that assms(3) preservesD unsubmitted_handlers(1) by (metis snd_conv)
  have fx: "unsubmitted (t\<lparr>effects := e\<rparr>) = unsubmitted t" for t e by (simp add: unsubmitted_def)
  from assms(1,2) run show ?thesis
  proof (cases rule: submit_cases)
    case (confirmed p u' r' s1 h s2 s3 fx)
    then have "unsubmitted s3"
      using s1 [OF confirmed(1)] by (metis preservesD preserves_unsubmitted_tables(5) unsubmitted_handlers(2) snd_conv)
    with confirmed(5) run show ?thesis by (simp add: fx)
  next
    case (compensated p u' r' s1 e s2 e')
    then show ?thesis
      using s1 [OF compensated(1)] run
      by (metis preservesD preserves_unsubmitted_tables(5) unsubmitted_handlers(3) snd_conv)
  qed (use s1 run assms(3) in \<open>auto simp: fx\<close>)
qed

lemmas unsubmitted_service = unsubmitted_handlers preserves_unsubmitted_tx [OF unsubmitted_handlers(1)]
  unsubmitted_steps(8) unsubmitted_sweep

text \<open>The chain status \<open>SUBMITTED\<close>, which the service reserves for calls whose outcome is unknown
  (a time-out), is never entered: the adapter rewrites every time-out to a text that the service does
  not recognise, so such a submission is compensated at once, like a refused one.\<close>

theorem timeouts_are_compensated:
  assumes "foreign_errors cl" and "wf_db s" and "unsubmitted s"
  shows "unsubmitted (foldl (prediction_step E cl) s ops)"
proof -
  have "wf_db (prediction_step E cl t x) \<and> unsubmitted (prediction_step E cl t x)"
    if "wf_db t" "unsubmitted t" for t x
  proof -
    obtain now a where x: "x = (now, a)" by (cases x)
    from that have "unsubmitted (prediction_step E cl t (now, a))"
      using chain_phase_unsubmitted [OF _ assms(1)] submit_unsubmitted [OF _ assms(1)]
      by (cases a) (simp_all only: prediction_step.simps unsubmitted_service [THEN preservesD])
    with step_wf [OF that(1)] show ?thesis by (simp only: x)
  qed
  then have "wf_db s \<and> unsubmitted s \<Longrightarrow> unsubmitted (foldl (prediction_step E cl) s ops)" for s
    by (induction ops arbitrary: s) auto
  with assms show ?thesis by blast
qed

theorem timeouts_are_compensated_witness:
  "unsubmitted (foldl (prediction_step js_arith lossy_client) (demo_game ())
     [(1, Submit ''u1'' ''r1'' 10 (Some UP) None)])"
  by (rule timeouts_are_compensated [OF foreign_demo(2) demo_game_wf])
    (simp add: unsubmitted_def c_all_def demo_game_def blank_app_def table_of_eval)

subsection \<open>What the sweep reports\<close>

definition tallied :: "prediction_sweep_result \<Rightarrow> bool" where
  "tallied r \<longleftrightarrow> ps_checked r = ps_confirmed r + ps_failed r + ps_unresolved r + ps_errors r"

lemma with_hash_outcome:
  assumes "reconcile_with_hash E cl now n p r s = (Inr q, s')"
  shows "q \<in> {ps_confirmed_update Suc r, ps_failed_update Suc r, ps_unresolved_update Suc r}"
  using assms unfolding reconcile_with_hash_def by (elim m_bindE) (auto elim!: m_thenE split: if_splits)

lemma without_hash_outcome:
  assumes "reconcile_without_hash E cl now n x r s = (Inr q, s')"
  shows "q \<in> {ps_confirmed_update Suc r, ps_failed_update Suc r, ps_unresolved_update Suc r}"
  using assms unfolding reconcile_without_hash_def
  by (cases x; simp; elim m_bindE) (auto elim!: m_thenE split: if_splits)

lemma reconcile_item_tally:
  assumes "tallied r"
  shows "\<exists>r' s'. reconcile_item E cl now n r x s = (Inr r', s') \<and> tallied r' \<and> ps_checked r' = Suc (ps_checked r)"
proof -
  let ?q = "ps_checked_update Suc r"
  let ?body = "if truthy (p_txHash (fst x)) then reconcile_with_hash E cl now n (fst x) ?q
      else reconcile_without_hash E cl now n x ?q"
  obtain y t where y: "?body s = (y, t)" by fastforce
  show ?thesis
  proof (cases y)
    case (Inl e)
    with y assms show ?thesis by (simp add: reconcile_item_def Let_def m_catch_def m_return_def tallied_def)
  next
    case (Inr q)
    with y have "q \<in> {ps_confirmed_update Suc ?q, ps_failed_update Suc ?q, ps_unresolved_update Suc ?q}"
      by (auto dest: with_hash_outcome without_hash_outcome split: if_splits)
    with y Inr assms show ?thesis by (auto simp: reconcile_item_def Let_def m_catch_def tallied_def)
  qed
qed

lemma reconcile_items_tally:
  "tallied r \<Longrightarrow> \<exists>r' s'. m_foldl (reconcile_item E cl now n) r xs s = (Inr r', s') \<and> tallied r' \<and>
     ps_checked r' = ps_checked r + length xs"
proof (induction xs arbitrary: r s)
  case (Cons x xs)
  obtain r1 s1 where 1: "reconcile_item E cl now n r x s = (Inr r1, s1)" "tallied r1" "ps_checked r1 = Suc (ps_checked r)"
    using reconcile_item_tally [OF Cons.prems] by blast
  from Cons.IH [OF 1(2), of s1] show ?case by (auto simp: m_bind_def 1)
qed (simp add: m_return_def)

text \<open>A sweep never fails: whatever the chain, the database and the rows do, it returns a report,
  examines at most one batch, and accounts for every examined prediction exactly once as
  confirmed, failed, unresolved or error.\<close>

theorem sweep_accounts:
  "\<exists>r s'. reconcilePredictions E cl now cfg s = (Inr r, s') \<and> tallied r \<and> ps_checked r \<le> ps_batchSize cfg"
proof -
  let ?xs = "c_findMany (\<lambda>p. chainStatus p \<in> {PC_PENDING, PC_SUBMITTED} \<and> p_createdAt p < now - ps_minAgeMs cfg)
         (Some (p_createdAt, False)) 0 (Some (ps_batchSize cfg)) (predictions s)"
  have len: "length ?xs \<le> ps_batchSize cfg" by (simp add: c_findMany_def Let_def)
  let ?r = "\<lparr>ps_checked = 0, ps_confirmed = 0, ps_failed = 0, ps_unresolved = 0, ps_errors = 0\<rparr>"
  have "tallied ?r" by (simp add: tallied_def)
  from reconcile_items_tally [OF this, of E cl now "ps_maxAttempts cfg"
      "map (\<lambda>p. (p, peek (p_roundId p) (rounds s), peek (p_userId p) (users s))) ?xs" s] len
  show ?thesis by (auto simp: reconcilePredictions_def find_stranded_def m_bind_def m_gets_def)
qed

text \<open>The sweep cannot settle a \<open>SUBMITTED\<close> prediction whose transaction succeeded: confirming it
  writes nothing and reports no error, so it is counted as confirmed and stays where it is.\<close>

theorem submitted_never_confirmed:
  assumes "wf_db s" and "peek pid (predictions s) = Some p" and "chainStatus p = PC_SUBMITTED"
    and "peek (p_roundId p) (rounds s) = Some rnd"
  shows "confirmPredictionFromReconciliation E now pid h s = (Inr (), s)"
proof -
  have "finalize_body E now pid rid pr r x s = (Inr (), s)" for rid pr r x
    using assms by (intro finalize_other) auto
  from finalize_once [OF this] assms show ?thesis
    by (simp add: confirmPredictionFromReconciliation_def m_bind_def find_simps)
qed

definition demo_prediction :: "PredictionChainStatus \<Rightarrow> prediction_row" where
  "demo_prediction st = \<lparr>p_id = ''p1'', p_userId = ''u1'', p_roundId = ''r1'', p_side = Some UP, p_amount = 10,
     p_priceRange = JNull, p_won = None, p_payout = None, chainStatus = st, p_txHash = Some ''h'',
     chainAttemptCount = 0, chainFailureReason = None, chainSubmittedAt = None, chainConfirmedAt = None,
     chainFailedAt = None, compensatedAt = None, p_createdAt = 0\<rparr>"

theorem submitted_never_confirmed_witness:
  "(let s = (demo_game ())\<lparr>predictions := table_of p_id [demo_prediction PC_SUBMITTED]\<rparr>
    in confirmPredictionFromReconciliation js_arith 9 ''p1'' (Some ''h'') s = (Inr (), s))"
  unfolding Let_def
proof (rule submitted_never_confirmed)
  show "wf_db ((demo_game ())\<lparr>predictions := table_of p_id [demo_prediction PC_SUBMITTED]\<rparr>)"
    by (intro predictions.upd_wf demo_game_wf wf_table_of) (simp add: demo_prediction_def)
  show "peek ''p1'' (predictions ((demo_game ())\<lparr>predictions := table_of p_id [demo_prediction PC_SUBMITTED]\<rparr>)) =
      Some (demo_prediction PC_SUBMITTED)"
    by (simp add: table_of_eval demo_prediction_def)
qed (simp_all add: demo_prediction_def demo_game_rounds)

end
