(* ===== verification/Bets.thy ===== *)
theory Bets
  imports Schema RoundLifecycle
begin

text \<open>
  Bets and claims (\<open>src/src/services/bet.service.ts\<close>, class \<open>BetService\<close>).

  A bet is recorded, sent to the chain and reported in one database transaction; confirmation,
  resolution and failure are transactions of their own, each with the outbox event that announces
  it.  A claim is a row of the claim ledger around one chain call, without a transaction.
  \<open>ds\<close> selects the data store and \<open>stub\<close> is \<open>BET_STUB_MODE\<close>.  The audit service is an
  effect that carries the event's name and the bet or wallet.
\<close>

subsection \<open>Placing a bet\<close>

record bet_result =
  bt_state :: string
  bt_txHash :: "string option"
  bt_betId :: string
  bt_status :: BetStatus

fun mode_name :: "GameMode \<Rightarrow> string" where
  "mode_name UP_DOWN = ''UP_DOWN''"
| "mode_name LEGENDS = ''LEGENDS''"

definition resolveRoundId :: "GameMode \<Rightarrow> string option \<Rightarrow> ('c app, js_error, string option) comp" where
  "resolveRoundId gameMode requested =
     (if truthy requested then
        m_bind (t_find rounds (\<lambda>r. r_id r = the requested)) (\<lambda>found.
          case found of
            None \<Rightarrow> m_throw (App (NotFoundError (''Round '' @ the requested @ '' not found'')))
          | Some rnd \<Rightarrow>
              if r_mode rnd \<noteq> gameMode then
                m_throw (App (ValidationError (''Round '' @ the requested @ '' is a '' @
                  mode_name (r_mode rnd) @ '' round and does not accept '' @ mode_name gameMode @ '' bets'')))
              else m_return (Some (r_id rnd)))
      else m_gets (\<lambda>s. map_option r_id
        (c_findFirst (\<lambda>r. r_mode r = gameMode \<and> r_status r = RS_ACTIVE) (Some (startTime, True)) (rounds s))))"

definition new_user :: "string \<Rightarrow> string \<Rightarrow> user_row" where
  "new_user address i = \<lparr>u_id = i, walletAddress = address, virtualBalance = 1000, wins = 0, streak = 0,
     u_role = UR_USER, lastLoginAt = None\<rparr>"

definition getOrCreateUserId :: "string \<Rightarrow> ('c app, js_error, string) comp" where
  "getOrCreateUserId address =
     m_bind (t_find users (\<lambda>u. walletAddress u = address)) (\<lambda>found.
       case found of
         Some user \<Rightarrow> m_return (u_id user)
       | None \<Rightarrow> m_bind (t_create users users_update (new_user address)) (\<lambda>user. m_return (u_id user)))"

definition new_bet ::
  "arith \<Rightarrow> int \<Rightarrow> string \<Rightarrow> string option \<Rightarrow> BetMode \<Rightarrow> PredictionSide option \<Rightarrow> rat \<Rightarrow> rat option \<Rightarrow> string \<Rightarrow> bet_row" where
  "new_bet E now uid rid mode side amount price i = \<lparr>b_id = i, b_userId = uid, b_roundId = rid, b_mode = mode,
     b_side = side, b_amount = col E (toDecimal amount), predictedPrice = map_option (\<lambda>p. col E (toDecimal p)) price,
     b_status = BS_ACCEPTED, b_txHash = None, failureReason = None, submittedAt = None,
     confirmedAt = None, b_resolvedAt = None, failedAt = None, b_createdAt = now\<rparr>"

definition submitted_bet :: "int \<Rightarrow> string option \<Rightarrow> bet_row \<Rightarrow> bet_row" where
  "submitted_bet now txHash b =
     (if truthy txHash then b\<lparr>b_status := BS_SUBMITTED, b_txHash := txHash, submittedAt := Some now\<rparr>
      else b\<lparr>b_status := BS_SUBMITTED, submittedAt := Some now\<rparr>)"

definition failed_bet :: "int \<Rightarrow> string \<Rightarrow> bet_row \<Rightarrow> bet_row" where
  "failed_bet now reason b = b\<lparr>b_status := BS_FAILED, failureReason := Some reason, failedAt := Some now\<rparr>"

text \<open>The \<open>try\<close>/\<open>catch\<close> around the chain call; \<open>call\<close> is \<open>placeBet\<close> or \<open>placePrecisionBet\<close>.\<close>

definition send_bet ::
  "int \<Rightarrow> bet_row \<Rightarrow> ('c app, js_error, string option) comp \<Rightarrow> ('c app, js_error, string option) comp" where
  "send_bet now bet call =
     m_catch
       (m_bind call (\<lambda>txHash.
         m_then (t_update P2025 bets bets_update (\<lambda>b. b_id b = b_id bet) (submitted_bet now txHash))
           (m_return txHash)))
       (\<lambda>error.
         m_then (t_update P2025 bets bets_update (\<lambda>b. b_id b = b_id bet) (failed_bet now (message_of error)))
         (m_then (outbox_create now OE_BET_FAILED (b_id bet) ''bet''
           (BetFailedPayload (b_id bet) (b_userId bet) (b_roundId bet) (b_mode bet) (message_of error)))
         (m_throw error)))"

definition record_body ::
  "arith \<Rightarrow> bool \<Rightarrow> int \<Rightarrow> GameMode \<Rightarrow> BetMode \<Rightarrow> string \<Rightarrow> rat \<Rightarrow> PredictionSide option \<Rightarrow> rat option \<Rightarrow>
   string option \<Rightarrow> ('c app, js_error, string option) comp \<Rightarrow>
   ('c app, js_error, bet_row option \<times> BetStatus \<times> string option) comp" where
  "record_body E stub now gameMode mode address amount side price requested call =
     m_bind (resolveRoundId gameMode requested) (\<lambda>rid.
     m_bind (getOrCreateUserId address) (\<lambda>uid.
     m_bind (t_create bets bets_update (new_bet E now uid rid mode side amount price)) (\<lambda>bet.
     m_bind (if stub then m_return None else send_bet now bet call) (\<lambda>txHash.
     m_then (outbox_create now OE_BET_ACCEPTED (b_id bet) ''bet''
       (BetAcceptedPayload (b_id bet) (b_userId bet) (b_roundId bet) mode side amount price
         (if stub then ''stub'' else ''accepted'') txHash))
     (m_bind (t_find bets (\<lambda>b. b_id b = b_id bet)) (\<lambda>finalBet.
       m_return (finalBet, if stub then BS_ACCEPTED else BS_SUBMITTED, txHash)))))))"

definition report_bet ::
  "bool \<Rightarrow> bet_row option \<times> BetStatus \<times> string option \<Rightarrow> ('c app, js_error, bet_result) comp" where
  "report_bet stub result =
     (case result of
        (None, _, _) \<Rightarrow> m_throw (JsError ''Cannot read properties of null'')
      | (Some bet, status, txHash) \<Rightarrow>
          m_then (emit (Audit ''BET_ACCEPTED'' (b_id bet)))
            (m_return \<lparr>bt_state = (if stub then ''stub'' else ''on-chain-success''), bt_txHash = txHash,
               bt_betId = b_id bet, bt_status = status\<rparr>))"

definition recordUpDownBet ::
  "data_store \<Rightarrow> arith \<Rightarrow> 'c xelma_client \<Rightarrow> bool \<Rightarrow> int \<Rightarrow> string \<Rightarrow> rat \<Rightarrow> PredictionSide \<Rightarrow> string option \<Rightarrow>
   ('c app, js_error, bet_result) comp" where
  "recordUpDownBet ds E cl stub now address amount side requested =
     m_bind (tx ds (record_body E stub now UP_DOWN BM_UP_DOWN address amount (Some side) None requested
         (on_soroban (placeBet E cl now address amount (toChainSide side)))))
       (report_bet stub)"

definition recordPrecisionBet ::
  "data_store \<Rightarrow> arith \<Rightarrow> 'c xelma_client \<Rightarrow> bool \<Rightarrow> int \<Rightarrow> string \<Rightarrow> rat \<Rightarrow> rat \<Rightarrow> string option \<Rightarrow>
   ('c app, js_error, bet_result) comp" where
  "recordPrecisionBet ds E cl stub now address amount price requested =
     m_bind (tx ds (record_body E stub now LEGENDS BM_PRECISION address amount None (Some price) requested
         (on_soroban (placePrecisionBet E cl now address amount price))))
       (report_bet stub)"

subsection \<open>Confirming, resolving and failing a bet\<close>

definition mapBet :: "arith \<Rightarrow> bet_row \<Rightarrow> bet_row" where
  "mapBet E b = b\<lparr>b_amount := toNumber E (Some (b_amount b)),
     predictedPrice := map_option (\<lambda>p. toNumber E (Some p)) (predictedPrice b)\<rparr>"

definition confirmed_bet :: "int \<Rightarrow> string \<Rightarrow> bet_row \<Rightarrow> bet_row" where
  "confirmed_bet now txHash b = b\<lparr>b_status := BS_CONFIRMED, b_txHash := Some txHash,
     submittedAt := (case submittedAt b of None \<Rightarrow> Some now | Some t \<Rightarrow> Some t),
     confirmedAt := Some now, failureReason := None, failedAt := None\<rparr>"

definition reconcile_body :: "int \<Rightarrow> string \<Rightarrow> string \<Rightarrow> ('c app, js_error, bet_row option) comp" where
  "reconcile_body now betId txHash =
     m_bind (t_find bets (\<lambda>b. b_id b = betId)) (\<lambda>found.
       case found of
         None \<Rightarrow> m_return None
       | Some bet \<Rightarrow>
           if b_status bet = BS_CONFIRMED \<and> b_txHash bet = Some txHash then m_return (Some bet)
           else if b_status bet = BS_RESOLVED then m_return (Some bet)
           else
             m_bind (t_update P2025 bets bets_update (\<lambda>b. b_id b = betId) (confirmed_bet now txHash)) (\<lambda>updated.
             m_then (outbox_create now OE_BET_CONFIRMED betId ''bet''
               (BetConfirmedPayload (b_id updated) (b_userId updated) (b_roundId updated) (b_mode updated) txHash))
             (m_return (Some updated))))"

definition reconcileBet ::
  "data_store \<Rightarrow> arith \<Rightarrow> int \<Rightarrow> string \<Rightarrow> string \<Rightarrow> ('c app, js_error, bet_row option) comp" where
  "reconcileBet ds E now betId txHash =
     m_bind (tx ds (reconcile_body now betId txHash)) (\<lambda>bet.
       case bet of
         None \<Rightarrow> m_return None
       | Some b \<Rightarrow> m_then (emit (Audit ''BET_RECONCILED'' (b_id b))) (m_return (Some (mapBet E b))))"

definition getBet :: "arith \<Rightarrow> string \<Rightarrow> ('c app, js_error, bet_row option) comp" where
  "getBet E betId = m_bind (t_find bets (\<lambda>b. b_id b = betId)) (\<lambda>bet. m_return (map_option (mapBet E) bet))"

text \<open>An absent field of the query does not restrict the result.\<close>

definition getBets ::
  "arith \<Rightarrow> string option \<Rightarrow> string option \<Rightarrow> BetStatus option \<Rightarrow> ('c app, js_error, bet_row list) comp" where
  "getBets E quid qrid qst = m_gets (\<lambda>s. map (mapBet E)
     (c_findMany (\<lambda>b. (case quid of None \<Rightarrow> True | Some u \<Rightarrow> b_userId b = u) \<and>
          (case qrid of None \<Rightarrow> True | Some r \<Rightarrow> b_roundId b = Some r) \<and>
          (case qst of None \<Rightarrow> True | Some st \<Rightarrow> b_status b = st))
       (Some (b_createdAt, True)) 0 None (bets s)))"

definition getReconciliationSummary :: "('c app, js_error, (BetStatus \<times> nat) list) comp" where
  "getReconciliationSummary = m_gets (\<lambda>s.
     foldl (\<lambda>summary (st, n). AList.update st n summary)
       [(BS_ACCEPTED, 0), (BS_SUBMITTED, 0), (BS_CONFIRMED, 0), (BS_RESOLVED, 0), (BS_FAILED, 0)]
       (c_groupBy b_status (bets s)))"

definition resolved_bet :: "int \<Rightarrow> bet_row \<Rightarrow> bet_row" where
  "resolved_bet now b = b\<lparr>b_status := BS_RESOLVED, b_resolvedAt := Some now\<rparr>"

definition resolve_body :: "int \<Rightarrow> string \<Rightarrow> bool \<Rightarrow> rat \<Rightarrow> ('c app, js_error, bet_row option) comp" where
  "resolve_body now betId won payout =
     m_bind (t_find bets (\<lambda>b. b_id b = betId)) (\<lambda>found.
       case found of
         None \<Rightarrow> m_return None
       | Some bet \<Rightarrow>
           if b_status bet = BS_RESOLVED then m_return (Some bet)
           else
             m_bind (t_update P2025 bets bets_update (\<lambda>b. b_id b = betId) (resolved_bet now)) (\<lambda>updated.
             m_then (outbox_create now OE_BET_RESOLVED betId ''bet''
               (BetResolvedPayload (b_id updated) (b_userId updated)
                 (case b_roundId updated of None \<Rightarrow> [] | Some r \<Rightarrow> r) (b_mode updated) won payout))
             (m_return (Some updated))))"

definition resolveBet ::
  "data_store \<Rightarrow> arith \<Rightarrow> int \<Rightarrow> string \<Rightarrow> bool \<Rightarrow> rat \<Rightarrow> ('c app, js_error, bet_row option) comp" where
  "resolveBet ds E now betId won payout =
     m_bind (tx ds (resolve_body now betId won payout)) (\<lambda>bet. m_return (map_option (mapBet E) bet))"

definition fail_body :: "int \<Rightarrow> string \<Rightarrow> string \<Rightarrow> ('c app, js_error, bet_row option) comp" where
  "fail_body now betId reason =
     m_bind (t_find bets (\<lambda>b. b_id b = betId)) (\<lambda>found.
       case found of
         None \<Rightarrow> m_return None
       | Some bet \<Rightarrow>
           if b_status bet = BS_FAILED then m_return (Some bet)
           else if b_status bet = BS_RESOLVED then m_return (Some bet)
           else
             m_bind (t_update P2025 bets bets_update (\<lambda>b. b_id b = betId) (failed_bet now reason)) (\<lambda>updated.
             m_then (outbox_create now OE_BET_FAILED betId ''bet''
               (BetFailedPayload (b_id updated) (b_userId updated) (b_roundId updated) (b_mode updated) reason))
             (m_return (Some updated))))"

definition failBet ::
  "data_store \<Rightarrow> arith \<Rightarrow> int \<Rightarrow> string \<Rightarrow> string \<Rightarrow> ('c app, js_error, bet_row option) comp" where
  "failBet ds E now betId reason =
     m_bind (tx ds (fail_body now betId reason)) (\<lambda>bet.
       case bet of
         None \<Rightarrow> m_return None
       | Some b \<Rightarrow> m_then (emit (Audit ''BET_FAILED'' (b_id b))) (m_return (Some (mapBet E b))))"

subsection \<open>Claiming winnings\<close>

record claim_outcome =
  co_state :: string
  co_amount :: rat
  co_txHash :: "string option"

definition open_claim :: "string \<Rightarrow> claim_row \<Rightarrow> bool" where
  "open_claim address c \<longleftrightarrow>
     c_walletAddress c = address \<and> c_status c \<in> {CS_PENDING, CS_SUBMITTED, CS_FAILED}"

definition new_claim ::
  "int \<Rightarrow> string \<Rightarrow> ClaimStatus \<Rightarrow> string option \<Rightarrow> rat option \<Rightarrow> int \<Rightarrow> string option \<Rightarrow> string \<Rightarrow> claim_row" where
  "new_claim now address st txHash amount tries err i = \<lparr>c_id = i, c_userId = None, c_walletAddress = address,
     c_amount = amount, c_status = st, c_txHash = txHash, c_attempts = tries, c_lastError = err,
     claimedAt = None, c_createdAt = now, c_updatedAt = now\<rparr>"

definition recordClaimSubmission ::
  "arith \<Rightarrow> int \<Rightarrow> string \<Rightarrow> claim_result \<Rightarrow> string option \<Rightarrow> ('c app, js_error, unit) comp" where
  "recordClaimSubmission E now address result existing =
     (if truthy existing then
        m_then (t_updateMany claims claims_update
            (\<lambda>c. c_id c = the existing \<and> c_status c \<in> {CS_PENDING, CS_FAILED})
            (\<lambda>c. c\<lparr>c_status := CS_SUBMITTED,
               c_txHash := (case cr_txHash result of None \<Rightarrow> c_txHash c | Some h \<Rightarrow> Some h),
               c_amount := Some (col E (cr_amount result)), c_lastError := None, c_updatedAt := now\<rparr>))
          (m_return ())
      else
        m_then (t_create claims claims_update (new_claim now address CS_SUBMITTED (cr_txHash result)
            (Some (col E (cr_amount result))) 0 None))
          (m_return ()))"

definition recordClaimFailure ::
  "int \<Rightarrow> string \<Rightarrow> js_error \<Rightarrow> string option \<Rightarrow> ('c app, js_error, unit) comp" where
  "recordClaimFailure now address error existing =
     (let text = take 1000 (message_of error)
      in if truthy existing then
        m_then (t_updateMany claims claims_update
            (\<lambda>c. c_id c = the existing \<and> c_status c \<in> {CS_PENDING, CS_FAILED})
            (\<lambda>c. c\<lparr>c_status := CS_FAILED, c_attempts := c_attempts c + 1, c_lastError := Some text,
               c_updatedAt := now\<rparr>))
          (m_return ())
      else
        m_then (t_create claims claims_update (new_claim now address CS_FAILED None None 1 (Some text)))
          (m_return ()))"

definition claim_on_chain ::
  "arith \<Rightarrow> 'c xelma_client \<Rightarrow> int \<Rightarrow> string \<Rightarrow> string option \<Rightarrow> ('c app, js_error, claim_outcome) comp" where
  "claim_on_chain E cl now address existing =
     m_catch
       (m_bind (on_soroban (Soroban.claimWinnings E cl now address)) (\<lambda>result.
         m_then (recordClaimSubmission E now address result existing)
         (m_then (emit (Metric ''payout_claims_submitted_total''))
         (m_return \<lparr>co_state = ''on-chain-success'', co_amount = cr_amount result, co_txHash = cr_txHash result\<rparr>))))
       (\<lambda>error. m_then (recordClaimFailure now address error existing) (m_throw error))"

definition claimWinnings ::
  "arith \<Rightarrow> 'c xelma_client \<Rightarrow> bool \<Rightarrow> int \<Rightarrow> string \<Rightarrow> ('c app, js_error, claim_outcome) comp" where
  "claimWinnings E cl stub now address =
     m_bind
       (if stub then m_return \<lparr>co_state = ''stub'', co_amount = 0, co_txHash = None\<rparr>
        else
          m_bind (m_gets (\<lambda>s. c_findFirst (open_claim address) (Some (c_createdAt, False)) (claims s))) (\<lambda>openClaim.
            case openClaim of
              Some c \<Rightarrow>
                if c_status c = CS_SUBMITTED then
                  m_return \<lparr>co_state = ''already-submitted'', co_amount = toNumber E (c_amount c), co_txHash = c_txHash c\<rparr>
                else claim_on_chain E cl now address (Some (c_id c))
            | None \<Rightarrow> claim_on_chain E cl now address None))
       (\<lambda>result. m_then (emit (Audit ''CLAIM_ACCEPTED'' address)) (m_return result))"

subsection \<open>Outbox rows and the state after one step of a bet\<close>

definition event_row ::
  "int \<Rightarrow> OutboxEventType \<Rightarrow> string \<Rightarrow> string \<Rightarrow> outbox_payload \<Rightarrow> string \<Rightarrow> outbox_row" where
  "event_row now ty aggId aggType payload i = \<lparr>o_id = i, o_eventType = ty, o_aggregateId = aggId,
     o_aggregateType = aggType, o_payload = payload, o_status = OS_PENDING, o_attempts = 0,
     o_lastError = None, o_createdAt = now, o_updatedAt = now, o_processedAt = None\<rparr>"

lemma outbox_create_event:
  "outbox_create now ty a b p = t_create outboxEvents outboxEvents_update (event_row now ty a b p)"
  by (simp add: outbox_create_def event_row_def [abs_def])

lemma event_row_fields [simp]:
  "o_id (event_row now ty a b p i) = i" "o_eventType (event_row now ty a b p i) = ty"
  "o_aggregateId (event_row now ty a b p i) = a" "o_status (event_row now ty a b p i) = OS_PENDING"
  "o_payload (event_row now ty a b p i) = p"
  by (simp_all add: event_row_def)

definition logged :: "int \<Rightarrow> OutboxEventType \<Rightarrow> string \<Rightarrow> outbox_payload \<Rightarrow> 'c app \<Rightarrow> 'c app" where
  "logged now ty k p s = s\<lparr>outboxEvents := snd (c_create (event_row now ty k ''bet'' p) (outboxEvents s))\<rparr>"

lemma logged_frame [simp]:
  "bets (logged now ty k p s) = bets s" "users (logged now ty k p s) = users s"
  "rounds (logged now ty k p s) = rounds s" "predictions (logged now ty k p s) = predictions s"
  "claims (logged now ty k p s) = claims s" "soroban (logged now ty k p s) = soroban s"
  "effects (logged now ty k p s) = effects s"
  "outboxEvents (logged now ty k p s) = snd (c_create (event_row now ty k ''bet'' p) (outboxEvents s))"
  by (simp_all add: logged_def)

lemma logged_wf: "wf_db s \<Longrightarrow> wf_db (logged now ty k p s)"
  unfolding logged_def by (rule outbox.create_wf) simp_all

lemma outbox_create_logged:
  "\<exists>r. outbox_create now ty k ''bet'' p s = (Inr r, logged now ty k p s)"
  by (simp add: outbox_create_event outbox.create_eq logged_def)

lemma then_logged: "m_then (outbox_create now ty k ''bet'' p) n s = n (logged now ty k p s)"
  using outbox_create_logged [of now ty k p s] by (auto simp: m_then_def m_bind_def)

text \<open>The three transactions on an existing bet have one shape: skip, or update and announce.\<close>

definition bet_step ::
  "int \<Rightarrow> string \<Rightarrow> (bet_row \<Rightarrow> bool) \<Rightarrow> (bet_row \<Rightarrow> bet_row) \<Rightarrow> OutboxEventType \<Rightarrow> (bet_row \<Rightarrow> outbox_payload) \<Rightarrow>
   ('c app, js_error, bet_row option) comp" where
  "bet_step now k skip f ty mk =
     m_bind (t_find bets (\<lambda>b. b_id b = k)) (\<lambda>found.
       case found of None \<Rightarrow> m_return None
       | Some bet \<Rightarrow> if skip bet then m_return (Some bet)
           else m_bind (t_update P2025 bets bets_update (\<lambda>b. b_id b = k) f) (\<lambda>updated.
             m_then (outbox_create now ty k ''bet'' (mk updated)) (m_return (Some updated))))"

lemma bodies_bet_step:
  "reconcile_body now k h = bet_step now k
     (\<lambda>b. b_status b = BS_CONFIRMED \<and> b_txHash b = Some h \<or> b_status b = BS_RESOLVED) (confirmed_bet now h)
     OE_BET_CONFIRMED (\<lambda>u. BetConfirmedPayload (b_id u) (b_userId u) (b_roundId u) (b_mode u) h)"
  "resolve_body now k won payout = bet_step now k (\<lambda>b. b_status b = BS_RESOLVED) (resolved_bet now)
     OE_BET_RESOLVED (\<lambda>u. BetResolvedPayload (b_id u) (b_userId u)
       (case b_roundId u of None \<Rightarrow> [] | Some r \<Rightarrow> r) (b_mode u) won payout)"
  "fail_body now k reason = bet_step now k (\<lambda>b. b_status b = BS_FAILED \<or> b_status b = BS_RESOLVED)
     (failed_bet now reason) OE_BET_FAILED
     (\<lambda>u. BetFailedPayload (b_id u) (b_userId u) (b_roundId u) (b_mode u) reason)"
  by (auto simp: reconcile_body_def resolve_body_def fail_body_def bet_step_def intro!: arg_cong2 [of _ _ _ _ m_bind]
      split: option.split)

lemma bet_updates [simp]:
  "b_id (confirmed_bet now h b) = b_id b" "b_status (confirmed_bet now h b) = BS_CONFIRMED"
  "b_id (resolved_bet now b) = b_id b" "b_status (resolved_bet now b) = BS_RESOLVED"
  "b_id (failed_bet now reason b) = b_id b" "b_status (failed_bet now reason b) = BS_FAILED"
  "b_id (submitted_bet now txh b) = b_id b" "b_status (submitted_bet now txh b) = BS_SUBMITTED"
  "b_userId (submitted_bet now txh b) = b_userId b" "b_amount (submitted_bet now txh b) = b_amount b"
  by (simp_all add: confirmed_bet_def resolved_bet_def failed_bet_def submitted_bet_def)

lemma bet_step_eq:
  fixes s :: "'c app"
  assumes wf: "wf_db s" and f: "\<And>b. b_id (f b) = b_id b"
  shows "bet_step now k skip f ty mk s =
    (case peek k (bets s) of
       None \<Rightarrow> (Inr None, s)
     | Some b \<Rightarrow> if skip b then (Inr (Some b), s)
         else (Inr (Some (f b)), logged now ty k (mk (f b)) (s\<lparr>bets := c_set k (f b) (bets s)\<rparr>)))"
  by (simp add: bet_step_def m_bind_def find_simps wf bets.update_id f m_return_def then_logged
      split: option.split)

lemma bet_step_wf:
  assumes "wf_db s" and "\<And>b. b_id (f b) = b_id b"
  shows "wf_db (snd (bet_step now k skip f ty mk s))"
proof -
  have "wf_db (s\<lparr>bets := c_set k (f b) (bets s)\<rparr>)" if "peek k (bets s) = Some b" for b
    using bets.set_wf [OF assms(1) that] bets.peek_id [OF assms(1) that] assms(2) by simp
  with assms show ?thesis by (auto simp: bet_step_eq intro: logged_wf split: option.split)
qed

text \<open>The body never throws, so both data stores commit it.\<close>

lemma bet_step_tx:
  assumes "wf_db s" and "\<And>b. b_id (f b) = b_id b"
  shows "tx ds (bet_step now k skip f ty mk) s = bet_step now k skip f ty mk s"
proof -
  have "\<exists>r s'. bet_step now k skip f ty mk s = (Inr r, s')"
    using assms by (auto simp: bet_step_eq split: option.split)
  then show ?thesis by (auto simp: tx_commit)
qed

subsection \<open>Recording a bet\<close>

lemma resolveRoundId_state: "snd (resolveRoundId gm req s) = s"
  by (auto simp: resolveRoundId_def m_bind_def t_find_def m_gets_def m_throw_def m_return_def
      split: option.split)

lemma getOrCreateUserId_cases:
  assumes "wf_db s"
  obtains uid us where "getOrCreateUserId address s = (Inr uid, s\<lparr>users := us\<rparr>)" "wf_db (s\<lparr>users := us\<rparr>)"
    "\<exists>u. peek uid us = Some u \<and> walletAddress u = address"
    "\<And>k u. peek k (users s) = Some u \<Longrightarrow> peek k us = Some u"
proof (cases "c_findUnique (\<lambda>u. walletAddress u = address) (users s)")
  case None
  let ?i = "generateId (users s) (idCalls (users s))" and ?us = "snd (c_create (new_user address) (users s))"
  have eq: "getOrCreateUserId address s = (Inr ?i, s\<lparr>users := ?us\<rparr>)"
    using None by (simp add: getOrCreateUserId_def m_bind_def t_find_def m_gets_def m_return_def
        users.create_eq new_user_def)
  have wf: "wf_db (s\<lparr>users := ?us\<rparr>)"
    by (rule users.create_wf [OF assms]) (simp add: new_user_def)
  have fresh: "peek ?i (users s) = None" by (rule wf_t_fresh [OF users.tbl_wf [OF assms]])
  show thesis
    by (rule that [OF eq wf]) (use fresh in \<open>auto simp: peek_c_create new_user_def\<close>)
next
  case (Some u)
  have u: "walletAddress u = address" "peek (u_id u) (users s) = Some u"
    using findUnique_SomeD [OF _ Some] users.tbl_wf [OF assms] by (auto simp: wf_t_def)
  have eq: "getOrCreateUserId address s = (Inr (u_id u), s\<lparr>users := users s\<rparr>)"
    using Some by (simp add: getOrCreateUserId_def m_bind_def t_find_def m_gets_def m_return_def)
  show thesis by (rule that [OF eq]) (use u assms in auto)
qed

lemma new_bet_fields [simp]:
  "b_id (new_bet E now uid rid md side amount price i) = i" "b_userId (new_bet E now uid rid md side amount price i) = uid"
  "b_status (new_bet E now uid rid md side amount price i) = BS_ACCEPTED" "b_mode (new_bet E now uid rid md side amount price i) = md"
  "b_amount (new_bet E now uid rid md side amount price i) = col E amount" "b_roundId (new_bet E now uid rid md side amount price i) = rid"
  "b_side (new_bet E now uid rid md side amount price i) = side"
  by (simp_all add: new_bet_def toDecimal_def)

lemma on_soroban_frame: "\<exists>y so. on_soroban m s = (y, s\<lparr>soroban := so\<rparr>)"
  by (cases "m (soroban s)") (auto simp: on_soroban_def m_zoom_def)

lemma on_soroban_D: "on_soroban m s = (y, s\<lparr>soroban := so\<rparr>) \<Longrightarrow> m (soroban s) = (y, so)"
  by (cases "m (soroban s)") (auto simp: on_soroban_def m_zoom_def dest: arg_cong [where f = soroban])

lemma send_bet_cases:
  assumes wf: "wf_db s" and bet: "peek (b_id bet) (bets s) = Some bet"
  obtains (sent) h so where "on_soroban m s = (Inr h, s\<lparr>soroban := so\<rparr>)"
      "send_bet now bet (on_soroban m) s = (Inr h, s\<lparr>soroban := so,
         bets := c_set (b_id bet) (submitted_bet now h bet) (bets s)\<rparr>)"
  | (failed) e so where "on_soroban m s = (Inl e, s\<lparr>soroban := so\<rparr>)"
      "send_bet now bet (on_soroban m) s = (Inl e,
         logged now OE_BET_FAILED (b_id bet) (BetFailedPayload (b_id bet) (b_userId bet) (b_roundId bet)
           (b_mode bet) (message_of e))
           (s\<lparr>soroban := so, bets := c_set (b_id bet) (failed_bet now (message_of e) bet) (bets s)\<rparr>))"
proof -
  obtain y so where y: "on_soroban m s = (y, s\<lparr>soroban := so\<rparr>)"
    using on_soroban_frame by blast
  have wf': "wf_db (s\<lparr>soroban := so\<rparr>)" using wf by simp
  note unf = send_bet_def m_catch_def m_bind_def m_then_def [of "t_update _ _ _ _ _"] bets.update_id [OF wf'] bet then_logged m_return_def m_throw_def
  show thesis
  proof (cases y)
    case (Inr h)
    with y that(1) show thesis by (simp add: unf)
  next
    case (Inl e)
    with y that(2) show thesis by (simp add: unf)
  qed
qed

text \<open>Table \<open>c'\<close> is \<open>c\<close> with one more row.\<close>

definition added :: "'r collection \<Rightarrow> string \<Rightarrow> 'r \<Rightarrow> 'r collection \<Rightarrow> bool" where
  "added c k r c' \<longleftrightarrow> peek k c = None \<and> (\<forall>j. peek j c' = (if j = k then Some r else peek j c))"

lemma record_body_cases:
  assumes wf: "wf_db s" and run: "record_body E stub now gm md address amount side price req (on_soroban m) s = (r, s')"
  obtains (refused) e where "fst (resolveRoundId gm req s) = Inl e" "r = Inl e" "s' = s"
  | (recorded) rid uid k b h p where "fst (resolveRoundId gm req s) = Inr rid" "added (bets s) k b (bets s')"
      "claims s' = claims s" "rounds s' = rounds s" "predictions s' = predictions s"
      "outboxEvents s' = snd (c_create (event_row now OE_BET_ACCEPTED k ''bet'' p) (outboxEvents s))"
      "r = Inr (Some b, b_status b, h)" "b_status b = (if stub then BS_ACCEPTED else BS_SUBMITTED)"
      "b_id b = k" "b_userId b = uid" "b_roundId b = rid" "b_amount b = col E amount" "b_mode b = md"
      "\<exists>u. peek uid (users s') = Some u \<and> walletAddress u = address"
      "if stub then soroban s' = soroban s \<and> h = None else (Inr h, soroban s') = m (soroban s)"
  | (rejected) rid k b e p where "fst (resolveRoundId gm req s) = Inr rid" "\<not> stub" "added (bets s) k b (bets s')"
      "outboxEvents s' = snd (c_create (event_row now OE_BET_FAILED k ''bet'' p) (outboxEvents s))"
      "claims s' = claims s" "rounds s' = rounds s" "predictions s' = predictions s"
      "r = Inl e" "b_status b = BS_FAILED" "failureReason b = Some (message_of e)" "b_id b = k"
      "(Inl e, soroban s') = m (soroban s)"
proof (cases "fst (resolveRoundId gm req s)")
  case (Inl e)
  with resolveRoundId_state [of gm req s] run that(1) show thesis
    by (auto simp: record_body_def m_bind_def split: prod.splits)
next
  case (Inr rid)
  have res: "resolveRoundId gm req s = (Inr rid, s)"
    using Inr resolveRoundId_state [of gm req s] by (metis prod.collapse)
  obtain uid us where u: "getOrCreateUserId address s = (Inr uid, s\<lparr>users := us\<rparr>)" "wf_db (s\<lparr>users := us\<rparr>)"
    "\<exists>u. peek uid us = Some u \<and> walletAddress u = address" by (rule getOrCreateUserId_cases [OF wf])
  define i where "i = generateId (bets s) (idCalls (bets s))"
  define bet where "bet = new_bet E now uid rid md side amount price i"
  define s2 where "s2 = s\<lparr>users := us, bets := snd (c_create (new_bet E now uid rid md side amount price) (bets s))\<rparr>"
  have cr: "t_create bets bets_update (new_bet E now uid rid md side amount price) (s\<lparr>users := us\<rparr>) = (Inr bet, s2)"
    by (simp add: bets.create_eq i_def bet_def s2_def)
  have wf2: "wf_db s2" using bets.create_wf [OF u(2), of "new_bet E now uid rid md side amount price"] by (simp add: s2_def)
  have fresh: "peek i (bets s) = None" unfolding i_def by (rule wf_t_fresh [OF bets.tbl_wf [OF wf]])
  have p2: "peek j (bets s2) = (if j = i then Some bet else peek j (bets s))" for j
    by (simp add: s2_def peek_c_create i_def bet_def)
  have b: "b_id bet = i" "b_status bet = BS_ACCEPTED" "b_userId bet = uid" "b_roundId bet = rid"
    "b_amount bet = col E amount" "b_mode bet = md" by (simp_all add: bet_def)
  have f2: "claims s2 = claims s" "rounds s2 = rounds s" "predictions s2 = predictions s"
    "outboxEvents s2 = outboxEvents s" "soroban s2 = soroban s" "users s2 = us" by (simp_all add: s2_def)
  define pay where "pay h = BetAcceptedPayload i uid rid md side amount price (if stub then ''stub'' else ''accepted'') h" for h
  note unf = record_body_def m_bind_def res u(1) cr then_logged find_simps m_return_def b
  show thesis
  proof (cases stub)
    case True
    have "r = Inr (Some bet, BS_ACCEPTED, None)" "s' = logged now OE_BET_ACCEPTED i (pay None) s2"
      using run True wf2 by (auto simp: unf pay_def p2)
    with True u(3) fresh show thesis
      by (intro that(2) [OF Inr, where k = i and b = bet and h = None and uid = uid and p = "pay None"])
        (simp_all add: b p2 added_def f2)
  next
    case False
    have bet: "peek (b_id bet) (bets s2) = Some bet" by (simp add: p2 b)
    from wf2 bet show thesis
    proof (cases rule: send_bet_cases [where m = m and now = now])
      case (sent h so)
      have "m (soroban s) = (Inr h, so)"
        using on_soroban_D [OF sent(1)] by (simp add: f2)
      let ?b = "submitted_bet now h bet"
      have wf3: "wf_db (s2\<lparr>soroban := so, bets := c_set i ?b (bets s2)\<rparr>)"
        using bets.set_wf [of "s2\<lparr>soroban := so\<rparr>" i bet ?b] wf2 bet b by simp
      have "r = Inr (Some ?b, BS_SUBMITTED, h)"
        "s' = logged now OE_BET_ACCEPTED i (pay h) (s2\<lparr>soroban := so, bets := c_set i ?b (bets s2)\<rparr>)"
        using run False wf3 sent(2) bets.unique_id [OF wf3, of i] by (auto simp: unf pay_def)
      with False u(3) fresh \<open>m (soroban s) = (Inr h, so)\<close> show thesis
        by (intro that(2) [OF Inr, where k = i and b = ?b and h = h and uid = uid and p = "pay h"])
          (simp_all add: b p2 added_def f2, simp_all add: submitted_bet_def b)
    next
      case (failed e so)
      have "m (soroban s) = (Inl e, so)"
        using on_soroban_D [OF failed(1)] by (simp add: f2)
      let ?p = "BetFailedPayload i uid rid md (message_of e)"
      have "r = Inl e" "s' = logged now OE_BET_FAILED i ?p
          (s2\<lparr>soroban := so, bets := c_set i (failed_bet now (message_of e) bet) (bets s2)\<rparr>)"
        using run False failed(2) by (auto simp: unf)
      with False fresh \<open>m (soroban s) = (Inl e, so)\<close> show thesis
        by (intro that(3) [OF Inr False, where k = i and b = "failed_bet now (message_of e) bet" and e = e and p = ?p])
          (simp_all add: b p2 added_def f2, simp_all add: failed_bet_def b)
    qed
  qed
qed

subsection \<open>What recording a bet leaves behind\<close>

lemma report_bet_eq:
  "report_bet stub (Some b, st, h) s = (Inr \<lparr>bt_state = (if stub then ''stub'' else ''on-chain-success''),
     bt_txHash = h, bt_betId = b_id b, bt_status = st\<rparr>, s\<lparr>effects := effects s @ [Audit ''BET_ACCEPTED'' (b_id b)]\<rparr>)"
  by (simp add: report_bet_def m_then_def m_bind_def emit_eq m_return_def)

definition bet_recorded ::
  "arith \<Rightarrow> int \<Rightarrow> bool \<Rightarrow> string \<Rightarrow> rat \<Rightarrow> bet_result \<Rightarrow> 'c app \<Rightarrow> 'c app \<Rightarrow> bool" where
  "bet_recorded E now stub address amount res s s' \<longleftrightarrow>
     (\<exists>b u p. added (bets s) (bt_betId res) b (bets s') \<and> b_status b = bt_status res \<and>
        bt_status res = (if stub then BS_ACCEPTED else BS_SUBMITTED) \<and> b_amount b = col E amount \<and>
        peek (b_userId b) (users s') = Some u \<and> walletAddress u = address \<and>
        outboxEvents s' = snd (c_create (event_row now OE_BET_ACCEPTED (bt_betId res) ''bet'' p) (outboxEvents s)))"

definition bet_failure_kept :: "int \<Rightarrow> js_error \<Rightarrow> 'c app \<Rightarrow> 'c app \<Rightarrow> bool" where
  "bet_failure_kept now e s s' \<longleftrightarrow>
     (\<exists>k b p. added (bets s) k b (bets s') \<and> b_status b = BS_FAILED \<and> failureReason b = Some (message_of e) \<and>
        outboxEvents s' = snd (c_create (event_row now OE_BET_FAILED k ''bet'' p) (outboxEvents s)))"

text \<open>The outcome of both recording methods, whose transactions only differ in their arguments.\<close>

lemma record_outcome:
  assumes wf: "wf_db s"
  shows "case m_bind (tx ds (record_body E stub now gm md address amount side price req (on_soroban m)))
        (report_bet stub) s of
      (Inl e, s') \<Rightarrow> (case ds of
          Postgres \<Rightarrow> bets s' = bets s \<and> users s' = users s \<and> outboxEvents s' = outboxEvents s
        | Memory \<Rightarrow> s' = s \<or> bet_failure_kept now e s s')
    | (Inr res, s') \<Rightarrow> bet_recorded E now stub address amount res s s' \<and>
        (if stub then soroban s' = soroban s else m (soroban s) = (Inr (bt_txHash res), soroban s'))"
proof -
  let ?body = "record_body E stub now gm md address amount side price req (on_soroban m)"
  obtain r s' where run: "?body s = (r, s')" by fastforce
  from wf run show ?thesis
  proof (cases rule: record_body_cases)
    case (refused e)
    with run show ?thesis
      by (cases ds) (simp_all add: m_bind_def tx_def transaction_def rollback_db_def)
  next
    case (recorded rid uid k b h p)
    then have "tx ds ?body s = (Inr (Some b, b_status b, h), s')" using run by (simp add: tx_commit)
    moreover obtain u where "peek uid (users s') = Some u" "walletAddress u = address" using recorded by blast
    then have "bet_recorded E now stub address amount \<lparr>bt_state = (if stub then ''stub'' else ''on-chain-success''),
        bt_txHash = h, bt_betId = k, bt_status = b_status b\<rparr> s (s'\<lparr>effects := fx\<rparr>)" for fx
      unfolding bet_recorded_def using recorded by (intro exI [of _ b] exI [of _ u] exI [of _ p]) simp
    ultimately show ?thesis using recorded by (simp add: m_bind_def report_bet_eq)
  next
    case (rejected rid k b e p)
    with run show ?thesis
      by (cases ds) (auto simp: m_bind_def tx_def transaction_def rollback_db_def bet_failure_kept_def)
  qed
qed

text \<open>C12. Recording an UP/DOWN bet.  On success there is exactly one new bet, of the requested amount, for a
  user with the given wallet, with one BET_ACCEPTED event; a live bet has also been submitted to the
  chain exactly once and is SUBMITTED, a stub bet has not touched the chain and is ACCEPTED.  On
  failure the two data stores differ: in memory a bet marked FAILED and its BET_FAILED event remain
  (when the chain call was made), whereas the database rolls back the tables, so neither the failed
  bet nor its event survives.\<close>

theorem bet_recording_outcome:
  assumes "wf_db s"
  shows "case recordUpDownBet ds E (recording cl) stub now address amount side req s of
      (Inl e, s') \<Rightarrow> (case ds of
          Postgres \<Rightarrow> bets s' = bets s \<and> users s' = users s \<and> outboxEvents s' = outboxEvents s
        | Memory \<Rightarrow> s' = s \<or> bet_failure_kept now e s s')
    | (Inr res, s') \<Rightarrow> bet_recorded E now stub address amount res s s' \<and>
        (if stub then soroban s' = soroban s
         else submissions (soroban s') = submissions (soroban s) @
           [place_bet address (amount_in_stroops E amount) (toChainSide side)])"
proof -
  have "submissions t = submissions (soroban s) @ [place_bet address (amount_in_stroops E amount) (toChainSide side)]"
    if "placeBet E (recording cl) now address amount (toChainSide side) (soroban s) = (Inr h, t)" for h t
    using placeBet_submissions [OF that] by auto
  with record_outcome [OF assms, where ds = ds and E = E and stub = stub and now = now and gm = UP_DOWN and
      md = BM_UP_DOWN and address = address and amount = amount and side = "Some side" and price = None and
      req = req and m = "placeBet E (recording cl) now address amount (toChainSide side)"]
  show ?thesis unfolding recordUpDownBet_def by (auto split: prod.splits sum.splits data_store.splits if_splits)
qed

theorem bet_recording_outcome_witness:
  "case recordUpDownBet Postgres js_arith (recording lossy_client) False 1 ''G'' 5 UP None (blank_app ((), [])) of
      (Inl e, s') \<Rightarrow> rows (bets s') = []
    | (Inr res, s') \<Rightarrow> bet_recorded js_arith 1 False ''G'' 5 res (blank_app ((), [])) s'"
  using bet_recording_outcome [OF wf_blank_app [of "((), [])"], where ds = Postgres and E = js_arith and cl = lossy_client
      and stub = False and now = 1 and address = "''G''" and amount = 5 and side = UP and req = None]
  by (auto simp: blank_app_def table_of_eval split: prod.splits sum.splits)

subsection \<open>Every bet is resolved at most once\<close>

definition bet_status :: "'z db_scheme \<Rightarrow> string \<Rightarrow> BetStatus option" where
  "bet_status s k = map_option b_status (peek k (bets s))"

definition events_of :: "OutboxEventType \<Rightarrow> string \<Rightarrow> 'z db_scheme \<Rightarrow> int" where
  "events_of ty k s = c_sum (\<lambda>e. if o_eventType e = ty \<and> o_aggregateId e = k then 1 else 0) (outboxEvents s)"

text \<open>A bet has one BET_RESOLVED event if it is resolved and none otherwise.\<close>

definition resolutions_logged :: "'c app \<Rightarrow> bool" where
  "resolutions_logged s \<longleftrightarrow> wf_db s \<and>
     (\<forall>k. events_of OE_BET_RESOLVED k s = (if bet_status s k = Some BS_RESOLVED then 1 else 0))"

datatype bet_op =
    RecordUpDown bool string rat PredictionSide "string option"
  | RecordPrecision bool string rat rat "string option"
  | ReconcileBet string string
  | ResolveBet string bool rat
  | FailBet string string

fun bet_handler :: "data_store \<Rightarrow> arith \<Rightarrow> 'c xelma_client \<Rightarrow> 'c app \<Rightarrow> int \<times> bet_op \<Rightarrow> 'c app" where
  "bet_handler ds E cl s (now, RecordUpDown stub address amount side req) =
     snd (recordUpDownBet ds E cl stub now address amount side req s)"
| "bet_handler ds E cl s (now, RecordPrecision stub address amount price req) =
     snd (recordPrecisionBet ds E cl stub now address amount price req s)"
| "bet_handler ds E cl s (now, ReconcileBet k h) = snd (reconcileBet ds E now k h s)"
| "bet_handler ds E cl s (now, ResolveBet k won payout) = snd (resolveBet ds E now k won payout s)"
| "bet_handler ds E cl s (now, FailBet k reason) = snd (failBet ds E now k reason s)"

lemma events_logged:
  assumes "wf_db s"
  shows "events_of ty j (logged now ty' k p s) = events_of ty j s + (if ty' = ty \<and> k = j then 1 else 0)"
  by (simp add: events_of_def c_sum_create [OF outbox.tbl_wf [OF assms]])

lemma bet_tables [simp]:
  "events_of ty j (bets_update g s) = events_of ty j s" "bet_status (logged now ty k p s) = bet_status s"
  by (simp_all add: events_of_def bet_status_def fun_eq_iff)

text \<open>The steps keep the log, and move a status along an edge.\<close>

definition bet_edge :: "BetStatus \<Rightarrow> BetStatus \<Rightarrow> bool" where
  "bet_edge a b \<longleftrightarrow> a \<noteq> BS_RESOLVED \<and> b \<in> {BS_CONFIRMED, BS_FAILED, BS_RESOLVED}"

definition bet_sound :: "'c app \<Rightarrow> 'c app \<Rightarrow> bool" where
  "bet_sound s s' \<longleftrightarrow> resolutions_logged s' \<and>
     (\<forall>k a. bet_status s k = Some a \<longrightarrow> (\<exists>b. bet_status s' k = Some b \<and> (b = a \<or> bet_edge a b)))"

lemma bet_sound_effects [simp]: "bet_sound s (s'\<lparr>effects := fx\<rparr>) = bet_sound s s'"
  by (simp add: bet_sound_def resolutions_logged_def events_of_def bet_status_def)

lemma bet_sound_refl: "resolutions_logged s \<Longrightarrow> bet_sound s s"
  by (simp add: bet_sound_def)

lemma bet_step_sound:
  assumes log: "resolutions_logged s" and f: "\<And>b. b_id (f b) = b_id b"
    and skip: "\<And>b. b_status b = BS_RESOLVED \<Longrightarrow> skip b"
    and ty: "\<And>b. b_status (f b) \<in> {BS_CONFIRMED, BS_FAILED, BS_RESOLVED} \<and> (ty = OE_BET_RESOLVED \<longleftrightarrow> b_status (f b) = BS_RESOLVED)"
  shows "bet_sound s (snd (bet_step now k skip f ty mk s))"
proof -
  have wf: "wf_db s" using log by (simp add: resolutions_logged_def)
  show ?thesis
  proof (cases "\<exists>b. peek k (bets s) = Some b \<and> \<not> skip b")
    case False
    then have "snd (bet_step now k skip f ty mk s) = s" by (auto simp: bet_step_eq [OF wf f] split: option.split)
    with log show ?thesis by (simp add: bet_sound_refl)
  next
    case True
    then obtain b where b: "peek k (bets s) = Some b" "\<not> skip b" by blast
    let ?s = "s\<lparr>bets := c_set k (f b) (bets s)\<rparr>"
    have s': "snd (bet_step now k skip f ty mk s) = logged now ty k (mk (f b)) ?s"
      by (simp add: bet_step_eq [OF wf f] b)
    have "b_id (f b) = k" using bets.peek_id [OF wf b(1)] f by simp
    then have wf': "wf_db ?s" by (rule bets.set_wf [OF wf b(1)])
    have nr: "b_status b \<noteq> BS_RESOLVED" using skip b(2) by blast
    have "resolutions_logged (logged now ty k (mk (f b)) ?s)"
      using log nr b(1) ty [of b]
      by (auto simp: resolutions_logged_def logged_wf [OF wf'] events_logged [OF wf'] bet_status_def)
    moreover have "\<exists>c. bet_status (logged now ty k (mk (f b)) ?s) j = Some c \<and> (c = a \<or> bet_edge a c)"
      if "bet_status s j = Some a" for j a
      using that nr b(1) ty [of b] by (auto simp: bet_status_def bet_edge_def)
    ultimately show ?thesis by (simp add: s' bet_sound_def)
  qed
qed

lemma added_sound:
  assumes log: "resolutions_logged s" and wf': "wf_db s'" and add: "added (bets s) k b (bets s')" and st: "b_status b \<noteq> BS_RESOLVED"
    and out: "outboxEvents s' = snd (c_create (event_row now ty j ''bet'' p) (outboxEvents s))" and ty: "ty \<noteq> OE_BET_RESOLVED"
  shows "bet_sound s s'"
proof -
  have wf: "wf_db s" using log by (simp add: resolutions_logged_def)
  have "events_of OE_BET_RESOLVED i s' = events_of OE_BET_RESOLVED i s" for i
    using ty by (simp add: events_of_def out c_sum_create [OF outbox.tbl_wf [OF wf]])
  moreover have "bet_status s' i = (if i = k then Some (b_status b) else bet_status s i)" "bet_status s k = None" for i
    using add by (simp_all add: added_def bet_status_def)
  ultimately show ?thesis using log wf' st by (auto simp: bet_sound_def resolutions_logged_def)
qed

lemma preserves_wf_record [preserve_intros]:
  "preserves wf_db (record_body E stub now gm md address amount side price req (on_soroban m))"
  unfolding record_body_def resolveRoundId_def getOrCreateUserId_def send_bet_def
  by (intro preserve_intros; simp add: new_user_def)

lemma record_sound:
  assumes log: "resolutions_logged s"
  shows "bet_sound s (snd (m_bind (tx ds (record_body E stub now gm md address amount side price req (on_soroban m)))
    (report_bet stub) s))"
proof -
  let ?body = "record_body E stub now gm md address amount side price req (on_soroban m)"
  have wf: "wf_db s" using log by (simp add: resolutions_logged_def)
  obtain r s' where run: "?body s = (r, s')" by fastforce
  have wf': "wf_db s'" using preservesD [OF preserves_wf_record wf] run by (metis snd_conv)
  have undo: "bet_sound s (rollback_db s s')"
    using bet_sound_refl [OF log] by (simp add: rollback_db_def bet_sound_def resolutions_logged_def bet_status_def events_of_def)
  from wf run show ?thesis
  proof (cases rule: record_body_cases)
    case (refused e)
    with run log undo show ?thesis by (cases ds) (simp_all add: m_bind_def tx_def transaction_def bet_sound_refl)
  next
    case (recorded rid uid k b h p)
    then have "bet_sound s s'" by (intro added_sound [OF log wf' recorded(2) _ recorded(6)]) auto
    with recorded run show ?thesis by (simp add: m_bind_def tx_commit report_bet_eq)
  next
    case (rejected rid k b e p)
    then have "bet_sound s s'" by (intro added_sound [OF log wf' rejected(3) _ rejected(4)]) auto
    with rejected run undo show ?thesis by (cases ds) (simp_all add: m_bind_def tx_def transaction_def)
  qed
qed

lemma bet_handler_sound:
  assumes log: "resolutions_logged s"
  shows "bet_sound s (bet_handler ds E cl s (now, a))"
proof (cases a)
  case (RecordUpDown stub address amount side req)
  then show ?thesis by (simp add: recordUpDownBet_def record_sound [OF log])
next
  case (RecordPrecision stub address amount price req)
  then show ?thesis by (simp add: recordPrecisionBet_def record_sound [OF log])
next
  case (ReconcileBet k h)
  have wf: "wf_db s" using log by (simp add: resolutions_logged_def)
  let ?step = "reconcile_body now k h"
  have sound: "bet_sound s (snd (?step s))" unfolding bodies_bet_step by (rule bet_step_sound [OF log]) auto
  have "tx ds ?step s = ?step s" unfolding bodies_bet_step by (rule bet_step_tx [OF wf]) simp
  then have "\<exists>fx. bet_handler ds E cl s (now, a) = (snd (?step s))\<lparr>effects := fx\<rparr>"
    using ReconcileBet by (cases "?step s") (auto simp: reconcileBet_def m_bind_def m_then_def m_return_def emit_eq
        intro: exI [of _ "effects (snd (?step s))"] split: sum.split option.split)
  with sound show ?thesis by auto
next
  case (ResolveBet k won payout)
  have wf: "wf_db s" using log by (simp add: resolutions_logged_def)
  let ?step = "resolve_body now k won payout"
  have sound: "bet_sound s (snd (?step s))" unfolding bodies_bet_step by (rule bet_step_sound [OF log]) auto
  have "tx ds ?step s = ?step s" unfolding bodies_bet_step by (rule bet_step_tx [OF wf]) simp
  then have "bet_handler ds E cl s (now, a) = snd (?step s)"
    using ResolveBet by (cases "?step s") (auto simp: resolveBet_def m_bind_def m_return_def split: sum.split)
  with sound show ?thesis by simp
next
  case (FailBet k reason)
  have wf: "wf_db s" using log by (simp add: resolutions_logged_def)
  let ?step = "fail_body now k reason"
  have sound: "bet_sound s (snd (?step s))" unfolding bodies_bet_step by (rule bet_step_sound [OF log]) auto
  have "tx ds ?step s = ?step s" unfolding bodies_bet_step by (rule bet_step_tx [OF wf]) simp
  then have "\<exists>fx. bet_handler ds E cl s (now, a) = (snd (?step s))\<lparr>effects := fx\<rparr>"
    using FailBet by (cases "?step s") (auto simp: failBet_def m_bind_def m_then_def m_return_def emit_eq
        intro: exI [of _ "effects (snd (?step s))"] split: sum.split option.split)
  with sound show ?thesis by auto
qed

lemma blank_logged: "resolutions_logged (blank_app c)"
  using wf_blank_app [of c]
  by (simp add: resolutions_logged_def events_of_def bet_status_def blank_app_def table_of_eval c_sum_def)

end
