(* ===== verification/Oracle.thy ===== *)
theory Oracle
  imports Schema
begin

text \<open>
  The price oracle (\<open>src/src/services/oracle.ts\<close>), its providers
  (\<open>src/src/services/providers/\<close>) and the cached multi-asset prices
  (\<open>src/src/services/priceService.ts\<close>).

  The HTTP client and the parser of decimal strings are outside this repository: \<open>http url\<close> is a
  request on the network state \<open>'n\<close> that returns the decoded JSON body or throws, and
  \<open>parse\<close> reads a decimal string.  Timers only decide when \<open>fetchPrice\<close> runs.
\<close>

type_synonym 'n http = "string \<Rightarrow> ('n, js_error, json) comp"

type_synonym dec_parser = "string \<Rightarrow> js_error + rat"

subsection \<open>Providers\<close>

text \<open>\<open>v?.f\<close>; a missing field is \<open>undefined\<close>, which the providers treat like \<open>null\<close>.\<close>

fun jfield :: "string \<Rightarrow> json \<Rightarrow> json" where
  "jfield f (JObj fs) = (case map_of fs f of None \<Rightarrow> JNull | Some v \<Rightarrow> v)"
| "jfield f _ = JNull"

fun toDecimalJson :: "dec_parser \<Rightarrow> json \<Rightarrow> js_error + rat" where
  "toDecimalJson parse (JNum x) = Inr x"
| "toDecimalJson parse (JStr t) = parse t"
| "toDecimalJson parse _ = Inl (JsError ''[DecimalError] Invalid argument'')"

record price_provider =
  pv_name :: string
  pv_url :: string
  pv_multiUrl :: string
  pv_path :: "json \<Rightarrow> json"
  pv_missing :: string
  pv_assets :: "json \<Rightarrow> json \<times> json \<times> json"
  pv_missingAssets :: string

definition provider_fetchPrice :: "'n http \<Rightarrow> dec_parser \<Rightarrow> price_provider \<Rightarrow> ('n, js_error, rat) comp" where
  "provider_fetchPrice http parse p =
     m_bind (http (pv_url p)) (\<lambda>body.
       if pv_path p body = JNull then m_throw (JsError (pv_missing p))
       else lift_sum (toDecimalJson parse (pv_path p body)))"

definition provider_fetchAssetPrices ::
  "'n http \<Rightarrow> dec_parser \<Rightarrow> price_provider \<Rightarrow> ('n, js_error, rat \<times> rat \<times> rat) comp" where
  "provider_fetchAssetPrices http parse p =
     m_bind (http (pv_multiUrl p)) (\<lambda>body.
       case pv_assets p body of (btc, eth, xlm) \<Rightarrow>
         if btc = JNull \<or> eth = JNull \<or> xlm = JNull then m_throw (JsError (pv_missingAssets p))
         else m_bind (lift_sum (toDecimalJson parse btc)) (\<lambda>b.
              m_bind (lift_sum (toDecimalJson parse eth)) (\<lambda>e.
              m_bind (lift_sum (toDecimalJson parse xlm)) (\<lambda>x. m_return (b, e, x)))))"

definition CoinGeckoProvider :: "string \<Rightarrow> string \<Rightarrow> price_provider" where
  "CoinGeckoProvider url multi = \<lparr>pv_name = ''coingecko'', pv_url = url, pv_multiUrl = multi,
     pv_path = (\<lambda>d. jfield ''usd'' (jfield ''stellar'' d)),
     pv_missing = ''Invalid response from CoinGecko: missing stellar.usd'',
     pv_assets = (\<lambda>d. (jfield ''usd'' (jfield ''bitcoin'' d), jfield ''usd'' (jfield ''ethereum'' d),
        jfield ''usd'' (jfield ''stellar'' d))),
     pv_missingAssets = ''Invalid response from CoinGecko: missing BTC, ETH, or XLM price''\<rparr>"

text \<open>\<open>byId\<close> is built with \<open>new Map(assets.map(...))\<close>: a later entry replaces an earlier one.\<close>

definition coincap_asset :: "string \<Rightarrow> json \<Rightarrow> json" where
  "coincap_asset k d =
     (case jfield ''data'' d of
        JArr xs \<Rightarrow> (case filter (\<lambda>a. jfield ''id'' a = JStr k) (rev xs) of [] \<Rightarrow> JNull | a # _ \<Rightarrow> jfield ''priceUsd'' a)
      | _ \<Rightarrow> JNull)"

definition CoinCapProvider :: "string \<Rightarrow> string \<Rightarrow> price_provider" where
  "CoinCapProvider url multi = \<lparr>pv_name = ''coincap'', pv_url = url, pv_multiUrl = multi,
     pv_path = (\<lambda>d. jfield ''priceUsd'' (jfield ''data'' d)),
     pv_missing = ''Invalid response from CoinCap: missing data.priceUsd'',
     pv_assets = (\<lambda>d. (coincap_asset ''bitcoin'' d, coincap_asset ''ethereum'' d, coincap_asset ''stellar'' d)),
     pv_missingAssets = ''Invalid response from CoinCap: missing BTC, ETH, or XLM price''\<rparr>"

definition createDefaultProviders :: "string \<Rightarrow> string \<Rightarrow> string \<Rightarrow> string \<Rightarrow> price_provider list" where
  "createDefaultProviders gecko geckoMulti cap capMulti = [CoinGeckoProvider gecko geckoMulti, CoinCapProvider cap capMulti]"

subsection \<open>The polling oracle\<close>

record 'n price_oracle =
  orc_price :: "rat option"
  orc_lastProvider :: "string option"
  orc_chain :: "(price_provider \<times> CircuitBreaker) list"
  orc_running :: bool
  orc_lastUpdatedAt :: "int option"
  orc_activeSource :: "string option"
  STALENESS_THRESHOLD :: int
  REQUEST_TIMEOUT :: nat
  ORACLE_RETRIES :: nat
  orc_net :: 'n

definition new_oracle :: "price_provider list \<Rightarrow> int \<Rightarrow> nat \<Rightarrow> nat \<Rightarrow> 'n \<Rightarrow> 'n price_oracle" where
  "new_oracle ps threshold ms n net = \<lparr>orc_price = None, orc_lastProvider = None,
     orc_chain = map (\<lambda>p. (p, new_breaker (pv_name p @ ''-price-oracle'') 3 30000 1)) ps,
     orc_running = False, orc_lastUpdatedAt = None, orc_activeSource = None,
     STALENESS_THRESHOLD = threshold, REQUEST_TIMEOUT = ms, ORACLE_RETRIES = n, orc_net = net\<rparr>"

definition oracle_breaker :: "nat \<Rightarrow> 'n price_oracle \<Rightarrow> CircuitBreaker" where
  "oracle_breaker i s = snd (orc_chain s ! i)"

definition oracle_breaker_update :: "nat \<Rightarrow> (CircuitBreaker \<Rightarrow> CircuitBreaker) \<Rightarrow> 'n price_oracle \<Rightarrow> 'n price_oracle" where
  "oracle_breaker_update i f s =
     s\<lparr>orc_chain := (orc_chain s)[i := (fst (orc_chain s ! i), f (snd (orc_chain s ! i)))]\<rparr>"

definition tryProvider :: "'n http \<Rightarrow> dec_parser \<Rightarrow> int \<Rightarrow> nat \<Rightarrow> 'n price_oracle \<Rightarrow> rat timeout_result \<times> 'n price_oracle" where
  "tryProvider http parse now i s =
     (let p = fst (orc_chain s ! i);
          opts = \<lparr>timeoutMs = REQUEST_TIMEOUT s, retries = ORACLE_RETRIES s, to_backoffMultiplier = 2, maxBackoffMs = 8000\<rparr>
      in case cb_execute (oracle_breaker i) (oracle_breaker_update i) now
            (unwrap_timeout (withTimeout opts (m_zoom orc_net orc_net_update (provider_fetchPrice http parse p)))) s of
           (Inr tr, s') \<Rightarrow> (tr, s')
         | (Inl e, s') \<Rightarrow>
             (if is_breaker_open e then
                \<lparr>tr_outcome = Inl (JsError (''Circuit breaker open for '' @ pv_name p)), retriesUsed = 0,
                   timedOut = False, to_sleeps = []\<rparr>
              else failed_call e, s'))"

fun fetch_from :: "'n http \<Rightarrow> dec_parser \<Rightarrow> int \<Rightarrow> nat list \<Rightarrow> 'n price_oracle \<Rightarrow> 'n price_oracle" where
  "fetch_from http parse now [] s = s"
| "fetch_from http parse now (i # is) s =
     (case tryProvider http parse now i s of
        (tr, s') \<Rightarrow>
          (case tr_outcome tr of
             Inr p \<Rightarrow> s'\<lparr>orc_price := Some p, orc_lastProvider := Some (pv_name (fst (orc_chain s ! i))),
               orc_activeSource := Some (pv_name (fst (orc_chain s ! i))), orc_lastUpdatedAt := Some now\<rparr>
           | Inl _ \<Rightarrow> fetch_from http parse now is s'))"

definition fetchPrice :: "'n http \<Rightarrow> dec_parser \<Rightarrow> int \<Rightarrow> 'n price_oracle \<Rightarrow> 'n price_oracle" where
  "fetchPrice http parse now s = fetch_from http parse now [0..<length (orc_chain s)] s"

definition startPolling :: "'n http \<Rightarrow> dec_parser \<Rightarrow> int \<Rightarrow> 'n price_oracle \<Rightarrow> 'n price_oracle" where
  "startPolling http parse now s =
     (if orc_running s then s else fetchPrice http parse now (s\<lparr>orc_running := True\<rparr>))"

definition stopPolling :: "'n price_oracle \<Rightarrow> 'n price_oracle" where
  "stopPolling s = (if \<not> orc_running s then s else s\<lparr>orc_running := False\<rparr>)"

definition isStale :: "int \<Rightarrow> 'n price_oracle \<Rightarrow> bool" where
  "isStale now s =
     (case orc_lastUpdatedAt s of None \<Rightarrow> True | Some t \<Rightarrow> now - t > STALENESS_THRESHOLD s)"

definition getPriceNumber :: "arith \<Rightarrow> 'n price_oracle \<Rightarrow> rat option" where
  "getPriceNumber E s = map_option (\<lambda>p. toNumber E (Some p)) (orc_price s)"

definition getPriceString :: "arith \<Rightarrow> nat \<Rightarrow> 'n price_oracle \<Rightarrow> rat option" where
  "getPriceString E places s = toDecimalString E (orc_price s) places"

definition getStalenessMs :: "int \<Rightarrow> 'n price_oracle \<Rightarrow> int option" where
  "getStalenessMs now s = map_option (\<lambda>t. now - t) (orc_lastUpdatedAt s)"

definition getStalenessSeconds :: "int \<Rightarrow> 'n price_oracle \<Rightarrow> int option" where
  "getStalenessSeconds now s = map_option (\<lambda>ms. ms div 1000) (getStalenessMs now s)"

record oracle_health =
  oh_running :: bool
  oh_hasPrice :: bool
  oh_stale :: bool
  oh_stalenessSeconds :: "int option"
  oh_lastUpdateUnixSeconds :: "int option"

definition getHealthSnapshot :: "int \<Rightarrow> 'n price_oracle \<Rightarrow> oracle_health" where
  "getHealthSnapshot now s = \<lparr>oh_running = orc_running s, oh_hasPrice = (orc_price s \<noteq> None),
     oh_stale = isStale now s, oh_stalenessSeconds = map_option (\<lambda>ms. ms div 1000) (getStalenessMs now s),
     oh_lastUpdateUnixSeconds = map_option (\<lambda>t. t div 1000) (orc_lastUpdatedAt s)\<rparr>"

subsection \<open>Cached multi-asset prices\<close>

record price_response =
  BTC :: rat
  ETH :: rat
  XLM :: rat
  pr_stale :: bool
  pr_lastUpdatedAt :: "int option"

type_synonym price_cache = "(price_response \<times> int) option"

definition CACHE_TTL_MS :: int where
  "CACHE_TTL_MS = 30000"

definition toPriceResponse :: "arith \<Rightarrow> int \<Rightarrow> rat \<times> rat \<times> rat \<Rightarrow> price_response" where
  "toPriceResponse E now prices = (case prices of (b, e, x) \<Rightarrow>
     \<lparr>BTC = toNumber E (Some b), ETH = toNumber E (Some e), XLM = toNumber E (Some x), pr_stale = False,
      pr_lastUpdatedAt = Some now\<rparr>)"

definition fallback_prices :: price_response where
  "fallback_prices = \<lparr>BTC = 60000, ETH = 3000, XLM = 2891 / 10000, pr_stale = True, pr_lastUpdatedAt = None\<rparr>"

fun fetchAssetPricesWithFailover ::
  "'n http \<Rightarrow> dec_parser \<Rightarrow> price_provider list \<Rightarrow> js_error option \<Rightarrow> ('n, js_error, rat \<times> rat \<times> rat) comp" where
  "fetchAssetPricesWithFailover http parse [] lastError =
     m_throw (case lastError of None \<Rightarrow> JsError ''All configured price providers failed''
       | Some e \<Rightarrow> if e = NonError then JsError ''All configured price providers failed'' else e)"
| "fetchAssetPricesWithFailover http parse (p # ps) lastError =
     m_catch (provider_fetchAssetPrices http parse p)
       (\<lambda>err. fetchAssetPricesWithFailover http parse ps (Some err))"

text \<open>\<open>getPrices\<close> in live mode: the response, the new cache and the new network state.\<close>

definition getPrices ::
  "arith \<Rightarrow> 'n http \<Rightarrow> dec_parser \<Rightarrow> price_provider list \<Rightarrow> int \<Rightarrow> price_cache \<times> 'n \<Rightarrow>
   price_response \<times> price_cache \<times> 'n" where
  "getPrices E http parse ps now st =
     (case st of (cache, net) \<Rightarrow>
       (case cache of
          Some (data, fetchedAt) \<Rightarrow>
            if now - fetchedAt < CACHE_TTL_MS then (data, cache, net)
            else (case fetchAssetPricesWithFailover http parse ps None net of
                (Inr prices, net') \<Rightarrow>
                  let fresh = toPriceResponse E now prices in (fresh, Some (fresh, now), net')
              | (Inl _, net') \<Rightarrow> (data\<lparr>pr_stale := True\<rparr>, cache, net'))
        | None \<Rightarrow>
            (case fetchAssetPricesWithFailover http parse ps None net of
                (Inr prices, net') \<Rightarrow>
                  let fresh = toPriceResponse E now prices in (fresh, Some (fresh, now), net')
              | (Inl _, net') \<Rightarrow> (fallback_prices, None, net'))))"

subsection \<open>A fresh price is a recent answer\<close>

text \<open>What a single provider attempt leaves alone.\<close>

definition same_feed :: "'n price_oracle \<Rightarrow> 'n price_oracle \<Rightarrow> bool" where
  "same_feed s s' \<longleftrightarrow> orc_price s' = orc_price s \<and> orc_lastUpdatedAt s' = orc_lastUpdatedAt s \<and>
     orc_lastProvider s' = orc_lastProvider s \<and> STALENESS_THRESHOLD s' = STALENESS_THRESHOLD s \<and>
     map fst (orc_chain s') = map fst (orc_chain s)"

lemma same_feed_refl [simp]: "same_feed s s"
  by (simp add: same_feed_def)

lemma map_update_self: "(map f xs)[i := f (xs ! i)] = map f xs"
  by (cases "i < length xs") (simp_all add: list_update_same_conv list_update_beyond)

lemma same_feed_updates [simp]:
  "same_feed s (oracle_breaker_update i f s') = same_feed s s'"
  "same_feed s (orc_net_update g s') = same_feed s s'"
  by (simp_all add: same_feed_def oracle_breaker_update_def map_update map_update_self)

lemma tryProvider_frame: "same_feed s (snd (tryProvider http parse now i s))"
proof -
  let ?m = "m_zoom orc_net orc_net_update (provider_fetchPrice http parse (fst (orc_chain s ! i)))"
  have "preserves (same_feed s) ?m" by (rule preserves_zoom) simp
  then have "preserves (same_feed s) (unwrap_timeout (withTimeout opts ?m))" for opts
    using timeout_loop_preserves [of "same_feed s" ?m]
    by (auto simp: preserves_def unwrap_timeout_def withTimeout_def Let_def split: prod.split sum.split) (metis snd_conv)+
  then have "preserves (same_feed s) (cb_execute (oracle_breaker i) (oracle_breaker_update i) now
      (unwrap_timeout (withTimeout opts ?m)))" for opts
    by (intro preserves_cb_execute) simp_all
  from preservesD [OF this same_feed_refl, of "\<lparr>timeoutMs = REQUEST_TIMEOUT s, retries = ORACLE_RETRIES s,
      to_backoffMultiplier = 2, maxBackoffMs = 8000\<rparr>"] show ?thesis
    by (auto simp: tryProvider_def Let_def split: prod.split sum.split)
qed

lemma same_feed_trans: "same_feed s t \<Longrightarrow> same_feed t u \<Longrightarrow> same_feed s u"
  by (simp add: same_feed_def)

lemma fetch_from_cases:
  assumes "\<forall>i \<in> set is. i < length (orc_chain s)"
  shows "same_feed s (fetch_from http parse now is s) \<or>
    (\<exists>i p. i < length (orc_chain s) \<and> orc_price (fetch_from http parse now is s) = Some p \<and>
       orc_lastUpdatedAt (fetch_from http parse now is s) = Some now \<and>
       orc_lastProvider (fetch_from http parse now is s) = Some (pv_name (fst (orc_chain s ! i))) \<and>
       STALENESS_THRESHOLD (fetch_from http parse now is s) = STALENESS_THRESHOLD s \<and>
       map fst (orc_chain (fetch_from http parse now is s)) = map fst (orc_chain s))"
  using assms
proof (induction "is" arbitrary: s)
  case (Cons i "is")
  obtain tr s1 where t: "tryProvider http parse now i s = (tr, s1)" by fastforce
  have f: "same_feed s s1" using tryProvider_frame [of s http parse now i] t by simp
  then have len: "length (orc_chain s1) = length (orc_chain s)" and nm: "\<And>j. j < length (orc_chain s) \<Longrightarrow>
      fst (orc_chain s1 ! j) = fst (orc_chain s ! j)"
    by (auto simp: same_feed_def dest: map_eq_imp_length_eq) (metis length_map nth_map)
  show ?case
  proof (cases "tr_outcome tr")
    case (Inr p)
    with t f Cons.prems show ?thesis by (auto simp: same_feed_def)
  next
    case (Inl e)
    from Cons.IH [of s1] Cons.prems len
    consider "same_feed s1 (fetch_from http parse now is s1)"
      | j p where "j < length (orc_chain s)" "orc_price (fetch_from http parse now is s1) = Some p"
        "orc_lastUpdatedAt (fetch_from http parse now is s1) = Some now"
        "orc_lastProvider (fetch_from http parse now is s1) = Some (pv_name (fst (orc_chain s1 ! j)))"
        "STALENESS_THRESHOLD (fetch_from http parse now is s1) = STALENESS_THRESHOLD s1"
        "map fst (orc_chain (fetch_from http parse now is s1)) = map fst (orc_chain s1)" by auto
    then show ?thesis
    proof cases
      case 1
      with same_feed_trans [OF f] t Inl show ?thesis by simp
    next
      case 2
      with f nm t Inl show ?thesis by (auto simp: same_feed_def)
    qed
  qed
qed simp

text \<open>The feed after polls at the times \<open>ts\<close>: empty, or the answer to one of the polls.\<close>

definition fed :: "string list \<Rightarrow> int \<Rightarrow> int list \<Rightarrow> 'n price_oracle \<Rightarrow> bool" where
  "fed names cap ts s \<longleftrightarrow> map (pv_name \<circ> fst) (orc_chain s) = names \<and> STALENESS_THRESHOLD s = cap \<and>
     (orc_lastUpdatedAt s = None \<or>
       (\<exists>t \<in> set ts. orc_lastUpdatedAt s = Some t \<and> orc_price s \<noteq> None \<and>
          (\<exists>n \<in> set names. orc_lastProvider s = Some n)))"

lemma fed_step:
  assumes "fed names cap ts s"
  shows "fed names cap (t # ts) (fetchPrice http parse t s)"
proof -
  have names: "map (pv_name \<circ> fst) c' = map (pv_name \<circ> fst) c" if "map fst c' = map fst c"
    for c c' :: "(price_provider \<times> CircuitBreaker) list"
    using arg_cong [OF that, of "map pv_name"] by simp
  have nth: "pv_name (fst (orc_chain s ! i)) \<in> set names" if "i < length (orc_chain s)" for i
    using that assms by (auto simp: fed_def)
  from fetch_from_cases [of "[0..<length (orc_chain s)]" s http parse t]
  consider "same_feed s (fetchPrice http parse t s)"
    | i p where "i < length (orc_chain s)" "orc_price (fetchPrice http parse t s) = Some p"
      "orc_lastUpdatedAt (fetchPrice http parse t s) = Some t"
      "orc_lastProvider (fetchPrice http parse t s) = Some (pv_name (fst (orc_chain s ! i)))"
      "STALENESS_THRESHOLD (fetchPrice http parse t s) = STALENESS_THRESHOLD s"
      "map fst (orc_chain (fetchPrice http parse t s)) = map fst (orc_chain s)"
    unfolding fetchPrice_def by auto
  then show ?thesis
  proof cases
    case 1
    then have "map (pv_name \<circ> fst) (orc_chain (fetchPrice http parse t s)) = names"
      using names [of "orc_chain (fetchPrice http parse t s)" "orc_chain s"] assms
      by (simp add: fed_def same_feed_def)
    with 1 assms show ?thesis by (auto simp: fed_def same_feed_def)
  next
    case 2
    then have "map (pv_name \<circ> fst) (orc_chain (fetchPrice http parse t s)) = names"
      using names [OF 2(6)] assms by (simp add: fed_def)
    with 2 assms nth [OF 2(1)] show ?thesis by (auto simp: fed_def)
  qed
qed


definition demo_http :: "unit http" where
  "demo_http url = m_return (JObj [(''stellar'', JObj [(''usd'', JNum (1 / 4))])])"

definition demo_parse :: dec_parser where
  "demo_parse t = Inl (JsError ''[DecimalError] Invalid argument'')"

definition demo_oracle :: "unit price_oracle" where
  "demo_oracle = new_oracle (createDefaultProviders ''g'' ''gm'' ''c'' ''cm'') 60000 5000 1 ()"

lemma demo_poll:
  "orc_lastUpdatedAt (fetchPrice demo_http demo_parse 7 demo_oracle) = Some 7"
  by (simp add: fetchPrice_def demo_oracle_def new_oracle_def createDefaultProviders_def CoinGeckoProvider_def
      CoinCapProvider_def upt_conv_Cons tryProvider_def cb_execute_def oracle_breaker_def
      oracle_breaker_update_def new_breaker_def breaker_defs unwrap_timeout_def withTimeout_def
      timeout_loop.simps provider_fetchPrice_def demo_http_def lift_sum_def comp_defs)


subsection \<open>Cached prices are fresh or flagged\<close>

definition cache_ok :: "price_cache \<Rightarrow> bool" where
  "cache_ok c = (case c of None \<Rightarrow> True | Some (d, t) \<Rightarrow> \<not> pr_stale d \<and> pr_lastUpdatedAt d = Some t)"

text \<open>The price endpoint never fails, and it never passes off old prices as current: a response that
  is not flagged stale was fetched less than the cache lifetime ago; and the cache it leaves keeps that
  guarantee for the next request.\<close>

theorem prices_fresh_or_flagged:
  assumes "cache_ok cache"
  shows "case getPrices E http parse ps now (cache, net) of
      (r, cache', net') \<Rightarrow> cache_ok cache' \<and>
        (pr_stale r \<or> (\<exists>t. pr_lastUpdatedAt r = Some t \<and> now - t < CACHE_TTL_MS))"
  using assms
  by (auto simp: getPrices_def cache_ok_def toPriceResponse_def fallback_prices_def Let_def CACHE_TTL_MS_def
      split: option.splits prod.splits sum.splits)

theorem prices_fresh_or_flagged_witness:
  "case getPrices js_arith demo_http demo_parse [] 90000
     (Some (\<lparr>BTC = 1, ETH = 1, XLM = 1, pr_stale = False, pr_lastUpdatedAt = Some 5\<rparr>, 5), ()) of
     (r, _, _) \<Rightarrow> pr_stale r"
  using prices_fresh_or_flagged [of "Some (\<lparr>BTC = 1, ETH = 1, XLM = 1, pr_stale = False, pr_lastUpdatedAt = Some 5\<rparr>, 5)"
      90000 js_arith demo_http demo_parse "[]" "()"]
  by (simp add: cache_ok_def getPrices_def CACHE_TTL_MS_def m_throw_def)

end
