(* ===== verification/Resolution.thy ===== *)
theory Resolution
  imports PredictionReconciliation Bets Oracle
begin

text \<open>
  Settling rounds (\<open>src/src/services/resolution.service.ts\<close>) and the loop that settles them
  (\<open>src/src/services/oracle.service.ts\<close>).

  Settlement runs in one database transaction, with two exceptions that the model keeps: calls to the
  chain are not undone, and \<open>betService.resolveBet\<close> opens a transaction of its own, so that the bets
  it resolved and their events stay resolved when the settlement is rolled back
  (\<open>rollback_settlement\<close>).  Generating the educational tip after the settlement is left out: its
  failures are caught and it changes none of these tables.
\<close>

subsection \<open>Outcomes of one prediction\<close>

definition record_outcome ::
  "arith \<Rightarrow> string \<Rightarrow> bool option \<Rightarrow> rat \<Rightarrow> ('c app, js_error, prediction_row) comp" where
  "record_outcome E pid won payout =
     t_update P2025 predictions predictions_update (\<lambda>p. p_id p = pid)
       (\<lambda>p. p\<lparr>p_won := won, p_payout := Some (col E payout)\<rparr>)"

definition resolve_confirmed_bet ::
  "arith \<Rightarrow> int \<Rightarrow> string \<Rightarrow> string \<Rightarrow> bool \<Rightarrow> rat \<Rightarrow> ('c app, js_error, unit) comp" where
  "resolve_confirmed_bet E now uid rid won payout =
     m_bind (m_gets (\<lambda>s. c_findFirst (\<lambda>b. b_userId b = uid \<and> b_roundId b = Some rid \<and> b_status b = BS_CONFIRMED)
         None (bets s))) (\<lambda>bet.
       case bet of None \<Rightarrow> m_return ()
       | Some b \<Rightarrow> m_then (resolveBet Postgres E now (b_id b) won payout) (m_return ()))"

text \<open>The notification and its websocket copy; the text carries the amount with two decimals.\<close>

definition result_events ::
  "arith \<Rightarrow> int \<Rightarrow> string \<Rightarrow> string \<Rightarrow> bool \<Rightarrow> rat \<Rightarrow> rat option \<Rightarrow> ('c app, js_error, unit) comp" where
  "result_events E now rid uid won payout amount =
     (let ty = (if won then NT_WIN else NT_LOSS);
          title = (if won then ''You Won!'' else ''Prediction Did Not Win'');
          text = (if won then WinText (decFixed E payout 2) (take 6 rid) else LossText (take 6 rid))
      in m_then (outbox_create now OE_NOTIFICATION_CREATE rid ''round''
           (NotificationPayload uid ty title text rid amount))
         (m_then (outbox_create now OE_WEBSOCKET_EMIT rid ''round''
           (WebsocketPayload ''notification:new'' (''user:'' @ uid) (Some uid)
             (NotificationData ty title text rid amount)))
         (m_return ())))"

definition settle_row ::
  "arith \<Rightarrow> int \<Rightarrow> string \<Rightarrow> bool option \<Rightarrow> rat \<Rightarrow> (user_row \<Rightarrow> user_row) \<Rightarrow> ('c app, js_error, unit) comp \<Rightarrow>
   prediction_row \<Rightarrow> ('c app, js_error, unit) comp" where
  "settle_row E now rid won x fu events p =
     m_then (record_outcome E (p_id p) won x)
     (m_then (t_update P2025 users users_update (\<lambda>u. u_id u = p_userId p) fu)
     (m_then (resolve_confirmed_bet E now (p_userId p) rid (won = Some True) x) events))"

definition refund_amount :: "arith \<Rightarrow> prediction_row \<Rightarrow> rat" where
  "refund_amount E p = toNumber E (Some (toDecimal (p_amount p)))"

definition refund_prediction :: "arith \<Rightarrow> int \<Rightarrow> string \<Rightarrow> prediction_row \<Rightarrow> ('c app, js_error, unit) comp" where
  "refund_prediction E now rid p =
     settle_row E now rid None (refund_amount E p)
       (\<lambda>u. u\<lparr>virtualBalance := increment E (virtualBalance u) (refund_amount E p)\<rparr>) (m_return ()) p"

definition settle_prediction ::
  "arith \<Rightarrow> int \<Rightarrow> string \<Rightarrow> bool \<Rightarrow> rat \<Rightarrow> prediction_row \<Rightarrow> ('c app, js_error, unit) comp" where
  "settle_prediction E now rid won payout p =
     (let x = toNumber E (Some payout)
      in settle_row E now rid (Some won) x
           (\<lambda>u. u\<lparr>virtualBalance := increment E (virtualBalance u) x,
              wins := wins u + (if won then 1 else 0), streak := (if won then streak u + 1 else 0)\<rparr>)
           (result_events E now rid (p_userId p) won payout (Some x)) p)"

definition lose_prediction :: "arith \<Rightarrow> int \<Rightarrow> string \<Rightarrow> prediction_row \<Rightarrow> ('c app, js_error, unit) comp" where
  "lose_prediction E now rid p =
     settle_row E now rid (Some False) 0 (\<lambda>u. u\<lparr>streak := 0\<rparr>)
       (result_events E now rid (p_userId p) False 0 None) p"

subsection \<open>The two modes\<close>

definition updown_payout :: "arith \<Rightarrow> round_row \<Rightarrow> PredictionSide \<Rightarrow> prediction_row \<Rightarrow> rat" where
  "updown_payout E rnd winningSide p =
     (let winningPool = toDecimal (if winningSide = UP then poolUp rnd else poolDown rnd);
          losingPool = toDecimal (if winningSide = UP then poolDown rnd else poolUp rnd)
      in if p_side p = Some winningSide then calculatePayout E (toDecimal (p_amount p)) winningPool losingPool
         else toDecimal 0)"

definition winning_side :: "round_row \<Rightarrow> rat \<Rightarrow> PredictionSide" where
  "winning_side rnd finalPrice = (if decGt finalPrice (startPrice rnd) then UP else DOWN)"

definition resolveUpDownRound ::
  "arith \<Rightarrow> 'c xelma_client \<Rightarrow> int \<Rightarrow> round_row \<Rightarrow> prediction_row list \<Rightarrow> rat \<Rightarrow> ('c app, js_error, unit) comp" where
  "resolveUpDownRound E cl now rnd preds finalPrice =
     m_then (m_catch (on_soroban (Soroban.resolveRound E cl now finalPrice 0 (now div 1000)))
         (\<lambda>e. on_soroban (applyMoneyPathFailure e)))
       (if decEq finalPrice (startPrice rnd) then m_forEach preds (refund_prediction E now (r_id rnd))
        else if decEq (if winning_side rnd finalPrice = UP then poolUp rnd else poolDown rnd) 0 then m_return ()
        else m_forEach preds (\<lambda>p. settle_prediction E now (r_id rnd) (p_side p = Some (winning_side rnd finalPrice))
          (updown_payout E rnd (winning_side rnd finalPrice) p) p))"

definition total_pool :: "arith \<Rightarrow> RoundPriceRange list \<Rightarrow> rat" where
  "total_pool E ranges = foldl (\<lambda>sum range. decAdd E sum (rng_pool range)) (toDecimal 0) ranges"

definition legends_won :: "RoundPriceRange \<Rightarrow> UserPriceRange \<Rightarrow> bool" where
  "legends_won w ur \<longleftrightarrow> decEq (urng_min ur) (rng_min w) \<and> decEq (urng_max ur) (rng_max w)"

definition legends_payout ::
  "arith \<Rightarrow> RoundPriceRange list \<Rightarrow> RoundPriceRange \<Rightarrow> bool \<Rightarrow> prediction_row \<Rightarrow> rat" where
  "legends_payout E ranges w won p =
     (if won then calculatePayout E (toDecimal (p_amount p)) (toDecimal (rng_pool w))
        (decSub E (total_pool E (sortedRanges ranges)) (rng_pool w))
      else toDecimal 0)"

definition settle_legend ::
  "arith \<Rightarrow> int \<Rightarrow> string \<Rightarrow> RoundPriceRange list \<Rightarrow> RoundPriceRange \<Rightarrow> prediction_row \<Rightarrow> ('c app, js_error, unit) comp" where
  "settle_legend E now rid ranges w p =
     (case validateUserPriceRange (p_priceRange p) of
        None \<Rightarrow> m_return ()
      | Some ur \<Rightarrow> settle_prediction E now rid (legends_won w ur) (legends_payout E ranges w (legends_won w ur) p) p)"

definition resolveLegendsRound ::
  "arith \<Rightarrow> int \<Rightarrow> round_row \<Rightarrow> prediction_row list \<Rightarrow> rat \<Rightarrow> ('c app, js_error, unit) comp" where
  "resolveLegendsRound E now rnd preds finalPrice =
     (case parseRoundPriceRanges (priceRanges rnd) of
        Inl e \<Rightarrow> m_throw e
      | Inr ranges \<Rightarrow>
          if ranges = [] then m_throw (App (ValidationError ''LEGENDS round has no configured price ranges''))
          else if \<exists>r \<in> set ranges. \<not> rng_min r < rng_max r
          then m_throw (App (ValidationError ''LEGENDS round has invalid price range data''))
          else (case winningRange finalPrice ranges of
              None \<Rightarrow> m_forEach preds (refund_prediction E now (r_id rnd))
            | Some w \<Rightarrow>
                if decEq (rng_pool w) 0 then m_forEach preds (lose_prediction E now (r_id rnd))
                else m_forEach preds (settle_legend E now (r_id rnd) ranges w)))"

subsection \<open>Settlement\<close>

definition settleable :: "string \<Rightarrow> prediction_row \<Rightarrow> bool" where
  "settleable rid p \<longleftrightarrow> p_roundId p = rid \<and> chainStatus p \<in> {PC_CONFIRMED, PC_NOT_REQUIRED}"

definition find_settleable ::
  "string \<Rightarrow> ('c app, js_error, (round_row \<times> prediction_row list) option) comp" where
  "find_settleable rid =
     m_bind (t_find rounds (\<lambda>r. r_id r = rid)) (\<lambda>found.
       case found of None \<Rightarrow> m_return None
       | Some rnd \<Rightarrow> m_gets (\<lambda>s. Some (rnd, c_findMany (settleable rid) None 0 None (predictions s))))"

definition settle_body ::
  "arith \<Rightarrow> 'c xelma_client \<Rightarrow> int \<Rightarrow> string \<Rightarrow> rat \<Rightarrow>
   ('c app, js_error, RoundLifecycleOutcome \<times> round_row option) comp" where
  "settle_body E cl now rid finalPrice =
     m_bind (find_settleable rid) (\<lambda>found.
       case found of
         None \<Rightarrow> m_return (NO_OP, None)
       | Some (rnd, preds) \<Rightarrow>
           if r_status rnd = RS_RESOLVED then m_return (ALREADY_RESOLVED, Some rnd)
           else if r_status rnd \<noteq> RS_LOCKED then m_return (NO_OP, None)
           else
             m_then (case r_mode rnd of
                 UP_DOWN \<Rightarrow> resolveUpDownRound E cl now rnd preds finalPrice
               | LEGENDS \<Rightarrow> resolveLegendsRound E now rnd preds finalPrice)
             (m_bind (transitionRound E rid RS_RESOLVED (Some (toNumber E (Some finalPrice), now)) False)
               (\<lambda>updated. m_return (UPDATED, Some updated))))"

text \<open>The tables of \<open>s\<close>, except the bets resolved meanwhile and their events.\<close>

definition rollback_settlement :: "'c app \<Rightarrow> 'c app \<Rightarrow> 'c app" where
  "rollback_settlement s s' = s\<lparr>soroban := soroban s', effects := effects s', bets := bets s',
     outboxEvents := (outboxEvents s')\<lparr>rows := filter (\<lambda>(k, e). map_of (rows (outboxEvents s)) k \<noteq> None \<or>
       o_eventType e = OE_BET_RESOLVED) (rows (outboxEvents s'))\<rparr>\<rparr>"

definition assertOraclePriceFresh :: "'n price_oracle \<Rightarrow> int \<Rightarrow> ('c app, js_error, unit) comp" where
  "assertOraclePriceFresh orc now =
     (if \<not> orc_running orc then m_return ()
      else if isStale now orc then
        m_then (emit (Metric ''oracle_resolve_blocked_total''))
          (m_throw (App (ExternalServiceError ''Cannot resolve round: oracle price data is stale'' EXTERNAL_SERVICE_ERROR)))
      else m_return ())"

definition resolveRound ::
  "arith \<Rightarrow> 'c xelma_client \<Rightarrow> 'n price_oracle \<Rightarrow> int \<Rightarrow> string \<Rightarrow> rat \<Rightarrow>
   ('c app, js_error, RoundLifecycleOutcome \<times> round_row option) comp" where
  "resolveRound E cl orc now rid finalPrice =
     m_then (assertOraclePriceFresh orc now)
     (m_bind (find_settleable rid) (\<lambda>found.
       case found of
         None \<Rightarrow> m_return (NO_OP, None)
       | Some (rnd, _) \<Rightarrow>
           if r_status rnd = RS_RESOLVED then m_return (ALREADY_RESOLVED, Some rnd)
           else if r_status rnd \<noteq> RS_LOCKED then m_return (NO_OP, None)
           else
             m_bind (transaction Postgres rollback_settlement (settle_body E cl now rid (toDecimal finalPrice)))
               (\<lambda>(outcome, updated).
             m_then (emit (InvalidateNamespace ''leaderboard''))
             (m_then (if outcome = UPDATED then
                 (case updated of None \<Rightarrow> m_return ()
                  | Some r \<Rightarrow> m_then (emit (Metric ''rounds_resolved_total'')) (emit (EmitRoundResolved (r_id r))))
               else m_return ())
             (m_return (outcome, updated))))))"

subsection \<open>The resolve loop of the oracle service\<close>

definition MAX_RESOLVE_RETRIES :: nat where
  "MAX_RESOLVE_RETRIES = 3"

definition LockLostError :: js_error where
  "LockLostError = JsError ''LockLostError''"

text \<open>\<open>held\<close> is \<open>lock.assertHeld()\<close>, which may throw; \<open>clock\<close> gives the time of each attempt, which
  advances by the back-off between attempts.\<close>

function resolveWithRetry ::
  "arith \<Rightarrow> 'c xelma_client \<Rightarrow> 'n price_oracle \<Rightarrow> (nat \<Rightarrow> int) \<Rightarrow> ('c app, js_error, unit) comp \<Rightarrow> nat \<Rightarrow> string \<Rightarrow> rat \<Rightarrow>
   ('c app, js_error, unit) comp" where
  "resolveWithRetry E cl orc clock held attempt rid price =
     (if attempt > MAX_RESOLVE_RETRIES then m_return ()
      else m_then held
        (m_catch (m_then (resolveRound E cl orc (clock attempt) rid price) (m_return ()))
          (\<lambda>e. if e = LockLostError then m_throw e
               else resolveWithRetry E cl orc clock held (Suc attempt) rid price)))"
  by pat_completeness auto
termination
  by (relation "measure (\<lambda>(E, cl, orc, clock, held, attempt, rid, price). Suc MAX_RESOLVE_RETRIES - attempt)") auto

declare resolveWithRetry.simps [simp del]

definition eligible_rounds :: "int \<Rightarrow> ('c app, js_error, round_row list) comp" where
  "eligible_rounds now = m_gets (\<lambda>s. c_findMany
     (\<lambda>r. r_status r \<in> {RS_ACTIVE, RS_LOCKED} \<and> endTime r \<le> now - 15000) (Some (endTime, False)) 0 None (rounds s))"

definition resolveEligibleRoundsInternal ::
  "arith \<Rightarrow> 'c xelma_client \<Rightarrow> 'n price_oracle \<Rightarrow> int \<Rightarrow> (nat \<Rightarrow> int) \<Rightarrow> ('c app, js_error, unit) comp \<Rightarrow>
   ('c app, js_error, unit) comp" where
  "resolveEligibleRoundsInternal E cl orc now clock held =
     m_catch
       (case orc_price orc of
          None \<Rightarrow> emit (Metric ''oracle_resolve_blocked_total'')
        | Some price \<Rightarrow>
            if decLte price 0 then emit (Metric ''oracle_resolve_blocked_total'')
            else if isStale now orc then emit (Metric ''oracle_resolve_blocked_total'')
            else m_bind (eligible_rounds now) (\<lambda>rs.
              m_forEach rs (\<lambda>r. m_then held (resolveWithRetry E cl orc clock held 1 (r_id r) price))))
       (\<lambda>e. if e = LockLostError then emit (Metric ''oracle_resolve_blocked_total'') else m_return ())"

subsection \<open>One prediction\<close>

text \<open>A computation that always returns and only touches bets and outbox rows.\<close>

definition quiet :: "('c app, js_error, unit) comp \<Rightarrow> bool" where
  "quiet m \<longleftrightarrow> (\<forall>s. wf_db s \<longrightarrow> (\<exists>s'. m s = (Inr (), s') \<and> wf_db s' \<and> core s' = core s \<and>
     soroban s' = soroban s \<and> effects s' = effects s))"

lemma quiet_return [simp]: "quiet (m_return ())"
  by (simp add: quiet_def m_return_def)

lemma quiet_then: "quiet m \<Longrightarrow> quiet n \<Longrightarrow> quiet (m_then m n)"
  unfolding quiet_def m_then_def m_bind_def by (metis (no_types, lifting) case_prod_conv sum.simps(6))

lemma quiet_outbox: "quiet (m_then (outbox_create now ty a b p) (m_return ()))"
  unfolding quiet_def
proof (intro allI impI)
  fix s :: "'a app" assume wf: "wf_db s"
  obtain r c where "outbox_create now ty a b p s = (Inr r, s\<lparr>outboxEvents := c\<rparr>)" using outbox_create_eq by blast
  moreover from this have "wf_db (s\<lparr>outboxEvents := c\<rparr>)"
    using preservesD [OF preserves_outbox_create wf] by (metis snd_conv)
  ultimately show "\<exists>s'. m_then (outbox_create now ty a b p) (m_return ()) s = (Inr (), s') \<and> wf_db s' \<and>
      core s' = core s \<and> soroban s' = soroban s \<and> effects s' = effects s"
    by (simp add: m_then_def m_bind_def m_return_def)
qed

lemma quiet_seq:
  assumes "quiet (m_then m (m_return ()))" and "quiet n"
  shows "quiet (m_then m n)"
  using quiet_then [OF assms] by (simp add: m_then_def m_bind_assoc)

lemma quiet_events: "quiet (result_events E now rid uid won payout amount)"
  unfolding result_events_def Let_def by (rule quiet_seq, rule quiet_outbox, rule quiet_outbox)

lemma bet_step_frame:
  assumes wf: "wf_db s" and f: "\<And>b. b_id (f b) = b_id b"
  shows "\<exists>r s'. bet_step now k skip f ty mk s = (Inr r, s') \<and> wf_db s' \<and> core s' = core s \<and>
    soroban s' = soroban s \<and> effects s' = effects s"
proof -
  obtain r where "bet_step now k skip f ty mk s = (Inr r, snd (bet_step now k skip f ty mk s))"
    by (fastforce simp: bet_step_eq [OF wf f] split: option.split)
  moreover have "core (snd (bet_step now k skip f ty mk s)) = core s"
    "soroban (snd (bet_step now k skip f ty mk s)) = soroban s" "effects (snd (bet_step now k skip f ty mk s)) = effects s"
    by (simp_all add: bet_step_eq [OF wf f] core_def split: option.split)
  ultimately show ?thesis using bet_step_wf [OF wf f] by blast
qed

lemma quiet_bet: "quiet (resolve_confirmed_bet E now uid rid won payout)"
  unfolding quiet_def
proof (intro allI impI)
  fix s :: "'a app" assume wf: "wf_db s"
  let ?m = "\<lambda>k. resolveBet Postgres E now k won payout"
  have step: "\<exists>r s'. ?m k s = (Inr r, s') \<and> wf_db s' \<and> core s' = core s \<and> soroban s' = soroban s \<and> effects s' = effects s" for k
  proof -
    have "tx Postgres (resolve_body now k won payout) s = resolve_body now k won payout s"
      unfolding bodies_bet_step by (rule bet_step_tx [OF wf]) simp
    moreover have "\<exists>r s'. resolve_body now k won payout s = (Inr r, s') \<and> wf_db s' \<and> core s' = core s \<and>
        soroban s' = soroban s \<and> effects s' = effects s"
      unfolding bodies_bet_step by (rule bet_step_frame [OF wf]) simp
    ultimately show ?thesis by (auto simp: resolveBet_def m_bind_def m_return_def)
  qed
  show "\<exists>s'. resolve_confirmed_bet E now uid rid won payout s = (Inr (), s') \<and> wf_db s' \<and>
      core s' = core s \<and> soroban s' = soroban s \<and> effects s' = effects s"
  proof (cases "c_findFirst (\<lambda>b. b_userId b = uid \<and> b_roundId b = Some rid \<and> b_status b = BS_CONFIRMED) None (bets s)")
    case None
    with wf show ?thesis by (simp add: resolve_confirmed_bet_def m_bind_def m_gets_def m_return_def)
  next
    case (Some b)
    with step [of "b_id b"] show ?thesis
      by (auto simp: resolve_confirmed_bet_def m_bind_def m_gets_def m_then_def m_return_def)
  qed
qed

definition outcome_row :: "arith \<Rightarrow> bool option \<Rightarrow> rat \<Rightarrow> prediction_row \<Rightarrow> prediction_row" where
  "outcome_row E won x p = p\<lparr>p_won := won, p_payout := Some (col E x)\<rparr>"

lemma outcome_row_fields [simp]:
  "p_id (outcome_row E won x p) = p_id p" "p_roundId (outcome_row E won x p) = p_roundId p"
  "p_userId (outcome_row E won x p) = p_userId p" "p_amount (outcome_row E won x p) = p_amount p"
  "p_side (outcome_row E won x p) = p_side p" "compensatedAt (outcome_row E won x p) = compensatedAt p"
  "chainStatus (outcome_row E won x p) = chainStatus p" "p_payout (outcome_row E won x p) = Some (col E x)"
  "p_won (outcome_row E won x p) = won"
  by (simp_all add: outcome_row_def)

lemma settle_row_eq:
  assumes wf: "wf_db s" and p: "peek (p_id p) (predictions s) = Some p" and u: "peek (p_userId p) (users s) = Some u"
    and fu: "\<And>u. u_id (fu u) = u_id u" and ev: "quiet ev"
  obtains s' where "settle_row E now rid won x fu ev p s = (Inr (), s')" "wf_db s'"
    "users s' = c_set (p_userId p) (fu u) (users s)" "rounds s' = rounds s"
    "predictions s' = c_set (p_id p) (outcome_row E won x p) (predictions s)"
    "soroban s' = soroban s" "effects s' = effects s"
proof -
  let ?s1 = "s\<lparr>predictions := c_set (p_id p) (outcome_row E won x p) (predictions s)\<rparr>"
  let ?s2 = "?s1\<lparr>users := c_set (p_userId p) (fu u) (users s)\<rparr>"
  have wf1: "wf_db ?s1" by (rule predictions.set_wf [OF wf p]) simp
  have u1: "peek (p_userId p) (users ?s1) = Some u" by (simp add: u)
  have wf2: "wf_db ?s2" using users.set_wf [OF wf1 u1, of "fu u"] users.peek_id [OF wf u] fu by simp
  have "quiet (m_then (resolve_confirmed_bet E now (p_userId p) rid (won = Some True) x) ev)"
    by (rule quiet_then [OF quiet_bet ev])
  with wf2 obtain s' where s': "m_then (resolve_confirmed_bet E now (p_userId p) rid (won = Some True) x) ev ?s2 = (Inr (), s')"
    "wf_db s'" "core s' = core ?s2" "soroban s' = soroban s" "effects s' = effects s" unfolding quiet_def by fastforce
  have "record_outcome E (p_id p) won x s = (Inr (outcome_row E won x p), ?s1)"
    unfolding record_outcome_def using predictions.update_id [OF wf, of "outcome_row E won x" P2025 "p_id p"] p
    by (simp add: outcome_row_def [abs_def])
  moreover have "t_update P2025 users users_update (\<lambda>u. u_id u = p_userId p) fu ?s1 = (Inr (fu u), ?s2)"
    using users.update_id [OF wf1 fu, of P2025 "p_userId p"] u by simp
  ultimately have "settle_row E now rid won x fu ev p s = (Inr (), s')"
    by (simp only: settle_row_def m_then_Inr s'(1))
  from that [OF this s'(2)] s'(3-) show thesis by (simp add: core_def)
qed

subsection \<open>Settling a list of predictions\<close>

text \<open>What settling \<open>ps\<close> with outcomes \<open>won\<close> and amounts \<open>x\<close> does to users and predictions.\<close>

definition paid ::
  "arith \<Rightarrow> (prediction_row \<Rightarrow> bool option) \<Rightarrow> (prediction_row \<Rightarrow> rat) \<Rightarrow> prediction_row list \<Rightarrow> 'c app \<Rightarrow> 'c app \<Rightarrow> bool" where
  "paid E won x ps s s' \<longleftrightarrow>
     (\<forall>p \<in> set ps. peek (p_id p) (predictions s') = Some (outcome_row E (won p) (x p) p)) \<and>
     (\<forall>k. k \<notin> p_id ` set ps \<longrightarrow> peek k (predictions s') = peek k (predictions s)) \<and>
     (\<forall>k. balance_of s' k = map_option (\<lambda>b. b + (\<Sum>p\<leftarrow>ps. if p_userId p = k then col E (x p) else 0)) (balance_of s k)) \<and>
     c_sum virtualBalance (users s') = c_sum virtualBalance (users s) + (\<Sum>p\<leftarrow>ps. col E (x p))"

definition payable :: "'c app \<Rightarrow> prediction_row \<Rightarrow> bool" where
  "payable s p \<longleftrightarrow> peek (p_id p) (predictions s) = Some p \<and> peek (p_userId p) (users s) \<noteq> None \<and>
     chainStatus p \<in> {PC_CONFIRMED, PC_NOT_REQUIRED}"

context decimal_arith
begin

lemma settle_step:
  assumes books: "books s" and pay: "payable s p" and x: "0 \<le> x"
    and fu: "\<And>u. u_id (fu u) = u_id u" "\<And>u. on_grid (virtualBalance u) \<Longrightarrow> virtualBalance (fu u) = increment E (virtualBalance u) x"
    and ev: "quiet ev"
  obtains s' where "settle_row E now rid won x fu ev p s = (Inr (), s')" "books s'" "rounds s' = rounds s"
    "soroban s' = soroban s" "effects s' = effects s"
    "\<And>k. peek k (predictions s') = (if k = p_id p then Some (outcome_row E won x p) else peek k (predictions s))"
    "\<And>k. balance_of s' k = map_option (\<lambda>b. b + (if k = p_userId p then col E x else 0)) (balance_of s k)"
    "c_sum virtualBalance (users s') = c_sum virtualBalance (users s) + col E x"
proof -
  note wf = books_wf [OF books]
  have p: "peek (p_id p) (predictions s) = Some p" "chainStatus p \<in> {PC_CONFIRMED, PC_NOT_REQUIRED}"
    using pay by (auto simp: payable_def)
  obtain u where u: "peek (p_userId p) (users s) = Some u" using pay by (auto simp: payable_def)
  obtain s' where s': "settle_row E now rid won x fu ev p s = (Inr (), s')" "wf_db s'"
    "users s' = c_set (p_userId p) (fu u) (users s)" "rounds s' = rounds s"
    "predictions s' = c_set (p_id p) (outcome_row E won x p) (predictions s)"
    "soroban s' = soroban s" "effects s' = effects s"
    by (rule settle_row_eq [OF wf p(1) u fu(1) ev])
  have g: "on_grid (virtualBalance u)" "0 \<le> virtualBalance u" using books_user [OF books u] books_balance [OF books u] by auto
  then have b: "virtualBalance (fu u) = virtualBalance u + col E x" using fu(2) x by (simp add: increment_shift)
  have stakes: "c_sum (stake_on k sd) (predictions s') = c_sum (stake_on k sd) (predictions s)" for k sd
    using p(1) by (simp add: s'(5) c_sum_set stake_on_def)
  have "prediction_ok (outcome_row E won x p)"
    using books_prediction [OF books p(1)] p(2) by (auto simp: prediction_ok_def)
  moreover have "owned (users s') (predictions s')"
    using books_owned [OF books] p(1) by (auto simp: owned_def s'(3,5))
  ultimately have "books s'"
    using books s'(2) g b x
    by (simp add: books_def s'(3,4) pools_ok_def stakes) (auto simp: s'(5) col_nonneg split: if_splits)
  moreover have "c_sum virtualBalance (users s') = c_sum virtualBalance (users s) + col E x"
    using u b by (simp add: s'(3) c_sum_set)
  moreover have "balance_of s' k = map_option (\<lambda>b. b + (if k = p_userId p then col E x else 0)) (balance_of s k)" for k
    using u b by (auto simp: balance_of_def s'(3) option.map_comp comp_def)
  ultimately show thesis
    by (intro that [OF s'(1) _ s'(4,6,7)]) (auto simp: s'(5))
qed

lemma settle_loop:
  assumes "books s" and "distinct (map p_id ps)" and "\<forall>p \<in> set ps. payable s p \<and> 0 \<le> x p"
    and fu: "\<And>p u. u_id (fu p u) = u_id u"
      "\<And>p u. on_grid (virtualBalance u) \<Longrightarrow> virtualBalance (fu p u) = increment E (virtualBalance u) (x p)"
    and ev: "\<And>p. quiet (ev p)"
  shows "\<exists>s'. m_forEach ps (\<lambda>p. settle_row E now rid (won p) (x p) (fu p) (ev p) p) s = (Inr (), s') \<and> books s' \<and>
    rounds s' = rounds s \<and> soroban s' = soroban s \<and> effects s' = effects s \<and> paid E won x ps s s'"
  using assms(1-3)
proof (induction ps arbitrary: s)
  case Nil
  then show ?case by (auto simp: m_return_def paid_def option.map_ident)
next
  case (Cons p ps)
  obtain s1 where s1: "settle_row E now rid (won p) (x p) (fu p) (ev p) p s = (Inr (), s1)" "books s1"
    "rounds s1 = rounds s" "soroban s1 = soroban s" "effects s1 = effects s"
    "\<And>k. peek k (predictions s1) = (if k = p_id p then Some (outcome_row E (won p) (x p) p) else peek k (predictions s))"
    "\<And>k. balance_of s1 k = map_option (\<lambda>b. b + (if k = p_userId p then col E (x p) else 0)) (balance_of s k)"
    "c_sum virtualBalance (users s1) = c_sum virtualBalance (users s) + col E (x p)"
    by (rule settle_step [OF Cons.prems(1) _ _ fu ev, where p = p and won = "won p" and now = now and rid = rid])
      (use Cons.prems in auto)
  have "payable s1 q" if "q \<in> set ps" for q
  proof -
    have "peek (p_userId q) (users s1) \<noteq> None \<longleftrightarrow> peek (p_userId q) (users s) \<noteq> None"
      using s1(7) [of "p_userId q"] by (cases "peek (p_userId q) (users s)") (auto simp: balance_of_def)
    moreover have "p_id q \<noteq> p_id p" using that Cons.prems(2) by (metis distinct.simps(2) image_eqI list.simps(9) set_map)
    ultimately show ?thesis using that Cons.prems(3) s1(6) by (auto simp: payable_def)
  qed
  with Cons.IH [OF s1(2)] Cons.prems obtain s2 where s2:
    "m_forEach ps (\<lambda>p. settle_row E now rid (won p) (x p) (fu p) (ev p) p) s1 = (Inr (), s2)" "books s2"
    "rounds s2 = rounds s1" "soroban s2 = soroban s1" "effects s2 = effects s1" "paid E won x ps s1 s2" by auto
  have "paid E won x (p # ps) s s2"
    using s2(6) s1(6-8) Cons.prems(2) by (auto simp: paid_def option.map_comp comp_def add.assoc intro!: option.map_cong0)
  with s1 s2 show ?case by (auto simp: m_bind_def)
qed

end

subsection \<open>The predictions of a settlement\<close>

definition settle_list :: "string \<Rightarrow> 'c app \<Rightarrow> prediction_row list" where
  "settle_list rid s = filtered (settleable rid) (predictions s)"

lemma settle_list_props:
  assumes "books s"
  shows "distinct (map p_id (settle_list rid s))" "\<forall>p \<in> set (settle_list rid s). payable s p"
proof -
  have wf: "wf_t p_id (predictions s)" using assms by (rule predictions.tbl_wf [OF books_wf])
  show "distinct (map p_id (settle_list rid s))" unfolding settle_list_def by (rule filtered_distinct [OF wf])
  show "\<forall>p \<in> set (settle_list rid s). payable s p"
  proof
    fix p assume "p \<in> set (settle_list rid s)"
    then have p: "peek (p_id p) (predictions s) = Some p" "settleable rid p"
      using filtered_memD [of "predictions s" p "settleable rid"] wf by (auto simp: settle_list_def wf_t_def)
    then have "peek (p_userId p) (users s) \<noteq> None" by (auto dest: ownedD [OF books_owned [OF assms]])
    with p show "payable s p" by (simp add: payable_def settleable_def)
  qed
qed

lemma find_settleable_eq:
  assumes "wf_db s"
  shows "find_settleable rid s = (Inr (map_option (\<lambda>r. (r, settle_list rid s)) (peek rid (rounds s))), s)"
  using assms by (simp add: find_settleable_def m_bind_def find_simps m_return_def settle_list_def c_findMany_def
      split: option.split)

lemma moneyPathFailure_eq:
  "on_soroban (applyMoneyPathFailure e) s = (if isFailClosed (soroban s) then Inl (as_error e) else Inr (), s)"
  by (simp add: on_soroban_def m_zoom_def applyMoneyPathFailure_def m_bind_def m_gets_def m_throw_def m_return_def)

lemma preserves_limiter_execute:
  assumes "\<And>s f. I s \<Longrightarrow> I (upd f s)" and "preserves I m"
  shows "preserves I (limiter_execute get upd name m)"
proof (rule preservesI)
  fix s assume s: "I s"
  obtain r l where l: "limiter_begin name (get s) = (r, l)" by fastforce
  obtain x s' where x: "m (upd (\<lambda>_. l) s) = (x, s')" by fastforce
  have "I s'" using preservesD [OF assms(2) assms(1) [OF s, of "\<lambda>_. l"]] x by simp
  with s l x assms(1) show "I (snd (limiter_execute get upd name m s))"
    by (cases r) (simp_all add: limiter_execute_def)
qed

lemma chain_keeps_config: "preserves (\<lambda>so. sor_config so = c) (Soroban.resolveRound E cl now price k t)"
proof -
  let ?I = "\<lambda>so. sor_config so = c"
  have send: "preserves ?I (signAndSend cl sg call)" for sg call
    unfolding signAndSend_def on_chain_def by (intro preserve_intros preserves_zoom) simp_all
  have "preserves ?I (unwrap_timeout (withTimeout opts m))" if "preserves ?I m" for opts and m :: "('a soroban, js_error, unit) comp"
  proof (rule preservesI)
    fix so :: "'a soroban" assume so: "?I so"
    obtain tr so' where l: "timeout_loop opts m 0 [] None so = (tr, so')" by fastforce
    from timeout_loop_preserves [of ?I, OF that so, of opts 0 "[]" None] l have "?I so'" by simp
    with l show "?I (snd (unwrap_timeout (withTimeout opts m) so))"
      by (cases "tr_outcome tr") (simp_all add: unwrap_timeout_def withTimeout_def)
  qed
  then have call: "preserves ?I (callWithBreaker now (withTimeout opts m))" if "preserves ?I m"
    for opts and m :: "('a soroban, js_error, unit) comp"
    unfolding callWithBreaker_def using that
    by (intro preserve_intros preserves_limiter_execute preserves_cb_execute) simp_all
  have "preserves ?I ensureInitialized" "preserves ?I (unwrap_or_map r)" for r :: "unit timeout_result"
    unfolding unwrap_or_map_def
    by (auto simp: preserves_def ensureInitialized_def m_return_def m_throw_def split: sum.split)
  then show ?thesis
    unfolding Soroban.resolveRound_def mutating_def by (intro preserve_intros call send) simp_all
qed

lemma chain_resolve_cases:
  assumes "preserves (\<lambda>so. sor_config so = sor_config (soroban s)) m"
  obtains (resolved) so where "m_catch (on_soroban m) (\<lambda>e. on_soroban (applyMoneyPathFailure e)) s = (Inr (), s\<lparr>soroban := so\<rparr>)"
  | (failed) e so where "m_catch (on_soroban m) (\<lambda>e. on_soroban (applyMoneyPathFailure e)) s = (Inl e, s\<lparr>soroban := so\<rparr>)"
      "isFailClosed (soroban s)"
proof -
  obtain y so where m: "m (soroban s) = (y, so)" by fastforce
  then have y: "on_soroban m s = (y, s\<lparr>soroban := so\<rparr>)" by (simp add: on_soroban_def m_zoom_def)
  have cfg: "isFailClosed so = isFailClosed (soroban s)"
    using preservesD [OF assms, of "soroban s"] m by (simp add: isFailClosed_def)
  show thesis
  proof (cases y)
    case (Inr a)
    show thesis by (rule that(1) [of so]) (simp add: m_catch_def y Inr)
  next
    case (Inl e)
    show thesis
    proof (cases "isFailClosed so")
      case True
      with Inl cfg show thesis by (intro that(2) [of "as_error e" so]) (simp_all add: m_catch_def y moneyPathFailure_eq)
    next
      case False
      with Inl show thesis by (intro that(1) [of so]) (simp add: m_catch_def y moneyPathFailure_eq)
    qed
  qed
qed

lemma books_soroban [simp]: "books (s\<lparr>soroban := so\<rparr>) = books s"
  by (simp add: books_def wf_db_def)

lemma settle_list_soroban [simp]: "settle_list rid (s\<lparr>soroban := so\<rparr>) = settle_list rid s"
  by (simp add: settle_list_def)

lemma paid_soroban [simp]: "paid E won x ps (s\<lparr>soroban := so\<rparr>) s' = paid E won x ps s s'"
  by (simp add: paid_def balance_of_def)

lemma settle_list_amounts:
  assumes "books s" and "p \<in> set (settle_list rid s)"
  shows "on_grid (p_amount p) \<and> 0 \<le> p_amount p \<and> compensatedAt p = None \<and> p_roundId p = rid"
proof -
  have "payable s p" using settle_list_props(2) [OF assms(1)] assms(2) by blast
  then show ?thesis using books_prediction [OF assms(1)] assms(2)
    by (auto simp: payable_def prediction_ok_def settle_list_def settleable_def filtered_def)
qed

context decimal_arith
begin

lemma payout_nonneg: "0 \<le> s \<Longrightarrow> 0 \<le> W \<Longrightarrow> 0 \<le> L \<Longrightarrow> 0 \<le> calculatePayout E s W L"
  by (auto simp: calculatePayout_def decimal_defs intro!: dround_nonneg add_nonneg_nonneg mult_nonneg_nonneg
      split: option.splits if_splits)

lemma refund_loop:
  assumes books: "books s"
  shows "\<exists>s'. m_forEach (settle_list rid s) (refund_prediction E now rid) s = (Inr (), s') \<and> books s' \<and> rounds s' = rounds s \<and>
    soroban s' = soroban s \<and> effects s' = effects s \<and> paid E (\<lambda>_. None) (refund_amount E) (settle_list rid s) s s'"
  unfolding refund_prediction_def [abs_def]
proof (rule settle_loop [OF books settle_list_props(1) [OF books]])
  show "\<forall>p \<in> set (settle_list rid s). payable s p \<and> 0 \<le> refund_amount E p"
    using settle_list_props(2) [OF books] settle_list_amounts [OF books]
    by (auto simp: refund_amount_def toNumber_def toDecimal_def toNum_nonneg)
qed simp_all

lemma payout_positive:
  assumes books: "books s" and rnd: "peek rid (rounds s) = Some rnd" "r_mode rnd = UP_DOWN"
  shows "\<forall>p \<in> set (settle_list rid s). 0 \<le> updown_payout E rnd w p"
  using settle_list_amounts [OF books] pools_grid [OF books rnd]
  by (auto simp: updown_payout_def toDecimal_def Let_def intro!: payout_nonneg)

lemma winners_loop:
  assumes books: "books s" and rnd: "peek rid (rounds s) = Some rnd" "r_mode rnd = UP_DOWN"
  shows "\<exists>s'. m_forEach (settle_list rid s) (\<lambda>p. settle_prediction E now rid (p_side p = Some w) (updown_payout E rnd w p) p) s = (Inr (), s') \<and>
    books s' \<and> rounds s' = rounds s \<and> soroban s' = soroban s \<and> effects s' = effects s \<and>
    paid E (\<lambda>p. Some (p_side p = Some w)) (\<lambda>p. toNum E (updown_payout E rnd w p)) (settle_list rid s) s s'"
  unfolding settle_prediction_def Let_def toNumber_def option.case
proof (rule settle_loop [OF books settle_list_props(1) [OF books]])
  show "\<forall>p \<in> set (settle_list rid s). payable s p \<and> 0 \<le> toNum E (updown_payout E rnd w p)"
    using payout_positive [OF books rnd] settle_list_props(2) [OF books] toNum_nonneg by auto
qed (simp_all add: quiet_events)

end

subsection \<open>Settling an UP/DOWN round\<close>

text \<open>The predictions an UP/DOWN settlement touches, what it credits for each, and the outcome it records.\<close>

definition unchanged_price :: "round_row \<Rightarrow> rat \<Rightarrow> bool" where
  "unchanged_price rnd price \<longleftrightarrow> price = startPrice rnd"

definition winning_pool :: "round_row \<Rightarrow> rat \<Rightarrow> rat" where
  "winning_pool rnd price = (if winning_side rnd price = UP then poolUp rnd else poolDown rnd)"

definition updown_settled :: "round_row \<Rightarrow> rat \<Rightarrow> 'c app \<Rightarrow> prediction_row list" where
  "updown_settled rnd price s =
     (if \<not> unchanged_price rnd price \<and> winning_pool rnd price = 0 then [] else settle_list (r_id rnd) s)"

definition updown_credit :: "arith \<Rightarrow> round_row \<Rightarrow> rat \<Rightarrow> prediction_row \<Rightarrow> rat" where
  "updown_credit E rnd price p =
     (if unchanged_price rnd price then refund_amount E p
      else toNum E (updown_payout E rnd (winning_side rnd price) p))"

definition updown_won :: "round_row \<Rightarrow> rat \<Rightarrow> prediction_row \<Rightarrow> bool option" where
  "updown_won rnd price p =
     (if unchanged_price rnd price then None else Some (p_side p = Some (winning_side rnd price)))"

definition fresh_enough :: "'n price_oracle \<Rightarrow> int \<Rightarrow> bool" where
  "fresh_enough orc now \<longleftrightarrow> \<not> orc_running orc \<or> \<not> isStale now orc"

lemma paid_frame:
  "users s' = users t \<Longrightarrow> predictions s' = predictions t \<Longrightarrow> paid E won x ps s t \<Longrightarrow> paid E won x ps s s'"
  by (simp add: paid_def balance_of_def)

context decimal_arith
begin

lemma updown_cases:
  assumes books: "books s" and rnd: "peek rid (rounds s) = Some rnd" "r_mode rnd = UP_DOWN"
  obtains (failed) e so where
      "resolveUpDownRound E cl now rnd (settle_list rid s) price s = (Inl e, s\<lparr>soroban := so\<rparr>)" "isFailClosed (soroban s)"
  | (settled) s' where
      "resolveUpDownRound E cl now rnd (settle_list rid s) price s = (Inr (), s')" "books s'" "rounds s' = rounds s"
      "effects s' = effects s" "paid E (updown_won rnd price) (updown_credit E rnd price) (updown_settled rnd price s) s s'"
proof (rule chain_resolve_cases [OF chain_keeps_config [where E = E and cl = cl and now = now and price = price and
        k = 0 and t = "now div 1000" and c = "sor_config (soroban s)"]], goal_cases resolved failed)
  case (failed e so)
  from failed(3,4) show thesis by (intro that(1)) (simp_all add: resolveUpDownRound_def m_then_def m_bind_def)
next
  case (resolved so)
  let ?s = "s\<lparr>soroban := so\<rparr>" and ?w = "winning_side rnd price"
  have rid: "r_id rnd = rid" by (rule books_user_round [OF books rnd(1)])
  have books': "books ?s" and rnd': "peek rid (rounds ?s) = Some rnd" using books rnd(1) by simp_all
  have run: "resolveUpDownRound E cl now rnd (settle_list rid s) price s =
    (if unchanged_price rnd price then m_forEach (settle_list rid s) (refund_prediction E now rid)
     else if winning_pool rnd price = 0 then m_return ()
     else m_forEach (settle_list rid s) (\<lambda>p. settle_prediction E now rid (p_side p = Some ?w) (updown_payout E rnd ?w p) p)) ?s"
    using resolved(3) by (simp add: resolveUpDownRound_def m_then_Inr rid unchanged_price_def winning_pool_def decEq_def toDecimal_def)
  show thesis
  proof (cases "unchanged_price rnd price")
    case True
    with run refund_loop [OF books', of rid now] show thesis
      by (auto simp: updown_won_def [abs_def] updown_credit_def [abs_def] updown_settled_def rid intro: that(2))
  next
    case changed: False
    show thesis
    proof (cases "winning_pool rnd price = 0")
      case True
      with changed run books' show thesis
        by (intro that(2) [of ?s]) (simp_all add: m_return_def updown_settled_def paid_def balance_of_def option.map_ident)
    next
      case False
      with changed run winners_loop [OF books' rnd' rnd(2), of now ?w] show thesis
        by (auto simp: updown_won_def [abs_def] updown_credit_def [abs_def] updown_settled_def rid intro: that(2))
    qed
  qed
qed

lemma books_moved:
  assumes "books s" and "peek rid (rounds s) = Some rnd"
  shows "books (s\<lparr>rounds := c_set rid (moved E t d rnd) (rounds s), effects := fx\<rparr>)"
proof -
  have "wf_db (s\<lparr>rounds := c_set rid (moved E t d rnd) (rounds s)\<rparr>)"
    using rounds.set_wf [OF books_wf [OF assms(1)] assms(2)] books_user_round [OF assms] by simp
  with assms show ?thesis by (auto simp: books_def pools_ok_def wf_db_def)
qed

lemma settle_body_cases:
  assumes books: "books s" and rnd: "peek rid (rounds s) = Some rnd" "r_mode rnd = UP_DOWN" "r_status rnd = RS_LOCKED"
  obtains (failed) e so where "settle_body E cl now rid price s = (Inl e, s\<lparr>soroban := so\<rparr>)" "isFailClosed (soroban s)"
  | (settled) s' where
      "settle_body E cl now rid price s = (Inr (UPDATED, Some (moved E RS_RESOLVED (Some (toNum E price, now)) rnd)), s')"
      "books s'" "rounds s' = c_set rid (moved E RS_RESOLVED (Some (toNum E price, now)) rnd) (rounds s)"
      "paid E (updown_won rnd price) (updown_credit E rnd price) (updown_settled rnd price s) s s'"
proof (rule updown_cases [OF books rnd(1,2), where cl = cl and now = now and price = price], goal_cases failed settled)
  case (failed e so)
  from failed(3,4) show thesis
    by (intro that(1))
      (simp_all add: settle_body_def m_bind_def find_settleable_eq books_wf [OF books] rnd m_then_def)
next
  case (settled s1)
  let ?r = "moved E RS_RESOLVED (Some (toNum E price, now)) rnd"
  let ?s = "s1\<lparr>rounds := c_set rid ?r (rounds s1), effects := effects s1 @ [InvalidateNamespace ''rounds'']\<rparr>"
  have rnd1: "peek rid (rounds s1) = Some rnd" using settled(5) rnd(1) by simp
  have "transitionRound E rid RS_RESOLVED (Some (toNum E price, now)) False s1 = (Inr ?r, ?s)"
    using transitionRound_eq [OF books_wf [OF settled(4)] rnd1, of RS_RESOLVED E "Some (toNum E price, now)" False] rnd(3)
    by (simp add: isLegalRoundTransition_def)
  with settled(3) have "settle_body E cl now rid price s = (Inr (UPDATED, Some ?r), ?s)"
    by (simp add: settle_body_def m_bind_def find_settleable_eq books_wf [OF books] rnd m_then_def m_return_def toNumber_def)
  then show thesis
    using books_moved [OF settled(4) rnd1] settled(5,7) paid_frame [of ?s s1 E]
    by (intro that(2) [of ?s]) simp_all
qed

lemma resolveRound_cases:
  assumes books: "books s" and rnd: "peek rid (rounds s) = Some rnd" "r_mode rnd = UP_DOWN" "r_status rnd = RS_LOCKED"
    and fresh: "fresh_enough orc now"
  obtains (failed) e s' where "resolveRound E cl orc now rid price s = (Inl e, s')" "core s' = core s" "isFailClosed (soroban s)"
  | (settled) s' where
      "resolveRound E cl orc now rid price s = (Inr (UPDATED, Some (moved E RS_RESOLVED (Some (toNum E price, now)) rnd)), s')"
      "books s'" "rounds s' = c_set rid (moved E RS_RESOLVED (Some (toNum E price, now)) rnd) (rounds s)"
      "paid E (updown_won rnd price) (updown_credit E rnd price) (updown_settled rnd price s) s s'"
proof -
  have "assertOraclePriceFresh orc now s = (Inr (), s)"
    using fresh by (auto simp: fresh_enough_def assertOraclePriceFresh_def m_return_def)
  then have run: "resolveRound E cl orc now rid price s =
    m_bind (transaction Postgres rollback_settlement (settle_body E cl now rid price)) (\<lambda>(outcome, updated).
       m_then (emit (InvalidateNamespace ''leaderboard''))
         (m_then (if outcome = UPDATED then
             (case updated of None \<Rightarrow> m_return ()
              | Some r \<Rightarrow> m_then (emit (Metric ''rounds_resolved_total'')) (emit (EmitRoundResolved (r_id r))))
           else m_return ())
         (m_return (outcome, updated)))) s"
    unfolding resolveRound_def
    by (simp add: m_then_Inr m_bind_def find_settleable_eq books_wf [OF books] rnd toDecimal_def)
  show thesis
  proof (rule settle_body_cases [OF books rnd, where cl = cl and now = now and price = price], goal_cases failed settled)
    case (failed e so)
    then have "resolveRound E cl orc now rid price s = (Inl e, rollback_settlement s (s\<lparr>soroban := so\<rparr>))"
      unfolding run by (simp add: m_bind_def transaction_def)
    with failed(2) show thesis by (intro that(1) [of e "rollback_settlement s (s\<lparr>soroban := so\<rparr>)"]) (simp_all add: rollback_settlement_def core_def)
  next
    case (settled s1)
    let ?r = "moved E RS_RESOLVED (Some (toNum E price, now)) rnd"
    obtain fx where "resolveRound E cl orc now rid price s = (Inr (UPDATED, Some ?r), s1\<lparr>effects := fx\<rparr>)"
      unfolding run using settled(1)
      by (auto simp: m_bind_def transaction_def m_then_def m_return_def emit_eq)
    then show thesis
      using settled(2-4) paid_frame [of "s1\<lparr>effects := fx\<rparr>" s1 E]
      by (intro that(2) [of "s1\<lparr>effects := fx\<rparr>"]) (simp_all add: books_def wf_db_def)
  qed
qed

lemma credits_bound:
  assumes "\<forall>p \<in> set ps. 0 \<le> y p"
  shows "(\<Sum>p\<leftarrow>ps. col E (toNum E (y p))) \<le> (1 + 1 / 2 ^ 52) * (\<Sum>p\<leftarrow>ps. y p) + of_nat (length ps) / (2 * 10 ^ 8)"
  using assms
proof (induction ps)
  case (Cons p ps)
  have "toNum E (y p) \<le> (1 + 1 / 2 ^ 52) * y p" using abs_le_D1 [OF toNum_err [of "y p"]] Cons.prems by (simp add: field_simps)
  moreover have "col E (toNum E (y p)) \<le> toNum E (y p) + 1 / (2 * 10 ^ 8)" using col_err [of "toNum E (y p)"] by linarith
  ultimately show ?case using Cons by (simp add: algebra_simps add_divide_distrib)
qed simp

lemma winning_stakes:
  assumes "books s" and "peek rid (rounds s) = Some rnd" and "r_mode rnd = UP_DOWN"
  shows "(\<Sum>p\<leftarrow>filter (\<lambda>p. p_side p = Some (winning_side rnd price)) (settle_list rid s). p_amount p) \<le> winning_pool rnd price"
proof -
  let ?w = "winning_side rnd price" and ?P = "\<lambda>p. settleable rid p \<and> p_side p = Some (winning_side rnd price)"
  have "(\<Sum>p\<leftarrow>filter (\<lambda>p. p_side p = Some ?w) (settle_list rid s). p_amount p) =
      c_sum (\<lambda>p. if ?P p then p_amount p else 0) (predictions s)"
    unfolding c_sum_filtered by (simp add: settle_list_def filtered_def conj_commute)
  also have "\<dots> \<le> c_sum (stake_on rid ?w) (predictions s)"
    by (rule c_sum_mono [OF predictions.tbl_wf [OF books_wf [OF assms(1)]]])
      (use books_prediction [OF assms(1)] in \<open>auto simp: stake_on_def settleable_def prediction_ok_def\<close>)
  also have "\<dots> = winning_pool rnd price"
    using books_round [OF assms(1,2)] books_user_round [OF assms(1,2)] assms(3)
    by (cases ?w) (auto simp: pools_ok_def winning_pool_def)
  finally show ?thesis .
qed

lemma payouts_bound:
  assumes "books s" and rnd: "peek rid (rounds s) = Some rnd" "r_mode rnd = UP_DOWN" and pos: "winning_pool rnd price \<noteq> 0"
  shows "(\<Sum>p\<leftarrow>settle_list rid s. updown_payout E rnd (winning_side rnd price) p) \<le>
    (1 + unit_err) ^ 3 * (poolUp rnd + poolDown rnd)"
proof -
  define w where "w = winning_side rnd price"
  define W where "W = winning_pool rnd price"
  define L where "L = (if w = UP then poolDown rnd else poolUp rnd)"
  define ws where "ws = filter (\<lambda>p. p_side p = Some w) (settle_list rid s)"
  have g: "0 \<le> poolUp rnd" "0 \<le> poolDown rnd" using pools_grid [OF assms(1) rnd] by auto
  have WL: "0 < W" "0 \<le> L" "W + L = poolUp rnd + poolDown rnd"
    using g pos by (auto simp: W_def L_def w_def winning_pool_def)
  have le: "(\<Sum>p\<leftarrow>ws. p_amount p) \<le> W" unfolding ws_def w_def W_def by (rule winning_stakes [OF assms(1) rnd])
  have "(\<Sum>p\<leftarrow>ps. updown_payout E rnd w p) =
      (\<Sum>p\<leftarrow>filter (\<lambda>p. p_side p = Some w) ps. calculatePayout E (p_amount p) W L)" for ps
    by (induction ps) (simp_all add: updown_payout_def toDecimal_def W_def L_def winning_pool_def w_def)
  then have "(\<Sum>p\<leftarrow>settle_list rid s. updown_payout E rnd w p) = (\<Sum>x\<leftarrow>map p_amount ws. calculatePayout E x W L)"
    by (simp add: ws_def comp_def)
  also have "\<dots> \<le> (1 + unit_err) ^ 3 * (sum_list (map p_amount ws) * (W + L) / W)"
    by (rule payouts_total) (use WL settle_list_amounts [OF assms(1)] in \<open>auto simp: ws_def\<close>)
  also have "\<dots> \<le> (1 + unit_err) ^ 3 * (W + L)"
  proof (rule mult_left_mono)
    have "sum_list (map p_amount ws) * (W + L) \<le> W * (W + L)" using le WL by (intro mult_right_mono) auto
    with WL show "sum_list (map p_amount ws) * (W + L) / W \<le> W + L" by (simp add: field_simps)
  qed (simp add: unit_err_def)
  finally show ?thesis unfolding w_def WL(3) .
qed

lemma settlement_total:
  assumes books: "books s" and rnd: "peek rid (rounds s) = Some rnd" "r_mode rnd = UP_DOWN" and price: "price \<noteq> startPrice rnd"
    and paid: "paid E (updown_won rnd price) (updown_credit E rnd price) (updown_settled rnd price s) s s'"
  shows "c_sum virtualBalance (users s') \<le> c_sum virtualBalance (users s) +
    (1 + 1 / 2 ^ 52) * (1 + unit_err) ^ 3 * (poolUp rnd + poolDown rnd) + of_nat (length (settle_list rid s)) / (2 * 10 ^ 8)"
proof (cases "winning_pool rnd price = 0")
  case True
  have "0 \<le> poolUp rnd + poolDown rnd" using pools_grid [OF books rnd] by simp
  then have "0 \<le> (1 + 1 / 2 ^ 52) * (1 + unit_err) ^ 3 * (poolUp rnd + poolDown rnd)"
    by (intro mult_nonneg_nonneg) (simp_all add: unit_err_def)
  moreover have "c_sum virtualBalance (users s') = c_sum virtualBalance (users s)"
    using paid True price by (simp add: paid_def updown_settled_def unchanged_price_def)
  ultimately show ?thesis by simp
next
  case False
  let ?y = "updown_payout E rnd (winning_side rnd price)"
  have rid: "r_id rnd = rid" by (rule books_user_round [OF books rnd(1)])
  have "c_sum virtualBalance (users s') = c_sum virtualBalance (users s) + (\<Sum>p\<leftarrow>settle_list rid s. col E (toNum E (?y p)))"
    using paid False price by (simp add: paid_def updown_settled_def unchanged_price_def updown_credit_def rid)
  also have "\<dots> \<le> c_sum virtualBalance (users s) +
      ((1 + 1 / 2 ^ 52) * (\<Sum>p\<leftarrow>settle_list rid s. ?y p) + of_nat (length (settle_list rid s)) / (2 * 10 ^ 8))"
    by (intro add_left_mono credits_bound) (use payout_positive [OF books rnd] in blast)
  also have "(1 + 1 / 2 ^ 52) * (\<Sum>p\<leftarrow>settle_list rid s. ?y p) \<le>
      (1 + 1 / 2 ^ 52) * ((1 + unit_err) ^ 3 * (poolUp rnd + poolDown rnd))"
    by (intro mult_left_mono payouts_bound [OF books rnd False]) simp
  finally show ?thesis by (simp only: mult.assoc add.assoc add_mono order_refl)
qed

lemma compensation_pays:
  assumes books: "books s" and p: "peek pid (predictions s) = Some p" "chainStatus p \<in> {PC_PENDING, PC_SUBMITTED}"
    and rnd: "peek (p_roundId p) (rounds s) = Some rnd"
  shows "balance_of (snd (compensatePrediction E now pid s)) k =
    map_option (\<lambda>b. b + (if k = p_userId p then p_amount p else 0)) (balance_of s k)"
proof -
  obtain u where u: "peek (p_userId p) (users s) = Some u" using ownedD [OF books_owned [OF books] p(1)] by auto
  have ok: "on_grid (p_amount p)" "compensatedAt p = None"
    using books_prediction [OF books p(1)] p(2) by (auto simp: prediction_ok_def)
  have "snd (compensatePrediction E now pid s) = refunded E now pid p u rnd s"
    using compensate_eq(1) [OF books_wf [OF books] p(1) rnd u, of E now] p(2) ok
    by (auto simp: compensatePrediction_def tx_commit)
  with u ok books_user [OF books u] show ?thesis
    by (auto simp: refunded_def balance_of_def option.map_comp comp_def increment_exact)
qed

end

lemma resolveRound_untouched:
  assumes "wf_db s" and "\<not> (fresh_enough orc now \<and> round_status s rid = Some RS_LOCKED)"
  shows "\<exists>y fx. resolveRound E cl orc now rid price s = (y, s\<lparr>effects := effects s @ fx\<rparr>) \<and>
    (\<forall>r. y \<noteq> Inr (UPDATED, r))"
proof (cases "fresh_enough orc now")
  case True
  then have "assertOraclePriceFresh orc now s = (Inr (), s)"
    by (auto simp: fresh_enough_def assertOraclePriceFresh_def m_return_def)
  with assms True show ?thesis
    by (auto simp: resolveRound_def m_then_Inr m_bind_def find_settleable_eq m_return_def round_status_def
        intro!: exI [of _ "[]"] split: option.splits)
next
  case False
  then show ?thesis
    by (auto simp: fresh_enough_def resolveRound_def assertOraclePriceFresh_def m_then_def m_bind_def emit_eq m_throw_def)
qed

subsection \<open>Properties of settlement\<close>

text \<open>A round with one confirmed UP stake, and one DOWN stake whose chain status is \<open>st\<close>.\<close>

definition demo_rival :: "PredictionChainStatus \<Rightarrow> prediction_row" where
  "demo_rival st = (demo_prediction st)\<lparr>p_id := ''p2'', p_userId := ''u2'', p_side := Some DOWN\<rparr>"

definition demo_locked :: round_row where
  "demo_locked = (demo_round RS_LOCKED)\<lparr>poolUp := 10, poolDown := 10\<rparr>"

definition demo_settlement :: "PredictionChainStatus \<Rightarrow> unit app" where
  "demo_settlement st = (blank_app ())\<lparr>users := table_of u_id [demo_user, demo_user\<lparr>u_id := ''u2''\<rparr>],
     rounds := table_of r_id [demo_locked],
     predictions := table_of p_id [demo_prediction PC_CONFIRMED, demo_rival st]\<rparr>"

lemmas demo_settlement_defs = demo_settlement_def demo_locked_def demo_rival_def demo_prediction_def demo_round_def demo_user_def

lemma demo_settlement_wf: "wf_db (demo_settlement st)"
  unfolding demo_settlement_def
  by (intro predictions.upd_wf rounds.upd_wf users.upd_wf wf_table_of) (simp_all add: demo_settlement_defs)

lemma demo_settlement_peek:
  "peek k (users (demo_settlement st)) =
     (if k = ''u1'' then Some demo_user else if k = ''u2'' then Some (demo_user\<lparr>u_id := ''u2''\<rparr>) else None)"
  "peek k (rounds (demo_settlement st)) = (if k = ''r1'' then Some demo_locked else None)"
  "peek k (predictions (demo_settlement st)) =
     (if k = ''p1'' then Some (demo_prediction PC_CONFIRMED) else if k = ''p2'' then Some (demo_rival st) else None)"
  by (simp_all add: demo_settlement_defs table_of_eval)

lemma demo_settlement_books:
  assumes "st \<in> {PC_PENDING, PC_SUBMITTED, PC_CONFIRMED}"
  shows "books (demo_settlement st)"
proof -
  have "c_sum (stake_on ''r1'' sd) (predictions (demo_settlement st)) = 10" for sd
    by (cases sd) (simp_all add: demo_settlement_defs c_sum_def table_of_eval stake_on_def)
  then have "pools_ok (predictions (demo_settlement st)) demo_locked"
    by (simp add: pools_ok_def) (simp add: demo_locked_def demo_round_def)
  moreover have "prediction_ok (demo_prediction PC_CONFIRMED)" "prediction_ok (demo_rival st)"
    using assms by (auto simp: prediction_ok_def demo_prediction_def demo_rival_def on_grid_def)
  moreover have "on_grid (virtualBalance demo_user) \<and> 0 \<le> virtualBalance demo_user"
    by (simp add: demo_user_def on_grid_def)
  moreover have "owned (users (demo_settlement st)) (predictions (demo_settlement st))"
    by (simp add: owned_def demo_settlement_peek) (simp add: demo_prediction_def demo_rival_def)
  ultimately show ?thesis
    by (simp add: books_def demo_settlement_wf demo_settlement_peek)
qed

lemma demo_settlement_list:
  "settle_list ''r1'' (demo_settlement PC_CONFIRMED) = [demo_prediction PC_CONFIRMED, demo_rival PC_CONFIRMED]"
  by (simp add: settle_list_def filtered_def settleable_def demo_settlement_defs table_of_eval)

definition idle_oracle :: "unit price_oracle" where
  "idle_oracle = new_oracle [] 60000 5000 2 ()"

lemma idle_oracle_fresh: "fresh_enough idle_oracle now"
  by (simp add: fresh_enough_def idle_oracle_def new_oracle_def)

lemma demo_fail_open: "\<not> isFailClosed (soroban (demo_settlement st))"
  by (simp add: demo_settlement_def blank_app_def ready_soroban_def soroban_init_def new_soroban_def isFailClosed_def)

lemma demo_locked_fields [simp]: "r_mode demo_locked = UP_DOWN" "r_status demo_locked = RS_LOCKED" "r_id demo_locked = ''r1''"
  "startPrice demo_locked = 1" "poolUp demo_locked = 10" "poolDown demo_locked = 10"
  by (simp_all add: demo_locked_def demo_round_def)





text \<open>When the price did not move, settling gives every user back exactly the stakes of their
  settled predictions (stakes up to twenty million: beyond that the JavaScript number no longer
  holds eight decimals).\<close>

theorem unchanged_price_refunds:
  assumes "books s" and "peek rid (rounds s) = Some rnd" and "r_mode rnd = UP_DOWN" and "r_status rnd = RS_LOCKED"
    and "fresh_enough orc now" and "\<not> isFailClosed (soroban s)"
    and "\<forall>p \<in> set (settle_list rid s). p_amount p \<le> 2 * 10 ^ 7"
  shows "balance_of (snd (resolveRound js_arith cl orc now rid (startPrice rnd) s)) k =
    map_option (\<lambda>b. b + (\<Sum>p\<leftarrow>settle_list rid s. if p_userId p = k then p_amount p else 0)) (balance_of s k)"
proof (rule js.resolveRound_cases [OF assms(1-5), where cl = cl and price = "startPrice rnd"], goal_cases failed settled)
  case failed
  with assms(6) show ?case by simp
next
  case (settled s')
  have rid: "r_id rnd = rid" by (rule books_user_round [OF assms(1,2)])
  have "col js_arith (updown_credit js_arith rnd (startPrice rnd) p) = p_amount p" if "p \<in> set (settle_list rid s)" for p
    using settle_list_amounts [OF assms(1) that] assms(7) that
    by (simp add: updown_credit_def unchanged_price_def refund_amount_def toNumber_def toDecimal_def js.col_toNum)
  then have "(\<Sum>p\<leftarrow>settle_list rid s. if p_userId p = k then col js_arith (updown_credit js_arith rnd (startPrice rnd) p) else 0) =
      (\<Sum>p\<leftarrow>settle_list rid s. if p_userId p = k then p_amount p else 0)"
    by (intro arg_cong [where f = sum_list] map_cong) auto
  with settled(1,4) show ?case by (simp add: paid_def updown_settled_def unchanged_price_def rid)
qed

theorem unchanged_price_refunds_witness:
  "balance_of (snd (resolveRound js_arith ideal_client idle_oracle 9 ''r1'' 1 (demo_settlement PC_CONFIRMED))) ''u2'' = Some 1010"
proof -
  have r: "peek ''r1'' (rounds (demo_settlement PC_CONFIRMED)) = Some demo_locked" by (simp add: demo_settlement_peek)
  have a: "\<forall>p \<in> set (settle_list ''r1'' (demo_settlement PC_CONFIRMED)). p_amount p \<le> 2 * 10 ^ 7"
    by (simp add: demo_settlement_list) (simp add: demo_prediction_def demo_rival_def)
  from unchanged_price_refunds [OF demo_settlement_books r _ _ idle_oracle_fresh demo_fail_open a,
      where cl = ideal_client and now = 9 and k = "''u2''"]
  show ?thesis
    by (simp add: demo_settlement_list balance_of_def demo_settlement_peek)
      (simp add: demo_user_def demo_rival_def demo_prediction_def)
qed

text \<open>C13. Without a locked round, or while a running oracle is stale, resolving touches no table and
  makes no call to the chain, and it does not report an update.\<close>

theorem unsettled_untouched:
  assumes "wf_db s" and "\<not> (fresh_enough orc now \<and> round_status s rid = Some RS_LOCKED)"
  shows "\<exists>y fx. resolveRound E cl orc now rid price s = (y, s\<lparr>effects := effects s @ fx\<rparr>) \<and> (\<forall>r. y \<noteq> Inr (UPDATED, r))"
  using assms by (rule resolveRound_untouched)

theorem unsettled_untouched_witness:
  "\<exists>y fx. resolveRound js_arith ideal_client idle_oracle 9 ''r1'' 2 (demo_game ()) =
     (y, (demo_game ())\<lparr>effects := effects (demo_game ()) @ fx\<rparr>) \<and> (\<forall>r. y \<noteq> Inr (UPDATED, r))"
proof (rule unsettled_untouched [OF demo_game_wf])
  show "\<not> (fresh_enough idle_oracle 9 \<and> round_status (demo_game ()) ''r1'' = Some RS_LOCKED)"
    by (simp add: round_status_def demo_game_rounds demo_round_def)
qed





end
