(* ===== verification/Outbox.thy ===== *)
theory Outbox
  imports RoundLifecycle
begin

text \<open>
  The transactional outbox (\<open>src/src/services/outbox.service.ts\<close>), the handlers the scheduler gives it
  (\<open>src/src/services/scheduler.service.ts\<close>), the dead-letter queue
  (\<open>src/src/services/dead-letter-queue.service.ts\<close>) and the part of the websocket service that both
  use to emit (\<open>src/src/services/websocket.service.ts\<close>).

  The environment is a parameter: the socket server (\<open>None\<close> while it is not initialised), whose
  \<open>emit\<close> may throw, the insert of a notification row, which may throw, and the stack text of an
  error.  An emission that goes through appears as the effect \<open>WsEmit\<close>, a created notification as
  \<open>NotificationCreated\<close>.
\<close>

record dispatch_env =
  io :: "(string \<Rightarrow> string \<Rightarrow> js_error option) option"
  note_insert :: "dispatch_payload \<Rightarrow> js_error option"
  stack_of :: "js_error \<Rightarrow> string"

definition MAX_ERROR_LEN :: nat where
  "MAX_ERROR_LEN = 1000"

definition truncateError :: "dispatch_env \<Rightarrow> js_error \<Rightarrow> string" where
  "truncateError env err =
     take MAX_ERROR_LEN (if stack_of env err \<noteq> [] then stack_of env err else message_of err)"

subsection \<open>Dead letters\<close>

definition dlq_record ::
  "dispatch_env \<Rightarrow> int \<Rightarrow> DispatchChannel \<Rightarrow> string option \<Rightarrow> string option \<Rightarrow> dispatch_payload \<Rightarrow> js_error \<Rightarrow>
   ('c app, js_error, unit) comp" where
  "dlq_record env now channel eventName userId payload error =
     m_then (t_create failedDispatches failedDispatches_update (\<lambda>i. \<lparr>d_id = i, d_channel = channel,
         d_eventName = eventName, d_userId = userId, d_payload = payload, d_attempts = 1,
         d_status = DS_PENDING, d_lastError = truncateError env error, d_createdAt = now,
         d_lastRetryAt = None, d_resolvedAt = None\<rparr>))
       (m_return ())"

subsection \<open>Emitting\<close>

definition io_emit :: "(string \<Rightarrow> string \<Rightarrow> js_error option) \<Rightarrow> string \<Rightarrow> string \<Rightarrow> ('c app, js_error, unit) comp" where
  "io_emit f event room = (case f event room of None \<Rightarrow> emit (WsEmit event room) | Some e \<Rightarrow> m_throw e)"

definition safeEmit ::
  "dispatch_env \<Rightarrow> int \<Rightarrow> string \<Rightarrow> string \<Rightarrow> outbox_payload \<Rightarrow> ('c app, js_error, unit) comp" where
  "safeEmit env now room event payload =
     (case io env of
        None \<Rightarrow> m_then (emit (Metric ''websocket_emits_total''))
          (dlq_record env now DC_WEBSOCKET_EMIT (Some event) None (RoomPayload room payload)
            (JsError (''WebSocket not initialized when emitting '' @ event)))
      | Some f \<Rightarrow> m_catch (m_then (io_emit f event room) (emit (Metric ''websocket_emits_total'')))
          (\<lambda>err. m_then (emit (Metric ''websocket_emits_total''))
            (dlq_record env now DC_WEBSOCKET_EMIT (Some event) None (RoomPayload room payload) err)))"

definition replayEmit :: "dispatch_env \<Rightarrow> string option \<Rightarrow> string option \<Rightarrow> ('c app, js_error, unit) comp" where
  "replayEmit env eventName room =
     (case io env of
        None \<Rightarrow> m_throw (JsError ''WebSocket not initialized; cannot replay emit'')
      | Some f \<Rightarrow>
          if \<not> truthy eventName then m_throw (JsError ''Missing eventName for websocket replay'')
          else if \<not> truthy room then m_throw (JsError ''Missing room for websocket replay'')
          else io_emit f (the eventName) (the room))"

definition emitBetAccepted :: "dispatch_env \<Rightarrow> int \<Rightarrow> string option \<Rightarrow> outbox_payload \<Rightarrow> ('c app, js_error, unit) comp" where
  "emitBetAccepted env now roundId payload =
     m_then (safeEmit env now ''round'' ''bet:accepted'' payload)
       (if truthy roundId then safeEmit env now (''round:'' @ the roundId) ''bet:accepted'' payload else m_return ())"

definition note_user :: "dispatch_payload \<Rightarrow> string" where
  "note_user d = (case d of StoredPayload (NotificationPayload u _ _ _ _ _) \<Rightarrow> u | _ \<Rightarrow> [])"

definition createNotificationForRetry :: "dispatch_env \<Rightarrow> dispatch_payload \<Rightarrow> ('c app, js_error, unit) comp" where
  "createNotificationForRetry env payload =
     (case note_insert env payload of None \<Rightarrow> emit (NotificationCreated (note_user payload)) | Some e \<Rightarrow> m_throw e)"

subsection \<open>Dispatching one row\<close>

text \<open>The fields a handler reads from a payload; reading a field that is not there gives \<open>undefined\<close>.\<close>

fun payload_eventName :: "outbox_payload \<Rightarrow> string option" where
  "payload_eventName (WebsocketPayload ev _ _ _) = Some ev"
| "payload_eventName _ = None"

fun payload_room :: "outbox_payload \<Rightarrow> string option" where
  "payload_room (WebsocketPayload _ room _ _) = Some room"
| "payload_room _ = None"

fun payload_userId :: "outbox_payload \<Rightarrow> string option" where
  "payload_userId (NotificationPayload u _ _ _ _ _) = Some u"
| "payload_userId (WebsocketPayload _ _ u _) = u"
| "payload_userId (BetAcceptedPayload _ u _ _ _ _ _ _ _) = Some u"
| "payload_userId (BetConfirmedPayload _ u _ _ _) = Some u"
| "payload_userId (BetResolvedPayload _ u _ _ _ _) = Some u"
| "payload_userId (BetFailedPayload _ u _ _ _) = Some u"

fun payload_roundId :: "outbox_payload \<Rightarrow> string option" where
  "payload_roundId (BetAcceptedPayload _ _ r _ _ _ _ _ _) = r"
| "payload_roundId (BetConfirmedPayload _ _ r _ _) = r"
| "payload_roundId (BetResolvedPayload _ _ r _ _ _) = Some r"
| "payload_roundId (BetFailedPayload _ _ r _ _) = r"
| "payload_roundId _ = None"

definition user_room :: "outbox_payload \<Rightarrow> string" where
  "user_room p = ''user:'' @ (case payload_userId p of None \<Rightarrow> ''undefined'' | Some u \<Rightarrow> u)"

text \<open>\<open>dispatch\<close> with the handlers of \<open>buildOutboxHandlers\<close>.\<close>

definition dispatch :: "dispatch_env \<Rightarrow> int \<Rightarrow> outbox_row \<Rightarrow> ('c app, js_error, unit) comp" where
  "dispatch env now row =
     (let p = o_payload row in
      case o_eventType row of
        OE_NOTIFICATION_CREATE \<Rightarrow> createNotificationForRetry env (StoredPayload p)
      | OE_WEBSOCKET_EMIT \<Rightarrow> replayEmit env (payload_eventName p) (payload_room p)
      | OE_BET_ACCEPTED \<Rightarrow> emitBetAccepted env now (payload_roundId p) p
      | OE_BET_CONFIRMED \<Rightarrow>
          m_then (replayEmit env (Some ''bet:confirmed'') (Some ''round''))
            (if truthy (payload_roundId p)
             then replayEmit env (Some ''bet:confirmed'') (Some (''round:'' @ the (payload_roundId p)))
             else m_return ())
      | OE_BET_RESOLVED \<Rightarrow> replayEmit env (Some ''bet:resolved'') (Some (user_room p))
      | OE_BET_FAILED \<Rightarrow> replayEmit env (Some ''bet:failed'') (Some (user_room p)))"

subsection \<open>Polling\<close>

record outbox_result =
  or_processed :: nat
  or_failed :: nat
  or_escalated :: nat

fun event_type_name :: "OutboxEventType \<Rightarrow> string" where
  "event_type_name OE_NOTIFICATION_CREATE = ''NOTIFICATION_CREATE''"
| "event_type_name OE_WEBSOCKET_EMIT = ''WEBSOCKET_EMIT''"
| "event_type_name OE_BET_ACCEPTED = ''BET_ACCEPTED''"
| "event_type_name OE_BET_CONFIRMED = ''BET_CONFIRMED''"
| "event_type_name OE_BET_RESOLVED = ''BET_RESOLVED''"
| "event_type_name OE_BET_FAILED = ''BET_FAILED''"

definition claim_event :: "int \<Rightarrow> string \<Rightarrow> ('c app, js_error, nat) comp" where
  "claim_event now k = t_updateMany outboxEvents outboxEvents_update (\<lambda>o'. o_id o' = k \<and> o_status o' = OS_PENDING)
     (\<lambda>o'. o'\<lparr>o_status := OS_PROCESSING, o_updatedAt := now\<rparr>)"

definition processed_row :: "int \<Rightarrow> outbox_row \<Rightarrow> outbox_row" where
  "processed_row now r = r\<lparr>o_status := OS_PROCESSED, o_processedAt := Some now, o_updatedAt := now\<rparr>"

definition failed_row :: "dispatch_env \<Rightarrow> int \<Rightarrow> int \<Rightarrow> bool \<Rightarrow> js_error \<Rightarrow> outbox_row \<Rightarrow> outbox_row" where
  "failed_row env now nextAttempts exhausted err r = r\<lparr>o_status := (if exhausted then OS_FAILED else OS_PENDING),
     o_attempts := nextAttempts, o_lastError := Some (truncateError env err), o_updatedAt := now\<rparr>"

definition escalate :: "dispatch_env \<Rightarrow> int \<Rightarrow> outbox_row \<Rightarrow> js_error \<Rightarrow> ('c app, js_error, unit) comp" where
  "escalate env now row err = dlq_record env now
     (if o_eventType row = OE_NOTIFICATION_CREATE then DC_NOTIFICATION_CREATE else DC_WEBSOCKET_EMIT)
     (Some (case payload_eventName (o_payload row) of Some ev \<Rightarrow> ev | None \<Rightarrow> event_type_name (o_eventType row)))
     (payload_userId (o_payload row)) (StoredPayload (o_payload row)) err"

text \<open>The body of the loop for a row as it was read; the row may have changed since.\<close>

definition process_row ::
  "dispatch_env \<Rightarrow> int \<Rightarrow> int \<Rightarrow> outbox_result \<Rightarrow> outbox_row \<Rightarrow> ('c app, js_error, outbox_result) comp" where
  "process_row env now maxAtt result row =
     m_bind (claim_event now (o_id row)) (\<lambda>claimed.
       if claimed = 0 then m_return result
       else m_catch
         (m_then (dispatch env now row)
         (m_then (t_update P2025 outboxEvents outboxEvents_update (\<lambda>o'. o_id o' = o_id row) (processed_row now))
           (m_return (result\<lparr>or_processed := or_processed result + 1\<rparr>))))
         (\<lambda>err. let nextAttempts = o_attempts row + 1; exhausted = (nextAttempts \<ge> maxAtt) in
           m_then (t_update P2025 outboxEvents outboxEvents_update (\<lambda>o'. o_id o' = o_id row)
             (failed_row env now nextAttempts exhausted err))
           (if exhausted then
              m_then (escalate env now row err)
                (m_return (result\<lparr>or_failed := or_failed result + 1, or_escalated := or_escalated result + 1\<rparr>))
            else m_return (result\<lparr>or_failed := or_failed result + 1\<rparr>))))"

definition processOutbox :: "dispatch_env \<Rightarrow> int \<Rightarrow> nat \<Rightarrow> int \<Rightarrow> ('c app, js_error, outbox_result) comp" where
  "processOutbox env now batchSize maxAtt =
     m_bind (m_gets (\<lambda>s. c_findMany (\<lambda>r. o_status r = OS_PENDING) (Some (o_createdAt, False)) 0 (Some batchSize) (outboxEvents s)))
       (\<lambda>rs. m_foldl (process_row env now maxAtt) \<lparr>or_processed = 0, or_failed = 0, or_escalated = 0\<rparr> rs)"

definition day_ms :: int where
  "day_ms = 86400000"

definition cleanupProcessed :: "int \<Rightarrow> int \<Rightarrow> ('c app, js_error, nat) comp" where
  "cleanupProcessed now retentionDays s =
     (let (n, c) = c_deleteMany (\<lambda>r. o_status r = OS_PROCESSED \<and>
            (case o_processedAt r of None \<Rightarrow> False | Some t \<Rightarrow> t < now - retentionDays * day_ms)) (outboxEvents s)
      in (Inr n, s\<lparr>outboxEvents := c\<rparr>))"

subsection \<open>Replaying dead letters\<close>

definition DEFAULT_MAX_ATTEMPTS :: int where
  "DEFAULT_MAX_ATTEMPTS = 5"

fun letter_room :: "dispatch_payload \<Rightarrow> string option" where
  "letter_room (StoredPayload p) = payload_room p"
| "letter_room (RoomPayload room _) = Some room"

definition replay :: "dispatch_env \<Rightarrow> dispatch_row \<Rightarrow> ('c app, js_error, unit) comp" where
  "replay env row =
     (if d_channel row = DC_NOTIFICATION_CREATE then createNotificationForRetry env (d_payload row)
      else replayEmit env (d_eventName row) (letter_room (d_payload row)))"

definition resolved_letter :: "int \<Rightarrow> dispatch_row \<Rightarrow> dispatch_row" where
  "resolved_letter now r = r\<lparr>d_status := DS_RESOLVED, d_resolvedAt := Some now, d_lastRetryAt := Some now,
     d_attempts := d_attempts r + 1\<rparr>"

definition retried_letter :: "dispatch_env \<Rightarrow> int \<Rightarrow> int \<Rightarrow> int \<Rightarrow> js_error \<Rightarrow> dispatch_row \<Rightarrow> dispatch_row" where
  "retried_letter env now maxAtt nextAttempts err r =
     r\<lparr>d_status := (if nextAttempts \<ge> maxAtt then DS_ABANDONED else DS_RETRYING), d_attempts := nextAttempts,
       d_lastRetryAt := Some now, d_lastError := truncateError env err\<rparr>"

definition retry :: "dispatch_env \<Rightarrow> int \<Rightarrow> string \<Rightarrow> int \<Rightarrow> ('c app, js_error, (DispatchStatus \<times> int) option) comp" where
  "retry env now k maxAtt =
     m_bind (t_find failedDispatches (\<lambda>d. d_id d = k)) (\<lambda>found.
       case found of
         None \<Rightarrow> m_return None
       | Some row \<Rightarrow>
           if d_status row = DS_RESOLVED then m_return (Some (d_status row, d_attempts row))
           else m_catch
             (m_then (replay env row)
             (m_bind (t_update P2025 failedDispatches failedDispatches_update (\<lambda>d. d_id d = k) (resolved_letter now))
               (\<lambda>r. m_return (Some (d_status r, d_attempts r)))))
             (\<lambda>err. m_bind (t_update P2025 failedDispatches failedDispatches_update (\<lambda>d. d_id d = k)
                 (retried_letter env now maxAtt (d_attempts row + 1) err))
               (\<lambda>r. m_return (Some (d_status r, d_attempts r)))))"

record retry_all_result =
  ra_attempted :: nat
  ra_resolved :: nat
  ra_failed :: nat
  ra_abandoned :: nat

definition count_retry :: "(DispatchStatus \<times> int) option \<Rightarrow> retry_all_result \<Rightarrow> retry_all_result" where
  "count_retry x c =
     (case x of None \<Rightarrow> c
      | Some (st, _) \<Rightarrow>
          if st = DS_RESOLVED then c\<lparr>ra_resolved := ra_resolved c + 1\<rparr>
          else if st = DS_ABANDONED then c\<lparr>ra_abandoned := ra_abandoned c + 1, ra_failed := ra_failed c + 1\<rparr>
          else c\<lparr>ra_failed := ra_failed c + 1\<rparr>)"

definition retryAll :: "dispatch_env \<Rightarrow> int \<Rightarrow> int \<Rightarrow> int \<Rightarrow> ('c app, js_error, retry_all_result) comp" where
  "retryAll env now limit maxAtt =
     m_bind (m_gets (\<lambda>s. c_findMany (\<lambda>d. d_status d \<in> {DS_PENDING, DS_RETRYING}) (Some (d_createdAt, False)) 0
         (Some (nat (min (max limit 1) 200))) (failedDispatches s))) (\<lambda>rs.
       m_foldl (\<lambda>c r. m_bind (retry env now (d_id r) maxAtt) (\<lambda>x. m_return (count_retry x c)))
         \<lparr>ra_attempted = length rs, ra_resolved = 0, ra_failed = 0, ra_abandoned = 0\<rparr> rs)"

definition cleanupResolved :: "int \<Rightarrow> int \<Rightarrow> ('c app, js_error, nat) comp" where
  "cleanupResolved now daysOld s =
     (let (n, c) = c_deleteMany (\<lambda>d. d_status d = DS_RESOLVED \<and>
            (case d_resolvedAt d of None \<Rightarrow> False | Some t \<Rightarrow> t < now - daysOld * day_ms)) (failedDispatches s)
      in (Inr n, s\<lparr>failedDispatches := c\<rparr>))"

subsection \<open>Dispatching leaves the outbox alone\<close>

definition letters :: "'c app \<Rightarrow> dispatch_payload set" where
  "letters s = {d_payload d | j d. peek j (failedDispatches s) = Some d}"

lemma letters_frame [simp]: "letters (outboxEvents_update f s) = letters s"
  by (simp add: letters_def)

definition around :: "outbox_row collection \<Rightarrow> dispatch_payload set \<Rightarrow> 'c app \<Rightarrow> bool" where
  "around c L s \<longleftrightarrow> wf_db s \<and> outboxEvents s = c \<and> L \<subseteq> letters s"

lemma around_emit [preserve_intros]: "preserves (around c L) (emit e)"
  by (rule preservesI) (auto simp: emit_eq around_def letters_def wf_db_def)

lemma dlq_record_eq:
  assumes "wf_db s"
  obtains s' where "dlq_record env now ch ev u p err s = (Inr (), s')" "wf_db s'" "outboxEvents s' = outboxEvents s"
    "letters s' = insert p (letters s)" "core s' = core s"
proof -
  let ?mk = "\<lambda>i. \<lparr>d_id = i, d_channel = ch, d_eventName = ev, d_userId = u, d_payload = p, d_attempts = 1,
         d_status = DS_PENDING, d_lastError = truncateError env err, d_createdAt = now,
         d_lastRetryAt = None, d_resolvedAt = None\<rparr>"
  let ?s = "s\<lparr>failedDispatches := snd (c_create ?mk (failedDispatches s))\<rparr>"
  have wf: "wf_t d_id (failedDispatches s)" by (rule dispatches.tbl_wf [OF assms])
  have peek: "peek j (failedDispatches ?s) =
      (if j = generateId (failedDispatches s) (idCalls (failedDispatches s)) then Some (?mk j) else peek j (failedDispatches s))" for j
    by (simp add: peek_c_create)
  have "letters ?s = insert p (letters s)"
    unfolding letters_def peek using wf_t_fresh [OF wf] by (auto split: if_splits) (metis option.distinct(1))+
  moreover have "wf_db ?s" by (rule dispatches.create_wf [OF assms]) simp
  moreover have "dlq_record env now ch ev u p err s = (Inr (), ?s)"
    by (simp add: dlq_record_def m_then_def m_bind_def dispatches.create_eq m_return_def)
  ultimately show thesis by (intro that [of ?s]) (simp_all add: core_def)
qed

lemma around_record [preserve_intros]: "preserves (around c L) (dlq_record env now ch ev u p err)"
proof (rule preservesI)
  fix s :: "'a app" assume s: "around c L s"
  then have "wf_db s" by (simp add: around_def)
  then obtain s' where "dlq_record env now ch ev u p err s = (Inr (), s')" "wf_db s'" "outboxEvents s' = outboxEvents s"
    "letters s' = insert p (letters s)" by (rule dlq_record_eq)
  with s show "around c L (snd (dlq_record env now ch ev u p err s))" by (auto simp: around_def)
qed

lemma around_emitters [preserve_intros]:
  "preserves (around c L) (safeEmit env now room ev p)" "preserves (around c L) (replayEmit env e r)"
  "preserves (around c L) (createNotificationForRetry env d)"
  unfolding safeEmit_def replayEmit_def io_emit_def createNotificationForRetry_def by (intro preserve_intros)+

lemma around_dispatch: "preserves (around c L) (dispatch env now row)"
  unfolding dispatch_def Let_def emitBetAccepted_def
  by (cases "o_eventType row") (simp_all only: OutboxEventType.case, (intro preserve_intros)+)

subsection \<open>Processing one row\<close>

lemma c_set_twice [simp]: "c_set k r (c_set k r' c) = c_set k r c"
  by (simp add: c_set_def AList.update_last)

definition claimed :: "int \<Rightarrow> outbox_row \<Rightarrow> outbox_row" where
  "claimed now r = r\<lparr>o_status := OS_PROCESSING, o_updatedAt := now\<rparr>"

lemma row_fields [simp]:
  "o_id (claimed now r) = o_id r" "o_payload (claimed now r) = o_payload r"
  "o_id (processed_row now r) = o_id r" "o_payload (processed_row now r) = o_payload r" "o_status (processed_row now r) = OS_PROCESSED"
  "o_id (failed_row env now n x err r) = o_id r" "o_payload (failed_row env now n x err r) = o_payload r"
  "o_status (failed_row env now n x err r) = (if x then OS_FAILED else OS_PENDING)"
  by (simp_all add: claimed_def processed_row_def failed_row_def)

lemma claim_event_eq:
  assumes "wf_db s"
  shows "claim_event now k s = (case peek k (outboxEvents s) of None \<Rightarrow> (Inr 0, s)
     | Some r \<Rightarrow> if o_status r = OS_PENDING then (Inr 1, s\<lparr>outboxEvents := c_set k (claimed now r) (outboxEvents s)\<rparr>) else (Inr 0, s))"
  unfolding claim_event_def claimed_def by (simp add: outbox.updateMany_id [OF assms] cong: if_cong)

lemma update_row_eq:
  fixes s :: "'c app"
  assumes "wf_db s" and "peek k (outboxEvents s) = Some r" and "\<And>r. o_id (f r) = o_id r"
  shows "t_update P2025 outboxEvents outboxEvents_update (\<lambda>o'. o_id o' = k) f s =
      (Inr (f r), s\<lparr>outboxEvents := c_set k (f r) (outboxEvents s)\<rparr>)"
    and "wf_db (s\<lparr>outboxEvents := c_set k (f r) (outboxEvents s)\<rparr>)"
  using outbox.update_id [OF assms(1), of f P2025 k] outbox.set_wf [OF assms(1,2), of "f r"] outbox.peek_id [OF assms(1,2)]
  by (simp_all add: assms(2,3))

lemma process_row_cases:
  assumes wf: "wf_db s"
  obtains (skipped) "process_row env now m res row s = (Inr res, s)" "map_option o_status (peek (o_id row) (outboxEvents s)) \<noteq> Some OS_PENDING"
  | (processed) r s' where "process_row env now m res row s = (Inr (res\<lparr>or_processed := or_processed res + 1\<rparr>), s')"
      "peek (o_id row) (outboxEvents s) = Some r" "o_status r = OS_PENDING" "wf_db s'" "letters s \<subseteq> letters s'"
      "outboxEvents s' = c_set (o_id row) (processed_row now (claimed now r)) (outboxEvents s)"
  | (again) r s' err where "process_row env now m res row s = (Inr (res\<lparr>or_failed := or_failed res + 1\<rparr>), s')"
      "peek (o_id row) (outboxEvents s) = Some r" "o_status r = OS_PENDING" "wf_db s'" "letters s \<subseteq> letters s'" "o_attempts row + 1 < m"
      "outboxEvents s' = c_set (o_id row) (failed_row env now (o_attempts row + 1) False err (claimed now r)) (outboxEvents s)"
  | (escalated) r s' err where
      "process_row env now m res row s = (Inr (res\<lparr>or_failed := or_failed res + 1, or_escalated := or_escalated res + 1\<rparr>), s')"
      "peek (o_id row) (outboxEvents s) = Some r" "o_status r = OS_PENDING" "wf_db s'" "letters s \<subseteq> letters s'" "m \<le> o_attempts row + 1"
      "outboxEvents s' = c_set (o_id row) (failed_row env now (o_attempts row + 1) True err (claimed now r)) (outboxEvents s)"
      "StoredPayload (o_payload row) \<in> letters s'"
proof (cases "\<exists>r. peek (o_id row) (outboxEvents s) = Some r \<and> o_status r = OS_PENDING")
  case False
  then show thesis
    by (intro that(1)) (auto simp: process_row_def m_bind_def claim_event_eq [OF wf] m_return_def split: option.splits)
next
  case True
  let ?k = "o_id row"
  obtain r where r: "peek ?k (outboxEvents s) = Some r" "o_status r = OS_PENDING" using True by blast
  let ?s1 = "s\<lparr>outboxEvents := c_set ?k (claimed now r) (outboxEvents s)\<rparr>"
  have "o_id (claimed now r) = ?k" using outbox.peek_id [OF wf r(1)] by simp
  then have wf1: "wf_db ?s1" by (rule outbox.set_wf [OF wf r(1)])
  obtain y s2 where y: "dispatch env now row ?s1 = (y, s2)" by fastforce
  have "around (outboxEvents ?s1) (letters ?s1) ?s1" using wf1 by (simp add: around_def)
  then have "around (outboxEvents ?s1) (letters ?s1) s2" using preservesD [OF around_dispatch, of _ _ ?s1 env now row] y by simp
  then have s2: "wf_db s2" "outboxEvents s2 = c_set ?k (claimed now r) (outboxEvents s)" "letters s \<subseteq> letters s2"
    by (auto simp: around_def)
  then have p2: "peek ?k (outboxEvents s2) = Some (claimed now r)" by simp
  have run: "process_row env now m res row s = m_catch
         (m_then (\<lambda>_. (y, s2))
         (m_then (t_update P2025 outboxEvents outboxEvents_update (\<lambda>o'. o_id o' = ?k) (processed_row now))
           (m_return (res\<lparr>or_processed := or_processed res + 1\<rparr>))))
         (\<lambda>err. m_then (t_update P2025 outboxEvents outboxEvents_update (\<lambda>o'. o_id o' = ?k)
             (failed_row env now (o_attempts row + 1) (o_attempts row + 1 \<ge> m) err))
           (if o_attempts row + 1 \<ge> m then
              m_then (escalate env now row err)
                (m_return (res\<lparr>or_failed := or_failed res + 1, or_escalated := or_escalated res + 1\<rparr>))
            else m_return (res\<lparr>or_failed := or_failed res + 1\<rparr>))) ?s1"
    using r by (simp add: process_row_def m_bind_def claim_event_eq [OF wf] m_catch_def m_then_def y Let_def)
  show thesis
  proof (cases y)
    case (Inr u)
    note up = update_row_eq [OF s2(1) p2, of "processed_row now"]
    let ?s3 = "s2\<lparr>outboxEvents := c_set ?k (processed_row now (claimed now r)) (outboxEvents s)\<rparr>"
    have "process_row env now m res row s = (Inr (res\<lparr>or_processed := or_processed res + 1\<rparr>), ?s3)"
      unfolding run using up(1) by (simp add: m_catch_def m_then_def m_bind_def Inr m_return_def s2(2))
    with r up(2) s2 show thesis by (intro that(2) [of ?s3 r]) simp_all
  next
    case (Inl err)
    let ?f = "failed_row env now (o_attempts row + 1) (m \<le> o_attempts row + 1) err"
    let ?s3 = "s2\<lparr>outboxEvents := c_set ?k (?f (claimed now r)) (outboxEvents s)\<rparr>"
    note up = update_row_eq [OF s2(1) p2, of ?f]
    have wf3: "wf_db ?s3" using up(2) by (simp add: s2(2))
    show thesis
    proof (cases "m \<le> o_attempts row + 1")
      case False
      have "process_row env now m res row s = (Inr (res\<lparr>or_failed := or_failed res + 1\<rparr>), ?s3)"
        unfolding run using up(1) False by (simp add: m_catch_def m_then_def m_bind_def Inl m_return_def s2(2))
      with r wf3 s2 False show thesis by (intro that(3) [of ?s3 r err]) simp_all
    next
      case True
      obtain s4 where s4: "escalate env now row err ?s3 = (Inr (), s4)" "wf_db s4" "outboxEvents s4 = outboxEvents ?s3"
        "letters s4 = insert (StoredPayload (o_payload row)) (letters ?s3)"
        unfolding escalate_def by (rule dlq_record_eq [OF wf3])
      have "process_row env now m res row s = (Inr (res\<lparr>or_failed := or_failed res + 1, or_escalated := or_escalated res + 1\<rparr>), s4)"
        unfolding run using up(1) True s4(1) by (simp add: m_catch_def m_then_def m_bind_def Inl m_return_def s2(2))
      with r s4 s2 True show thesis by (intro that(4) [of s4 r err]) auto
    qed
  qed
qed

subsection \<open>Dead letters keep their payload\<close>

lemma around_update_letter [preserve_intros]:
  assumes f: "\<And>d. d_id (f d) = d_id d" "\<And>d. d_payload (f d) = d_payload d"
  shows "preserves (around c L) (t_update P2025 failedDispatches failedDispatches_update (\<lambda>d. d_id d = k) f)"
proof (rule preservesI)
  fix s :: "'a app" assume s: "around c L s"
  then have wf: "wf_db s" by (simp add: around_def)
  show "around c L (snd (t_update P2025 failedDispatches failedDispatches_update (\<lambda>d. d_id d = k) f s))"
  proof (cases "peek k (failedDispatches s)")
    case None
    with s show ?thesis by (simp add: dispatches.update_id [OF wf f(1)])
  next
    case (Some d)
    let ?s = "s\<lparr>failedDispatches := c_set k (f d) (failedDispatches s)\<rparr>"
    have "letters s \<subseteq> letters ?s"
    proof
      fix x assume "x \<in> letters s"
      then obtain j e where j: "peek j (failedDispatches s) = Some e" "x = d_payload e" by (auto simp: letters_def)
      show "x \<in> letters ?s"
        unfolding letters_def using j Some f(2) by (cases "j = k") (auto intro: exI [of _ j])
    qed
    moreover have "wf_db ?s" using dispatches.set_wf [OF wf Some, of "f d"] dispatches.peek_id [OF wf Some] f(1) by simp
    ultimately show ?thesis using s Some by (auto simp: dispatches.update_id [OF wf f(1)] around_def)
  qed
qed

lemma letter_fields [simp]:
  "d_id (resolved_letter now d) = d_id d" "d_payload (resolved_letter now d) = d_payload d"
  "d_id (retried_letter env now m n err d) = d_id d" "d_payload (retried_letter env now m n err d) = d_payload d"
  by (simp_all add: resolved_letter_def retried_letter_def)

lemma around_retry [preserve_intros]: "preserves (around c L) (retry env now k m)"
  unfolding retry_def replay_def by (intro preserve_intros) simp_all

lemma around_retryAll: "preserves (around c L) (retryAll env now n m)"
  unfolding retryAll_def by (intro preserve_intros)

subsection \<open>Every event is delivered, pending or a dead letter\<close>

text \<open>Between two handler calls no row is in progress, and every failed row is a dead letter.\<close>

definition outbox_ok :: "'c app \<Rightarrow> bool" where
  "outbox_ok s \<longleftrightarrow> wf_db s \<and> (\<forall>k r. peek k (outboxEvents s) = Some r \<longrightarrow>
     o_status r \<noteq> OS_PROCESSING \<and> (o_status r = OS_FAILED \<longrightarrow> StoredPayload (o_payload r) \<in> letters s))"

definition outbox_status :: "'c app \<Rightarrow> string \<Rightarrow> OutboxEventStatus option option" where
  "outbox_status s k = Some (map_option o_status (peek k (outboxEvents s)))"

text \<open>A dispatched event is processed or failed; only a processed one may be deleted.\<close>

definition dispatch_edge :: "OutboxEventStatus option \<Rightarrow> OutboxEventStatus option \<Rightarrow> bool" where
  "dispatch_edge a b \<longleftrightarrow> a = Some OS_PENDING \<and> b \<in> {Some OS_PROCESSED, Some OS_FAILED}"

definition outbox_edge :: "OutboxEventStatus option \<Rightarrow> OutboxEventStatus option \<Rightarrow> bool" where
  "outbox_edge a b \<longleftrightarrow> dispatch_edge a b \<or> (a = Some OS_PROCESSED \<and> b = None)"

text \<open>A stale poller: it read row \<open>k\<close> earlier, when its attempt count was \<open>att\<close>.\<close>

datatype outbox_op =
    Poll dispatch_env int nat int
  | StalePoll dispatch_env int int string int
  | CleanOutbox int int
  | RetryLetter dispatch_env int string int
  | RetryLetters dispatch_env int int int

fun outbox_step :: "'c app \<Rightarrow> outbox_op \<Rightarrow> 'c app" where
  "outbox_step s (Poll env now n m) = snd (processOutbox env now n m s)"
| "outbox_step s (StalePoll env now m k att) =
     (case peek k (outboxEvents s) of None \<Rightarrow> s
      | Some r \<Rightarrow> snd (process_row env now m \<lparr>or_processed = 0, or_failed = 0, or_escalated = 0\<rparr> (r\<lparr>o_attempts := att\<rparr>) s))"
| "outbox_step s (CleanOutbox now days) = snd (cleanupProcessed now days s)"
| "outbox_step s (RetryLetter env now k m) = snd (retry env now k m s)"
| "outbox_step s (RetryLetters env now n m) = snd (retryAll env now n m s)"

definition outbox_sound :: "'c app \<Rightarrow> 'c app \<Rightarrow> bool" where
  "outbox_sound s s' \<longleftrightarrow> outbox_ok s' \<and>
     (\<forall>k. let a = map_option o_status (peek k (outboxEvents s)); b = map_option o_status (peek k (outboxEvents s'))
          in b = a \<or> dispatch_edge a b) \<and>
     (\<forall>k r'. peek k (outboxEvents s') = Some r' \<longrightarrow> (\<exists>r. peek k (outboxEvents s) = Some r \<and> o_payload r' = o_payload r))"

lemma outbox_sound_refl: "outbox_ok s \<Longrightarrow> outbox_sound s s"
  by (simp add: outbox_sound_def)

lemma dispatch_edge_trans: "b = a \<or> dispatch_edge a b \<Longrightarrow> c = b \<or> dispatch_edge b c \<Longrightarrow> c = a \<or> dispatch_edge a c"
  by (auto simp: dispatch_edge_def)

lemma outbox_soundD:
  assumes "outbox_sound s t"
  shows "map_option o_status (peek k (outboxEvents t)) = map_option o_status (peek k (outboxEvents s)) \<or>
    dispatch_edge (map_option o_status (peek k (outboxEvents s))) (map_option o_status (peek k (outboxEvents t)))"
  using assms unfolding outbox_sound_def Let_def by blast

lemma outbox_sound_trans:
  assumes "outbox_sound s t" and "outbox_sound t u"
  shows "outbox_sound s u"
proof -
  note edge = dispatch_edge_trans [OF outbox_soundD [OF assms(1)] outbox_soundD [OF assms(2)]]
  have "\<exists>r. peek k (outboxEvents s) = Some r \<and> o_payload r' = o_payload r" if "peek k (outboxEvents u) = Some r'" for k r'
    using assms that unfolding outbox_sound_def by metis
  then show ?thesis using assms(2) edge unfolding outbox_sound_def Let_def by blast
qed

lemma findMany_memD:
  assumes "wf_t idf c" and "r \<in> set (c_findMany P ord n t c)"
  shows "peek (idf r) c = Some r \<and> P r"
proof -
  have "set (c_findMany P ord n t c) \<subseteq> set (filtered P c)"
    by (auto simp: c_findMany_def Let_def sortRows_def split: option.splits dest!: in_set_takeD in_set_dropD)
  with assms show ?thesis using filtered_memD [of c r P] by (auto simp: wf_t_def)
qed

text \<open>One row changed: its payload stays, its status moves along an edge, no dead letter is lost.\<close>

lemma outbox_sound_set:
  assumes ok: "outbox_ok s" and "wf_db s'" and r: "peek k (outboxEvents s) = Some r" "o_status r = OS_PENDING"
    and "outboxEvents s' = c_set k r' (outboxEvents s)" and "o_payload r' = o_payload r" and "letters s \<subseteq> letters s'"
    and "o_status r' \<in> {OS_PENDING, OS_PROCESSED, OS_FAILED}"
    and "o_status r' = OS_FAILED \<Longrightarrow> StoredPayload (o_payload r) \<in> letters s'"
  shows "outbox_sound s s'"
  using assms by (auto simp: outbox_sound_def outbox_ok_def dispatch_edge_def split: if_splits)

lemma process_row_sound:
  assumes ok: "outbox_ok s" and pay: "\<And>r. peek (o_id row) (outboxEvents s) = Some r \<Longrightarrow> o_payload row = o_payload r"
  shows "outbox_sound s (snd (process_row env now m res row s)) \<and> (\<exists>res'. fst (process_row env now m res row s) = Inr res')"
proof -
  have wf: "wf_db s" using ok by (simp add: outbox_ok_def)
  show ?thesis
  proof (cases rule: process_row_cases [where env = env and now = now and m = m and res = res and row = row, OF wf])
    case 1
    then show ?thesis using ok by (simp add: outbox_sound_refl)
  next
    case (2 r s')
    then show ?thesis using outbox_sound_set [OF ok 2(4,2,3,6) _ 2(5)] by simp
  next
    case (3 r s' err)
    then show ?thesis using outbox_sound_set [OF ok 3(4,2,3,7) _ 3(5)] by simp
  next
    case (4 r s' err)
    then show ?thesis using outbox_sound_set [OF ok 4(4,2,3,7) _ 4(5)] pay by simp
  qed
qed

lemma process_rows_sound:
  assumes "outbox_ok s" and "\<forall>row \<in> set rs. \<forall>r. peek (o_id row) (outboxEvents s) = Some r \<longrightarrow> o_payload row = o_payload r"
  shows "outbox_sound s (snd (m_foldl (process_row env now m) res rs s))"
  using assms
proof (induction rs arbitrary: s res)
  case Nil
  then show ?case by (simp add: m_return_def outbox_sound_refl)
next
  case (Cons row rs)
  obtain res' s1 where s1: "process_row env now m res row s = (Inr res', s1)" "outbox_sound s s1"
    using process_row_sound [OF Cons.prems(1), of row env now m res] Cons.prems(2)
    by (cases "process_row env now m res row s") auto
  have "outbox_sound s1 (snd (m_foldl (process_row env now m) res' rs s1))"
  proof (rule Cons.IH)
    show "outbox_ok s1" using s1(2) by (simp add: outbox_sound_def)
    show "\<forall>row \<in> set rs. \<forall>r. peek (o_id row) (outboxEvents s1) = Some r \<longrightarrow> o_payload row = o_payload r"
      using Cons.prems(2) s1(2) unfolding outbox_sound_def by (metis list.set_intros(2))
  qed
  with s1 show ?case by (auto simp: m_bind_def intro: outbox_sound_trans)
qed

lemma around_sound:
  assumes "outbox_ok s" and "around (outboxEvents s) (letters s) s'"
  shows "outbox_sound s s'"
  using assms by (auto simp: outbox_sound_def outbox_ok_def around_def)

lemma outbox_step_sound:
  assumes ok: "outbox_ok s" and x: "\<And>now days. x \<noteq> CleanOutbox now days"
  shows "outbox_sound s (outbox_step s x)"
proof (cases x)
  case (Poll env now n m)
  have wf: "wf_t o_id (outboxEvents s)" using ok by (auto simp: outbox_ok_def intro: outbox.tbl_wf)
  let ?rs = "c_findMany (\<lambda>r. o_status r = OS_PENDING) (Some (o_createdAt, False)) 0 (Some n) (outboxEvents s)"
  have "peek (o_id row) (outboxEvents s) = Some row" if "row \<in> set ?rs" for row
    using findMany_memD [OF wf that] by simp
  then have "outbox_sound s (snd (m_foldl (process_row env now m) \<lparr>or_processed = 0, or_failed = 0, or_escalated = 0\<rparr> ?rs s))"
    by (intro process_rows_sound [OF ok]) auto
  then show ?thesis by (simp add: Poll processOutbox_def m_bind_def m_gets_def)
next
  case (StalePoll env now m k att)
  show ?thesis
  proof (cases "peek k (outboxEvents s)")
    case None
    with ok show ?thesis by (simp add: StalePoll outbox_sound_refl)
  next
    case (Some r)
    have "o_id r = k" using ok Some by (auto simp: outbox_ok_def dest: outbox.peek_id)
    with ok Some process_row_sound [OF ok, of "r\<lparr>o_attempts := att\<rparr>"] show ?thesis by (simp add: StalePoll)
  qed
next
  case (CleanOutbox now days)
  with x show ?thesis by blast
next
  case (RetryLetter env now k m)
  have "around (outboxEvents s) (letters s) s" using ok by (simp add: around_def outbox_ok_def)
  from around_sound [OF ok preservesD [OF around_retry this]] show ?thesis by (simp add: RetryLetter)
next
  case (RetryLetters env now n m)
  have "around (outboxEvents s) (letters s) s" using ok by (simp add: around_def outbox_ok_def)
  from around_sound [OF ok preservesD [OF around_retryAll this]] show ?thesis by (simp add: RetryLetters)
qed

lemma clean_step:
  assumes ok: "outbox_ok s"
  shows "outbox_ok (outbox_step s (CleanOutbox now days))"
    and "let a = map_option o_status (peek k (outboxEvents s));
             b = map_option o_status (peek k (outboxEvents (outbox_step s (CleanOutbox now days)))) in b = a \<or> outbox_edge a b"
proof -
  have wf: "wf_db s" using ok by (simp add: outbox_ok_def)
  let ?P = "\<lambda>r. o_status r = OS_PROCESSED \<and> (case o_processedAt r of None \<Rightarrow> False | Some t \<Rightarrow> t < now - days * day_ms)"
  let ?c = "snd (c_deleteMany ?P (outboxEvents s))"
  have s': "outbox_step s (CleanOutbox now days) = s\<lparr>outboxEvents := ?c\<rparr>"
    by (simp add: cleanupProcessed_def case_prod_unfold Let_def)
  have "wf_db (s\<lparr>outboxEvents := ?c\<rparr>)" by (rule outbox.upd_wf [OF wf deleteMany_peek(2) [OF outbox.tbl_wf [OF wf]]])
  with ok show "outbox_ok (outbox_step s (CleanOutbox now days))"
    unfolding s' by (auto simp: outbox_ok_def deleteMany_peek(1) [OF outbox.tbl_wf [OF wf]] split: option.splits if_splits)
  show "let a = map_option o_status (peek k (outboxEvents s));
            b = map_option o_status (peek k (outboxEvents (outbox_step s (CleanOutbox now days)))) in b = a \<or> outbox_edge a b"
    unfolding s' by (auto simp: outbox_edge_def deleteMany_peek(1) [OF outbox.tbl_wf [OF wf]] split: option.split)
qed

interpretation outbox_machine: lifecycle outbox_step outbox_ok outbox_status outbox_edge
proof (unfold_locales, goal_cases)
  case (1 s x)
  then show ?case using outbox_step_sound [OF 1, of x] clean_step(1) [OF 1] by (cases x) (auto simp: outbox_sound_def)
next
  case (2 s k a x)
  then have "let a = map_option o_status (peek k (outboxEvents s)); b = map_option o_status (peek k (outboxEvents (outbox_step s x)))
      in b = a \<or> outbox_edge a b"
    using clean_step(2) [OF 2(1)] outbox_soundD [OF outbox_step_sound [OF 2(1), of x], of k]
    by (cases x) (auto simp: outbox_edge_def)
  with 2(2) show ?case by (simp add: outbox_status_def Let_def)
qed

subsection \<open>Dead letters of bet events\<close>

text \<open>A letter that has no room: what \<open>escalate\<close> stores for every bet event.\<close>

definition roomless :: "string \<Rightarrow> 'c app \<Rightarrow> bool" where
  "roomless k s \<longleftrightarrow> wf_db s \<and> (\<exists>d. peek k (failedDispatches s) = Some d \<and> d_channel d = DC_WEBSOCKET_EMIT \<and>
     letter_room (d_payload d) = None \<and> d_status d \<noteq> DS_RESOLVED)"

lemma roomless_frame:
  "roomless k s \<Longrightarrow> wf_db s' \<Longrightarrow> failedDispatches s' = failedDispatches s \<Longrightarrow> roomless k s'"
  by (simp add: roomless_def)

lemma roomless_emit [preserve_intros]: "preserves (roomless k) (emit e)"
  by (rule preservesI) (auto simp: emit_eq roomless_def wf_db_def)

lemma roomless_claim [preserve_intros]: "preserves (roomless k) (claim_event now j)"
proof (rule preservesI)
  fix s :: "'a app" assume s: "roomless k s"
  then have wf: "wf_db s" by (simp add: roomless_def)
  have "wf_db (snd (claim_event now j s))"
    unfolding claim_event_def by (rule preservesD [OF outbox.preserves_updateMany_id wf]) simp
  with s show "roomless k (snd (claim_event now j s))"
    by (rule roomless_frame) (auto simp: claim_event_eq [OF wf] split: option.split)
qed

lemma roomless_record [preserve_intros]: "preserves (roomless k) (dlq_record env now ch ev u p err)"
proof (rule preservesI)
  fix s :: "'a app" assume s: "roomless k s"
  then have wf: "wf_db s" and k: "peek k (failedDispatches s) \<noteq> None" by (auto simp: roomless_def)
  then have "k \<noteq> generateId (failedDispatches s) (idCalls (failedDispatches s))"
    using wf_t_fresh [OF dispatches.tbl_wf [OF wf]] by auto
  moreover obtain s' where "dlq_record env now ch ev u p err s = (Inr (), s')" "wf_db s'" by (rule dlq_record_eq [OF wf])
  ultimately show "roomless k (snd (dlq_record env now ch ev u p err s))"
    using s by (auto simp: roomless_def dlq_record_def m_then_def m_bind_def dispatches.create_eq m_return_def peek_c_create)
qed

lemma roomless_outbox [preserve_intros]:
  assumes "\<And>r. o_id (f r) = o_id r"
  shows "preserves (roomless k) (t_update P2025 outboxEvents outboxEvents_update P f)"
proof (rule preservesI)
  fix s :: "'a app" assume s: "roomless k s"
  then have wf: "wf_db s" by (simp add: roomless_def)
  have "wf_db (snd (t_update P2025 outboxEvents outboxEvents_update P f s))"
    by (rule preservesD [OF outbox.preserves_update [OF assms] wf])
  with s show "roomless k (snd (t_update P2025 outboxEvents outboxEvents_update P f s))"
    by (rule roomless_frame) (simp add: t_update_def split: option.split)
qed

lemma roomless_emitters [preserve_intros]:
  "preserves (roomless k) (safeEmit env now room ev p)" "preserves (roomless k) (replayEmit env e r)"
  "preserves (roomless k) (createNotificationForRetry env d)"
  unfolding safeEmit_def replayEmit_def io_emit_def createNotificationForRetry_def by (intro preserve_intros)+

lemma roomless_dispatch [preserve_intros]: "preserves (roomless k) (dispatch env now row)"
  unfolding dispatch_def Let_def emitBetAccepted_def
  by (cases "o_eventType row") (simp_all only: OutboxEventType.case, (intro preserve_intros)+)

lemma roomless_process [preserve_intros]: "preserves (roomless k) (process_row env now m res row)"
  unfolding process_row_def escalate_def Let_def by (intro preserve_intros) simp_all

lemma roomless_letter:
  assumes f: "\<And>d. d_id (f d) = d_id d"
    and "j \<noteq> k \<or> (\<forall>d. d_channel (f d) = d_channel d \<and> d_payload (f d) = d_payload d \<and> d_status (f d) \<noteq> DS_RESOLVED)"
  shows "preserves (roomless k) (t_update P2025 failedDispatches failedDispatches_update (\<lambda>d. d_id d = j) f)"
proof (rule preservesI)
  fix s :: "'a app" assume s: "roomless k s"
  then have wf: "wf_db s" by (simp add: roomless_def)
  have "wf_db (snd (t_update P2025 failedDispatches failedDispatches_update (\<lambda>d. d_id d = j) f s))"
    by (rule preservesD [OF dispatches.preserves_update [OF f] wf])
  with s assms(2) show "roomless k (snd (t_update P2025 failedDispatches failedDispatches_update (\<lambda>d. d_id d = j) f s))"
    by (auto simp: roomless_def dispatches.update_id [OF wf f] split: option.splits)
qed

lemma roomless_retry [preserve_intros]: "preserves (roomless k) (retry env now j m)"
proof (cases "j = k")
  case False
  then show ?thesis
    unfolding retry_def replay_def by (intro preserve_intros roomless_letter) simp_all
next
  case True
  show ?thesis
  proof (rule preservesI)
    fix s :: "'a app" assume s: "roomless k s"
    then obtain d where wf: "wf_db s" and d: "peek k (failedDispatches s) = Some d" "d_channel d = DC_WEBSOCKET_EMIT"
      "letter_room (d_payload d) = None" "d_status d \<noteq> DS_RESOLVED" by (auto simp: roomless_def)
    have "\<exists>err. replay env d s = (Inl err, s)"
      using d(2,3) by (auto simp: replay_def replayEmit_def m_throw_def truthy_def split: option.splits)
    then obtain err where "replay env d s = (Inl err, s)" ..
    then have "snd (retry env now j m s) =
        snd (t_update P2025 failedDispatches failedDispatches_update (\<lambda>d. d_id d = j) (retried_letter env now m (d_attempts d + 1) err) s)"
      using d(1,4) True
      by (simp add: retry_def m_bind_def dispatches.find_id [OF wf] m_catch_def m_then_def m_return_def split: sum.split prod.split)
    also have "roomless k \<dots>" by (rule preservesD [OF roomless_letter s]) (simp_all add: retried_letter_def)
    finally show "roomless k (snd (retry env now j m s))" .
  qed
qed

lemma roomless_runs:
  "preserves (roomless k) (processOutbox env now n m)" "preserves (roomless k) (retryAll env now i m)"
  unfolding processOutbox_def retryAll_def by (intro preserve_intros)+

lemma roomless_step:
  assumes s: "roomless k s"
  shows "roomless k (outbox_step s x)"
proof (cases x)
  case (CleanOutbox now days)
  have wf: "wf_db s" using s by (simp add: roomless_def)
  show ?thesis
    by (rule roomless_frame [OF s])
      (simp_all add: CleanOutbox cleanupProcessed_def case_prod_unfold Let_def
        outbox.upd_wf [OF wf deleteMany_peek(2) [OF outbox.tbl_wf [OF wf]]])
qed (use s preservesD [OF roomless_process s] preservesD [OF roomless_retry s] preservesD [OF roomless_runs(1) s]
    preservesD [OF roomless_runs(2) s] in \<open>auto split: option.split\<close>)

subsection \<open>Properties\<close>


definition demo_event :: "OutboxEventType \<Rightarrow> outbox_payload \<Rightarrow> outbox_row" where
  "demo_event ty p = \<lparr>o_id = ''e1'', o_eventType = ty, o_aggregateId = ''b1'', o_aggregateType = ''bet'', o_payload = p,
     o_status = OS_PENDING, o_attempts = 0, o_lastError = None, o_createdAt = 0, o_updatedAt = 0, o_processedAt = None\<rparr>"

definition demo_outbox :: "unit app" where
  "demo_outbox = (blank_app ())\<lparr>outboxEvents := table_of o_id
     [demo_event OE_BET_FAILED (BetFailedPayload ''b1'' ''u1'' None BM_UP_DOWN ''boom'')]\<rparr>"

definition no_socket :: dispatch_env where
  "no_socket = \<lparr>io = None, note_insert = (\<lambda>_. None), stack_of = (\<lambda>_. [])\<rparr>"

lemma demo_outbox_ok: "outbox_ok demo_outbox"
proof -
  have "wf_db demo_outbox" unfolding demo_outbox_def by (intro outbox.upd_wf wf_table_of wf_blank_app) (simp add: demo_event_def)
  then show ?thesis by (simp add: outbox_ok_def demo_outbox_def table_of_eval demo_event_def)
qed


text \<open>A bet event that was escalated can never be replayed: the dead letter keeps the bet payload,
  which has no room, under the websocket channel, so no sequence of replays, polls and clean-ups, with
  whatever socket, resolves it.\<close>

theorem bet_letters_unreplayable:
  assumes "wf_db s" and "peek k (failedDispatches s) = Some d" and "d_channel d = DC_WEBSOCKET_EMIT"
    and "d_payload d = StoredPayload p" and "payload_room p = None" and "d_status d \<noteq> DS_RESOLVED"
  shows "\<exists>d'. peek k (failedDispatches (foldl outbox_step s ops)) = Some d' \<and> d_status d' \<noteq> DS_RESOLVED"
proof -
  have "roomless k s" using assms by (auto simp: roomless_def)
  then have "roomless k (foldl outbox_step s ops)" by (induction ops arbitrary: s) (simp_all add: roomless_step)
  then show ?thesis by (auto simp: roomless_def)
qed

definition demo_letters :: "unit app" where
  "demo_letters = (blank_app ())\<lparr>failedDispatches := table_of d_id [\<lparr>d_id = ''d1'', d_channel = DC_WEBSOCKET_EMIT,
     d_eventName = Some ''BET_FAILED'', d_userId = Some ''u1'',
     d_payload = StoredPayload (BetFailedPayload ''b1'' ''u1'' None BM_UP_DOWN ''boom''), d_attempts = 1,
     d_status = DS_PENDING, d_lastError = [], d_createdAt = 0, d_lastRetryAt = None, d_resolvedAt = None\<rparr>]\<rparr>"

lemma demo_letters_wf: "wf_db demo_letters"
  unfolding demo_letters_def by (intro dispatches.upd_wf wf_table_of wf_blank_app) simp

theorem bet_letters_unreplayable_witness:
  "\<exists>d'. peek ''d1'' (failedDispatches (foldl outbox_step demo_letters
      [RetryLetter (no_socket\<lparr>io := Some (\<lambda>_ _. None)\<rparr>) 3 ''d1'' 5])) = Some d' \<and> d_status d' \<noteq> DS_RESOLVED"
  by (rule bet_letters_unreplayable [OF demo_letters_wf, where p = "BetFailedPayload ''b1'' ''u1'' None BM_UP_DOWN ''boom''"])
    (simp add: demo_letters_def table_of_eval, simp_all)

end
