(* ===== verification/DistributedLock.thy ===== *)
theory DistributedLock
  imports Money Errors
begin

text \<open>
  The single-leader lock of the scheduled jobs (\<open>src/src/utils/distributed-lock.ts\<close>).

  Redis is third-party: the four commands the code uses are a parameter \<open>redis_api\<close>, and the locale
  \<open>redis_laws\<close> states what Redis documents about them, through the lease (value and expiry) of a key.
  A command is atomic, and so is a Lua script.  A call may find Redis unreachable, may fail before the
  command ran, or may lose the reply after it ran (\<open>link\<close>).  Times are milliseconds; timers appear as
  the moments at which \<open>renewTick\<close> runs.
\<close>

subsection \<open>Redis\<close>

record 'r redis_api =
  r_get :: "int \<Rightarrow> string \<Rightarrow> 'r \<Rightarrow> string option"
  r_setnx :: "int \<Rightarrow> string \<Rightarrow> string \<Rightarrow> int \<Rightarrow> 'r \<Rightarrow> bool \<times> 'r"
  r_pexpire :: "int \<Rightarrow> string \<Rightarrow> int \<Rightarrow> 'r \<Rightarrow> 'r"
  r_del :: "int \<Rightarrow> string \<Rightarrow> 'r \<Rightarrow> 'r"

datatype link = Unreachable | Works | FailsBefore | ReplyLost

datatype LockLostReason = Stolen | Expired | RedisError | MaxHoldExceeded

text \<open>What a job can throw: \<open>LockLostError\<close> (lock name and reason) or any other error.\<close>

datatype job_error = LockLostError string LockLostReason | JobError js_error

definition redis_error :: job_error where
  "redis_error = JobError (JsError ''Redis command failed'')"

fun reason_text :: "LockLostReason \<Rightarrow> string" where
  "reason_text Stolen = ''stolen''"
| "reason_text Expired = ''expired''"
| "reason_text RedisError = ''redis_error''"
| "reason_text MaxHoldExceeded = ''max_hold_exceeded''"

fun error_text :: "job_error \<Rightarrow> string" where
  "error_text (JobError e) = message_of e"
| "error_text (LockLostError name reason) = 
     ''Distributed lock \"'' @ name @ ''\" lost ('' @ reason_text reason @ ''); aborting to avoid concurrent execution''"

definition redis_call :: "link \<Rightarrow> ('r \<Rightarrow> 'a \<times> 'r) \<Rightarrow> 'r \<Rightarrow> (job_error + 'a) \<times> 'r" where
  "redis_call l cmd r =
     (case l of
        Works \<Rightarrow> (Inr (fst (cmd r)), snd (cmd r))
      | ReplyLost \<Rightarrow> (Inl redis_error, snd (cmd r))
      | _ \<Rightarrow> (Inl redis_error, r))"

definition RENEW_SCRIPT :: "'r redis_api \<Rightarrow> int \<Rightarrow> string \<Rightarrow> string \<Rightarrow> int \<Rightarrow> 'r \<Rightarrow> int \<times> 'r" where
  "RENEW_SCRIPT R now key lockId px r =
     (case r_get R now key r of
        None \<Rightarrow> (0, r)
      | Some current \<Rightarrow> if current \<noteq> lockId then (- 1, r) else (1, r_pexpire R now key px r))"

definition RELEASE_SCRIPT :: "'r redis_api \<Rightarrow> int \<Rightarrow> string \<Rightarrow> string \<Rightarrow> 'r \<Rightarrow> int \<times> 'r" where
  "RELEASE_SCRIPT R now key lockId r =
     (if r_get R now key r = Some lockId then (1, r_del R now key r) else (0, r))"

subsection \<open>The lock object\<close>

record lock_config =
  ttlSeconds :: int
  lk_maxRetries :: int
  autoRenew :: bool
  renewIntervalSeconds :: "rat option"
  maxRenewFailures :: int
  maxHoldSeconds :: "rat option"

definition default_lock_config :: lock_config where
  "default_lock_config = \<lparr>ttlSeconds = 30, lk_maxRetries = 3, autoRenew = True, renewIntervalSeconds = None,
     maxRenewFailures = 2, maxHoldSeconds = None\<rparr>"

record lock =
  lk_name :: string
  lk_id :: string
  lk_config :: lock_config
  renewTimer :: bool
  lk_held :: bool
  lk_lost :: "LockLostReason option"
  acquiredAtMs :: int
  everAcquired :: bool
  consecutiveRenewFailures :: int
  degraded :: bool

definition lockKey :: "lock \<Rightarrow> string" where
  "lockKey l = ''xelma:lock:'' @ lk_name l"

definition new_lock :: "string \<Rightarrow> string \<Rightarrow> lock_config \<Rightarrow> lock" where
  "new_lock name lockId cfg = \<lparr>lk_name = name, lk_id = lockId, lk_config = cfg, renewTimer = False, lk_held = False,
     lk_lost = None, acquiredAtMs = 0, everAcquired = False, consecutiveRenewFailures = 0, degraded = False\<rparr>"

definition MIN_TIMER_MS :: int where
  "MIN_TIMER_MS = 100"

definition renewIntervalMs :: "lock_config \<Rightarrow> int" where
  "renewIntervalMs c =
     (let seconds = (case renewIntervalSeconds c of Some s \<Rightarrow> s | None \<Rightarrow> of_int (ttlSeconds c) / 3);
          capped = min (seconds * 1000) (of_int (ttlSeconds c) * 1000 / 2)
      in max MIN_TIMER_MS \<lfloor>capped\<rfloor>)"

definition maxHoldMs :: "lock_config \<Rightarrow> int" where
  "maxHoldMs c =
     (let seconds = (case maxHoldSeconds c of Some s \<Rightarrow> s | None \<Rightarrow> of_int (ttlSeconds c) * 20)
      in max MIN_TIMER_MS \<lfloor>seconds * 1000\<rfloor>)"

text \<open>What one process sees: its lock object, Redis, and the set \<open>inProcessLocks\<close>.\<close>

record 'r lock_env =
  le_lock :: lock
  le_redis :: 'r
  le_local :: "string set"

definition isHeld :: "lock \<Rightarrow> bool" where
  "isHeld l \<longleftrightarrow> lk_held l \<and> lk_lost l = None"

definition assertHeld :: "('r lock_env, job_error, unit) comp" where
  "assertHeld = m_bind (m_gets le_lock) (\<lambda>l.
     case lk_lost l of
       Some reason \<Rightarrow> m_throw (LockLostError (lk_name l) reason)
     | None \<Rightarrow> if \<not> lk_held l then m_throw (LockLostError (lk_name l) Expired) else m_return ())"

definition markAcquired :: "int \<Rightarrow> ('r lock_env, job_error, unit) comp" where
  "markAcquired now = m_modify (\<lambda>s. let l = le_lock s in
     s\<lparr>le_lock := l\<lparr>lk_held := True, everAcquired := True, lk_lost := None, acquiredAtMs := now,
         consecutiveRenewFailures := 0,
         renewTimer := (renewTimer l \<or> (\<not> degraded l \<and> autoRenew (lk_config l)))\<rparr>,
       le_local := insert (lockKey l) (le_local s)\<rparr>)"

definition markLost :: "LockLostReason \<Rightarrow> ('r lock_env, job_error, unit) comp" where
  "markLost reason = m_modify (\<lambda>s.
     if lk_lost (le_lock s) \<noteq> None then s
     else s\<lparr>le_lock := (le_lock s)\<lparr>lk_lost := Some reason, lk_held := False, renewTimer := False\<rparr>\<rparr>)"

subsection \<open>Acquiring\<close>

record lock_result =
  lr_acquired :: bool
  lr_lockId :: "string option"
  lr_unlocked :: bool
  lr_error :: "string option"

definition denied :: lock_result where
  "denied = \<lparr>lr_acquired = False, lr_lockId = None, lr_unlocked = False, lr_error = None\<rparr>"

definition acquireWithoutRedis :: "bool \<Rightarrow> bool \<Rightarrow> int \<Rightarrow> ('r lock_env, job_error, lock_result) comp" where
  "acquireWithoutRedis redisConfigured lockRequired now =
     (if redisConfigured \<or> lockRequired then m_return (denied\<lparr>lr_error := Some ''Redis unavailable''\<rparr>)
      else m_then (m_modify (\<lambda>s. s\<lparr>le_lock := (le_lock s)\<lparr>degraded := True\<rparr>\<rparr>))
        (m_then (markAcquired now) (m_bind (m_gets le_lock) (\<lambda>l.
          m_return (denied\<lparr>lr_acquired := True, lr_lockId := Some (lk_id l), lr_unlocked := True\<rparr>)))))"

definition on_redis :: "link \<Rightarrow> ('r \<Rightarrow> 'a \<times> 'r) \<Rightarrow> ('r lock_env, job_error, 'a) comp" where
  "on_redis l cmd = m_zoom le_redis le_redis_update (redis_call l cmd)"

text \<open>One \<open>SET key id NX PX ttl\<close>: \<open>Some r\<close> ends the loop with result \<open>r\<close>.\<close>

definition try_set :: "'r redis_api \<Rightarrow> link \<Rightarrow> int \<Rightarrow> bool \<Rightarrow> ('r lock_env, job_error, lock_result option) comp" where
  "try_set R l now final = m_bind (m_gets le_lock) (\<lambda>lk.
     m_catch
       (m_bind (on_redis l (r_setnx R now (lockKey lk) (lk_id lk) (ttlSeconds (lk_config lk) * 1000))) (\<lambda>ok.
         if ok then m_then (markAcquired now) (m_return (Some (denied\<lparr>lr_acquired := True, lr_lockId := Some (lk_id lk)\<rparr>))) else m_return None))
       (\<lambda>e. m_return (if final then Some (denied\<lparr>lr_error := Some (error_text e)\<rparr>) else None)))"

text \<open>The remaining attempts, with the link and the time of each.\<close>

fun acquire_loop :: "'r redis_api \<Rightarrow> (link \<times> int) list \<Rightarrow> ('r lock_env, job_error, lock_result) comp" where
  "acquire_loop R [] = m_return denied"
| "acquire_loop R ((l, now) # rest) =
     m_bind (try_set R l now (rest = [])) (\<lambda>r. case r of Some res \<Rightarrow> m_return res | None \<Rightarrow> acquire_loop R rest)"

text \<open>\<open>acquire\<close> up to its first \<open>await\<close>, and the rest of it.  \<open>tries\<close> gives the link and the time of each
  attempt; only the first \<open>max 1 maxRetries\<close> are used.\<close>

definition acquire_check :: "('r lock_env, job_error, bool) comp" where
  "acquire_check = m_gets (\<lambda>s. lockKey (le_lock s) \<in> le_local s)"

definition acquire_rest ::
  "'r redis_api \<Rightarrow> bool \<Rightarrow> bool \<Rightarrow> link \<Rightarrow> int \<Rightarrow> (nat \<Rightarrow> link \<times> int) \<Rightarrow> ('r lock_env, job_error, lock_result) comp" where
  "acquire_rest R redisConfigured lockRequired conn now tries =
     (if conn = Unreachable then acquireWithoutRedis redisConfigured lockRequired now
      else m_bind (m_gets le_lock) (\<lambda>lk. acquire_loop R (map tries [0..<nat (max 1 (lk_maxRetries (lk_config lk)))])))"

definition acquire ::
  "'r redis_api \<Rightarrow> bool \<Rightarrow> bool \<Rightarrow> link \<Rightarrow> int \<Rightarrow> (nat \<Rightarrow> link \<times> int) \<Rightarrow> ('r lock_env, job_error, lock_result) comp" where
  "acquire R redisConfigured lockRequired conn now tries =
     m_bind acquire_check (\<lambda>busy. if busy then m_return denied
       else acquire_rest R redisConfigured lockRequired conn now tries)"

subsection \<open>Renewing, confirming, releasing\<close>

definition renew :: "'r redis_api \<Rightarrow> link \<Rightarrow> int \<Rightarrow> ('r lock_env, job_error, unit) comp" where
  "renew R l now = m_bind (m_gets le_lock) (\<lambda>lk.
     if now - acquiredAtMs lk \<ge> maxHoldMs (lk_config lk) then markLost MaxHoldExceeded
     else m_bind (m_catch (m_bind (on_redis l (RENEW_SCRIPT R now (lockKey lk) (lk_id lk) (ttlSeconds (lk_config lk) * 1000)))
           (\<lambda>c. m_return (Some c))) (\<lambda>e. m_return None)) (\<lambda>outcome.
       case outcome of
         None \<Rightarrow>
           m_then (m_modify (\<lambda>s. s\<lparr>le_lock := (le_lock s)\<lparr>consecutiveRenewFailures := consecutiveRenewFailures (le_lock s) + 1\<rparr>\<rparr>))
             (if consecutiveRenewFailures lk + 1 \<ge> maxRenewFailures (lk_config lk) then markLost RedisError else m_return ())
       | Some c \<Rightarrow>
           if c = 1 then m_modify (\<lambda>s. s\<lparr>le_lock := (le_lock s)\<lparr>consecutiveRenewFailures := 0\<rparr>\<rparr>)
           else markLost (if c = - 1 then Stolen else Expired)))"

text \<open>\<open>renewTick\<close>; a beat that finds another renewal in flight does nothing, like one that never came.\<close>

definition renewTick :: "'r redis_api \<Rightarrow> link \<Rightarrow> int \<Rightarrow> ('r lock_env, job_error, unit) comp" where
  "renewTick R l now = m_bind (m_gets le_lock) (\<lambda>lk.
     if \<not> lk_held lk \<or> lk_lost lk \<noteq> None then m_return () else renew R l now)"

definition confirmStillHeld :: "'r redis_api \<Rightarrow> link \<Rightarrow> int \<Rightarrow> ('r lock_env, job_error, bool) comp" where
  "confirmStillHeld R l now = m_bind (m_gets le_lock) (\<lambda>lk.
     if degraded lk then m_return (lk_held lk)
     else if \<not> lk_held lk \<or> lk_lost lk \<noteq> None then m_return False
     else m_catch
       (m_bind (on_redis l (RENEW_SCRIPT R now (lockKey lk) (lk_id lk) (ttlSeconds (lk_config lk) * 1000))) (\<lambda>c.
          if c = 1 then m_return True
          else m_then (markLost (if c = - 1 then Stolen else Expired)) (m_return False)))
       (\<lambda>e. m_return False))"

definition extend :: "'r redis_api \<Rightarrow> link \<Rightarrow> int \<Rightarrow> ('r lock_env, job_error, bool) comp" where
  "extend R l now = confirmStillHeld R l now"

definition release :: "'r redis_api \<Rightarrow> link \<Rightarrow> int \<Rightarrow> ('r lock_env, job_error, unit) comp" where
  "release R l now =
     m_then (m_modify (\<lambda>s. s\<lparr>le_lock := (le_lock s)\<lparr>renewTimer := False, lk_held := False\<rparr>\<rparr>))
     (m_bind (m_gets le_lock) (\<lambda>lk.
       if \<not> everAcquired lk then m_return ()
       else m_then (m_modify (\<lambda>s. s\<lparr>le_lock := (le_lock s)\<lparr>everAcquired := False\<rparr>, le_local := le_local s - {lockKey lk}\<rparr>))
         (if degraded lk then m_return ()
          else m_catch (m_then (on_redis l (RELEASE_SCRIPT R now (lockKey lk) (lk_id lk))) (m_return ())) (\<lambda>e. m_return ()))))"

subsection \<open>Running a job\<close>

text \<open>\<open>fn\<close> is the job together with the heartbeats that come while it runs.\<close>

fun isLockLostError :: "job_error \<Rightarrow> bool" where
  "isLockLostError (LockLostError name reason) = True"
| "isLockLostError (JobError e) = False"

definition finally_release :: "'r redis_api \<Rightarrow> link \<Rightarrow> int \<Rightarrow> ('r lock_env, job_error, 'a) comp \<Rightarrow> ('r lock_env, job_error, 'a) comp" where
  "finally_release R l now m s =
     (case m s of (r, s') \<Rightarrow> (r, snd (release R l now s')))"

definition withDistributedLock ::
  "'r redis_api \<Rightarrow> bool \<Rightarrow> bool \<Rightarrow> link \<Rightarrow> int \<Rightarrow> (nat \<Rightarrow> link \<times> int) \<Rightarrow> link \<times> int \<Rightarrow> link \<times> int \<Rightarrow>
   ('r lock_env, job_error, 'a) comp \<Rightarrow> ('r lock_env, job_error, 'a option) comp" where
  "withDistributedLock R redisConfigured lockRequired conn now tries confirmAt releaseAt fn =
     m_bind (acquire R redisConfigured lockRequired conn now tries) (\<lambda>result.
       if \<not> lr_acquired result then m_return None
       else finally_release R (fst releaseAt) (snd releaseAt)
         (m_catch
           (m_bind fn (\<lambda>val.
             m_bind (confirmStillHeld R (fst confirmAt) (snd confirmAt)) (\<lambda>confirmed.
               m_return (if confirmed then Some val else None))))
           (\<lambda>e. if isLockLostError e then m_return None else m_throw e)))"

subsection \<open>Redis as a map of leases\<close>

text \<open>
  A lease is the value of a key with the time at which it expires.  The laws are those of the Redis
  documentation: a key is gone at its expiry, \<open>SET NX PX\<close> writes only a missing key, \<open>PEXPIRE\<close> moves
  the expiry of a present one, \<open>DEL\<close> removes it, and no command touches another key.
\<close>

definition live :: "int \<Rightarrow> (string \<times> int) option \<Rightarrow> string option" where
  "live now x = (case x of Some (v, e) \<Rightarrow> if now < e then Some v else None | None \<Rightarrow> None)"

locale redis_laws =
  fixes R :: "'r redis_api"
    and lease :: "'r \<Rightarrow> string \<Rightarrow> (string \<times> int) option"
  assumes get_law: "r_get R now k r = live now (lease r k)"
    and setnx_ok: "fst (r_setnx R now k v px r) \<longleftrightarrow> live now (lease r k) = None"
    and setnx_lease: "lease (snd (r_setnx R now k v px r)) =
      (if live now (lease r k) = None then (lease r)(k \<mapsto> (v, now + px)) else lease r)"
    and pexpire_lease: "live now (lease r k) = Some v \<Longrightarrow>
      lease (r_pexpire R now k px r) = (lease r)(k \<mapsto> (v, now + px))"
    and del_lease: "lease (r_del R now k r) = (lease r)(k := None)"
begin

lemma renew_code:
  "fst (RENEW_SCRIPT R now k v px r) =
     (case live now (lease r k) of None \<Rightarrow> 0 | Some w \<Rightarrow> if w = v then 1 else - 1)"
  by (simp add: RENEW_SCRIPT_def get_law split: option.split)

lemma renew_lease:
  "lease (snd (RENEW_SCRIPT R now k v px r)) =
     (if live now (lease r k) = Some v then (lease r)(k \<mapsto> (v, now + px)) else lease r)"
  by (auto simp: RENEW_SCRIPT_def get_law pexpire_lease split: option.split)

lemma release_lease:
  "lease (snd (RELEASE_SCRIPT R now k v r)) = (if live now (lease r k) = Some v then (lease r)(k := None) else lease r)"
  by (simp add: RELEASE_SCRIPT_def get_law del_lease)

text \<open>\<open>leased k v d r\<close>: key \<open>k\<close> holds \<open>v\<close> until \<open>d\<close> at least.\<close>

definition leased :: "string \<Rightarrow> string \<Rightarrow> int \<Rightarrow> 'r \<Rightarrow> bool" where
  "leased k v d r \<longleftrightarrow> (\<exists>e. lease r k = Some (v, e) \<and> d \<le> e)"

lemma leased_live: "leased k v d r \<Longrightarrow> now < d \<Longrightarrow> live now (lease r k) = Some v"
  by (auto simp: leased_def live_def)

lemma leased_setnx:
  "leased k v d r \<Longrightarrow> now < d \<Longrightarrow> leased k v d (snd (r_setnx R now k' w px r))"
  using leased_live [of k v d r now] by (auto simp: leased_def setnx_lease)

lemma leased_renew:
  "leased k v d r \<Longrightarrow> now < d \<Longrightarrow> (k' = k \<Longrightarrow> w = v \<Longrightarrow> d \<le> now + px) \<Longrightarrow>
   leased k v d (snd (RENEW_SCRIPT R now k' w px r))"
  using leased_live [of k v d r now] by (auto simp: leased_def renew_lease)

lemma leased_release:
  "leased k v d r \<Longrightarrow> now < d \<Longrightarrow> k' \<noteq> k \<or> w \<noteq> v \<Longrightarrow> leased k v d (snd (RELEASE_SCRIPT R now k' w r))"
  using leased_live [of k v d r now] by (auto simp: leased_def release_lease)

end

subsection \<open>The laws hold of a map with expiry times\<close>

definition map_redis :: "(string \<Rightarrow> (string \<times> int) option) redis_api" where
  "map_redis = \<lparr>
     r_get = (\<lambda>now k r. live now (r k)),
     r_setnx = (\<lambda>now k v px r. if live now (r k) = None then (True, r(k \<mapsto> (v, now + px))) else (False, r)),
     r_pexpire = (\<lambda>now k px r. case live now (r k) of None \<Rightarrow> r | Some v \<Rightarrow> r(k \<mapsto> (v, now + px))),
     r_del = (\<lambda>now k r. r(k := None))\<rparr>"

interpretation mr: redis_laws map_redis "\<lambda>r. r"
  by unfold_locales (simp_all add: map_redis_def)

subsection \<open>Several instances\<close>

text \<open>
  Each instance is a process with its own lock object and its own set of local locks; Redis is shared.
  A step is one access to Redis: an attempt of \<open>acquire\<close>, a heartbeat, a confirmation or a release, with
  the time at which Redis runs it.  Its answer is \<open>True\<close> when it confirmed the ownership of the key.
\<close>

record 'r cluster =
  cl_redis :: 'r
  cl_lock :: "nat \<Rightarrow> lock"
  cl_local :: "nat \<Rightarrow> string set"

definition on_instance :: "nat \<Rightarrow> ('r lock_env, job_error, 'a) comp \<Rightarrow> ('r cluster, job_error, 'a) comp" where
  "on_instance i m S =
     (case m \<lparr>le_lock = cl_lock S i, le_redis = cl_redis S, le_local = cl_local S i\<rparr> of (r, e) \<Rightarrow>
        (r, \<lparr>cl_redis = le_redis e, cl_lock = (cl_lock S)(i := le_lock e), cl_local = (cl_local S)(i := le_local e)\<rparr>))"

datatype lock_op = TrySet link bool | Beat link | Confirm link | Release link

fun run_lock_op :: "'r redis_api \<Rightarrow> int \<Rightarrow> lock_op \<Rightarrow> ('r lock_env, job_error, bool) comp" where
  "run_lock_op R now (TrySet l final) =
     m_bind (try_set R l now final) (\<lambda>r. m_return (case r of Some x \<Rightarrow> lr_acquired x | None \<Rightarrow> False))"
| "run_lock_op R now (Beat l) = m_then (renewTick R l now) (m_return False)"
| "run_lock_op R now (Confirm l) = confirmStillHeld R l now"
| "run_lock_op R now (Release l) = m_then (release R l now) (m_return False)"

definition cluster_step :: "'r redis_api \<Rightarrow> 'r cluster \<Rightarrow> int \<times> nat \<times> lock_op \<Rightarrow> 'r cluster" where
  "cluster_step R S x = (case x of (now, i, op) \<Rightarrow> snd (on_instance i (run_lock_op R now op) S))"

text \<open>The fields no operation changes once Redis is in use.\<close>

definition identity :: "lock \<Rightarrow> string \<times> string \<times> lock_config \<times> bool" where
  "identity l = (lk_name l, lk_id l, lk_config l, degraded l)"

definition ttl_ms :: "lock \<Rightarrow> int" where
  "ttl_ms l = ttlSeconds (lk_config l) * 1000"

text \<open>A step between \<open>t0\<close> and \<open>d\<close> that is not a release by instance \<open>i\<close>.\<close>

fun is_release :: "lock_op \<Rightarrow> bool" where
  "is_release (Release l) = True"
| "is_release _ = False"

definition in_window :: "nat \<Rightarrow> int \<Rightarrow> int \<Rightarrow> int \<times> nat \<times> lock_op \<Rightarrow> bool" where
  "in_window i t0 d x \<longleftrightarrow> (case x of (t, j, op) \<Rightarrow> t0 \<le> t \<and> t < d \<and> \<not> (j = i \<and> is_release op))"

lemma lockKey_update [simp]:
  "lockKey (l\<lparr>lk_held := b\<rparr>) = lockKey l" "lockKey (l\<lparr>renewTimer := b\<rparr>) = lockKey l"
  "lockKey (l\<lparr>everAcquired := b\<rparr>) = lockKey l"
  by (simp_all add: lockKey_def)

lemmas lock_defs = try_set_def renewTick_def renew_def confirmStillHeld_def release_def markAcquired_def markLost_def
  on_redis_def redis_call_def

lemma run_lock_op_identity: "identity (le_lock (snd (run_lock_op R now op e))) = identity (le_lock e)"
  by (cases op) (simp_all add: lock_defs comp_defs identity_def Let_def split: link.split option.split)

context redis_laws
begin

lemma run_lock_op_leased:
  assumes l: "leased k v d (le_redis e)" and t: "now < d"
    and own: "lockKey (le_lock e) = k \<Longrightarrow> lk_id (le_lock e) = v \<Longrightarrow>
      d \<le> now + ttl_ms (le_lock e) \<and> \<not> is_release op"
  shows "leased k v d (le_redis (snd (run_lock_op R now op e)))"
proof -
  let ?k = "lockKey (le_lock e)" and ?v = "lk_id (le_lock e)" and ?ttl = "ttlSeconds (lk_config (le_lock e)) * 1000"
  have renews: "leased k v d (snd (RENEW_SCRIPT R now ?k ?v ?ttl (le_redis e)))"
    using own by (intro leased_renew [OF l t]) (simp add: ttl_ms_def)
  moreover have releases: "leased k v d (snd (RELEASE_SCRIPT R now ?k ?v (le_redis e)))" if "op = Release x" for x
    using own that by (intro leased_release [OF l t]) auto
  ultimately show ?thesis using leased_setnx [OF l t] l
    by (cases op) (auto simp: lock_defs comp_defs Let_def split: link.split option.split)
qed

lemma run_lock_op_other:
  assumes l: "leased (lockKey (le_lock e)) v d (le_redis e)" and t: "now < d"
    and ne: "lk_id (le_lock e) \<noteq> v" and deg: "\<not> degraded (le_lock e)"
  shows "fst (run_lock_op R now op e) = Inr False"
    and "op \<in> {Beat Works, Confirm Works} \<Longrightarrow> \<not> isHeld (le_lock (snd (run_lock_op R now op e)))"
  using assms leased_live [OF l t] renew_code [of now "lockKey (le_lock e)" "lk_id (le_lock e)" _ "le_redis e"]
    setnx_ok [of now "lockKey (le_lock e)" _ _ "le_redis e"]
  by (cases op; auto simp: lock_defs comp_defs Let_def isHeld_def denied_def split: link.split option.split)+

lemma run_lock_op_confirms:
  assumes "run_lock_op R now op e = (Inr True, e')" and "\<not> degraded (le_lock e)"
  shows "leased (lockKey (le_lock e)) (lk_id (le_lock e)) (now + ttl_ms (le_lock e)) (le_redis e')"
  using assms renew_code [of now "lockKey (le_lock e)" "lk_id (le_lock e)" _ "le_redis e"]
    renew_lease [of now "lockKey (le_lock e)" "lk_id (le_lock e)" _ "le_redis e"]
    setnx_ok [of now "lockKey (le_lock e)" _ _ "le_redis e"] setnx_lease [of now "lockKey (le_lock e)" _ _ "le_redis e"]
  by (cases op) (auto simp: lock_defs comp_defs Let_def leased_def ttl_ms_def denied_def split: link.splits option.splits if_splits)

text \<open>A lease of instance \<open>i\<close> survives the steps of a window.\<close>

lemma window_step:
  assumes "in_window i t0 d x" and "leased (lockKey (cl_lock S i)) (lk_id (cl_lock S i)) d (cl_redis S)"
    and "\<forall>j. j \<noteq> i \<longrightarrow> lk_id (cl_lock S j) \<noteq> lk_id (cl_lock S i)" and "d \<le> t0 + ttl_ms (cl_lock S i)"
  shows "leased (lockKey (cl_lock S i)) (lk_id (cl_lock S i)) d (cl_redis (cluster_step R S x)) \<and>
    (\<forall>j. identity (cl_lock (cluster_step R S x) j) = identity (cl_lock S j))"
proof -
  obtain t j op where x: "x = (t, j, op)" by (cases x)
  let ?e = "\<lparr>le_lock = cl_lock S j, le_redis = cl_redis S, le_local = cl_local S j\<rparr>"
  obtain r e' where run: "run_lock_op R t op ?e = (r, e')" by fastforce
  have own: "lk_id (cl_lock S j) = lk_id (cl_lock S i) \<longleftrightarrow> j = i" using assms(3) by metis
  have "leased (lockKey (cl_lock S i)) (lk_id (cl_lock S i)) d (le_redis e')"
    using run_lock_op_leased [of "lockKey (cl_lock S i)" "lk_id (cl_lock S i)" d ?e t op] own assms run x
    by (auto simp: in_window_def)
  moreover have "identity (le_lock e') = identity (cl_lock S j)"
    using run_lock_op_identity [of R t op ?e] run by simp
  ultimately show ?thesis using run x by (simp add: cluster_step_def on_instance_def)
qed

lemma window_run:
  assumes "\<forall>x\<in>set xs. in_window i t0 d x" and "leased (lockKey (cl_lock S i)) (lk_id (cl_lock S i)) d (cl_redis S)"
    and "\<forall>j. j \<noteq> i \<longrightarrow> lk_id (cl_lock S j) \<noteq> lk_id (cl_lock S i)" and "d \<le> t0 + ttl_ms (cl_lock S i)"
  shows "leased (lockKey (cl_lock S i)) (lk_id (cl_lock S i)) d (cl_redis (foldl (cluster_step R) S xs)) \<and>
    (\<forall>j. identity (cl_lock (foldl (cluster_step R) S xs) j) = identity (cl_lock S j))"
  using assms
proof (induction xs arbitrary: S)
  case Nil
  then show ?case by simp
next
  case (Cons x xs)
  let ?S = "cluster_step R S x"
  have step: "leased (lockKey (cl_lock S i)) (lk_id (cl_lock S i)) d (cl_redis ?S)"
    "identity (cl_lock ?S j) = identity (cl_lock S j)" for j
    using window_step [OF _ Cons.prems(2,3,4), of x] Cons.prems(1) by simp_all
  have same: "lockKey (cl_lock ?S j) = lockKey (cl_lock S j)" "lk_id (cl_lock ?S j) = lk_id (cl_lock S j)"
    "ttl_ms (cl_lock ?S j) = ttl_ms (cl_lock S j)" for j
    using step(2) [of j] by (simp_all add: identity_def lockKey_def ttl_ms_def)
  from Cons.IH [of ?S] Cons.prems step show ?case by (simp add: same)
qed

lemma exclusive:
  assumes "on_instance i (run_lock_op R t0 op) S = (Inr True, S1)"
    and ids: "\<forall>j. j \<noteq> i \<longrightarrow> lk_id (cl_lock S j) \<noteq> lk_id (cl_lock S i)"
    and deg: "\<forall>j. \<not> degraded (cl_lock S j)"
    and win: "\<forall>x\<in>set xs. in_window i t0 (t0 + ttl_ms (cl_lock S i)) x"
    and t: "t < t0 + ttl_ms (cl_lock S i)"
    and j: "j \<noteq> i" "lk_name (cl_lock S j) = lk_name (cl_lock S i)"
    and fin: "on_instance j (run_lock_op R t op') (foldl (cluster_step R) S1 xs) = (r, S2)"
  shows "r_get R t (lockKey (cl_lock S i)) (cl_redis (foldl (cluster_step R) S1 xs)) = Some (lk_id (cl_lock S i)) \<and>
    r = Inr False \<and> (op' \<in> {Beat Works, Confirm Works} \<longrightarrow> \<not> isHeld (cl_lock S2 j))"
proof -
  let ?e = "\<lparr>le_lock = cl_lock S i, le_redis = cl_redis S, le_local = cl_local S i\<rparr>" and ?d = "t0 + ttl_ms (cl_lock S i)"
  obtain e1 where e1: "run_lock_op R t0 op ?e = (Inr True, e1)" and S1: "S1 = \<lparr>cl_redis = le_redis e1,
      cl_lock = (cl_lock S)(i := le_lock e1), cl_local = (cl_local S)(i := le_local e1)\<rparr>"
    using assms(1) by (auto simp: on_instance_def split: prod.splits)
  have l1: "leased (lockKey (cl_lock S i)) (lk_id (cl_lock S i)) ?d (cl_redis S1)"
    using run_lock_op_confirms [OF e1] deg S1 by simp
  have id1: "identity (cl_lock S1 j) = identity (cl_lock S j)" for j
    using run_lock_op_identity [of R t0 op ?e] e1 S1 by simp
  have same1: "lockKey (cl_lock S1 j) = lockKey (cl_lock S j)" "lk_id (cl_lock S1 j) = lk_id (cl_lock S j)"
    "ttl_ms (cl_lock S1 j) = ttl_ms (cl_lock S j)" for j
    using id1 [of j] by (simp_all add: identity_def lockKey_def ttl_ms_def)
  define S' where "S' = foldl (cluster_step R) S1 xs"
  have l': "leased (lockKey (cl_lock S i)) (lk_id (cl_lock S i)) ?d (cl_redis S')"
    and id': "identity (cl_lock S' j) = identity (cl_lock S j)" for j
    using window_run [OF win, of S1] l1 ids id1 by (simp_all add: same1 S'_def)
  let ?e' = "\<lparr>le_lock = cl_lock S' j, le_redis = cl_redis S', le_local = cl_local S' j\<rparr>"
  have "lockKey (cl_lock S' j) = lockKey (cl_lock S i)" "lk_id (cl_lock S' j) \<noteq> lk_id (cl_lock S i)"
    "\<not> degraded (cl_lock S' j)"
    using id' [of j] j ids deg by (auto simp: identity_def lockKey_def)
  then have "fst (run_lock_op R t op' ?e') = Inr False"
    and "op' \<in> {Beat Works, Confirm Works} \<Longrightarrow> \<not> isHeld (le_lock (snd (run_lock_op R t op' ?e')))"
    using run_lock_op_other [of ?e' "lk_id (cl_lock S i)" ?d t op'] l' t by simp_all
  then show ?thesis using fin leased_live [OF l' t] get_law [of t "lockKey (cl_lock S i)" "cl_redis S'"]
    by (auto simp: on_instance_def S'_def split: prod.splits)
qed

end

subsection \<open>Acquisition and release as a whole\<close>

text \<open>Acquiring never throws; it takes the lock or leaves everything but Redis as it was.\<close>

definition acquisition :: "'r lock_env \<Rightarrow> lock_result \<Rightarrow> 'r lock_env \<Rightarrow> bool" where
  "acquisition e res e' \<longleftrightarrow>
     lk_name (le_lock e') = lk_name (le_lock e) \<and> lk_id (le_lock e') = lk_id (le_lock e) \<and>
     (if lr_acquired res then everAcquired (le_lock e') \<and> isHeld (le_lock e') \<and> degraded (le_lock e') = lr_unlocked res \<and>
        le_local e' = insert (lockKey (le_lock e)) (le_local e)
      else le_lock e' = le_lock e \<and> le_local e' = le_local e)"

lemma acquisition_cong:
  "le_lock e1 = le_lock e \<Longrightarrow> le_local e1 = le_local e \<Longrightarrow> acquisition e1 = acquisition e"
  by (simp add: acquisition_def fun_eq_iff)

lemma try_set_outcome:
  assumes "\<not> degraded (le_lock e)"
  shows "\<exists>r e'. try_set R l now final e = (Inr r, e') \<and>
    (case r of None \<Rightarrow> le_lock e' = le_lock e \<and> le_local e' = le_local e | Some res \<Rightarrow> acquisition e res e')"
  using assms by (cases l) (auto simp: lock_defs comp_defs acquisition_def denied_def isHeld_def Let_def)

lemma acquire_loop_outcome:
  "\<not> degraded (le_lock e) \<Longrightarrow> \<exists>res e'. acquire_loop R xs e = (Inr res, e') \<and> acquisition e res e'"
proof (induction xs arbitrary: e)
  case Nil
  then show ?case by (simp add: m_return_def acquisition_def denied_def)
next
  case (Cons x xs)
  obtain l now where x: "x = (l, now)" by (cases x)
  from try_set_outcome [OF Cons.prems] obtain r e1 where t: "try_set R l now (xs = []) e = (Inr r, e1)"
    "case r of None \<Rightarrow> le_lock e1 = le_lock e \<and> le_local e1 = le_local e | Some res \<Rightarrow> acquisition e res e1" by blast
  show ?case
  proof (cases r)
    case None
    with t Cons.IH [of e1] Cons.prems show ?thesis by (simp add: x m_bind_def acquisition_cong [of e1 e])
  next
    case (Some res)
    with t show ?thesis by (simp add: x m_bind_def m_return_def)
  qed
qed

lemma acquire_outcome:
  assumes "\<not> degraded (le_lock e)"
  shows "\<exists>res e'. acquire R rc req conn now tries e = (Inr res, e') \<and> acquisition e res e'"
proof (cases "lockKey (le_lock e) \<in> le_local e")
  case True
  then show ?thesis by (simp add: acquire_def acquire_check_def comp_defs acquisition_def denied_def)
next
  case False
  show ?thesis
  proof (cases "conn = Unreachable")
    case True
    with False show ?thesis
      by (auto simp: acquire_def acquire_check_def acquire_rest_def acquireWithoutRedis_def markAcquired_def comp_defs
          acquisition_def denied_def isHeld_def Let_def lockKey_def)
  next
    case False
    with \<open>lockKey (le_lock e) \<notin> le_local e\<close> acquire_loop_outcome [OF assms, of R] show ?thesis
      by (simp add: acquire_def acquire_check_def acquire_rest_def m_bind_def m_gets_def)
  qed
qed

text \<open>What \<open>release\<close> leaves of a lock that was taken.\<close>

lemma release_outcome:
  assumes "everAcquired (le_lock e)"
  shows "fst (release R l now e) = Inr ()" and "le_local (snd (release R l now e)) = le_local e - {lockKey (le_lock e)}"
    and "\<not> lk_held (le_lock (snd (release R l now e)))"
  using assms by (simp_all add: lock_defs comp_defs split: link.split)

context redis_laws
begin

lemma release_frees:
  assumes "everAcquired (le_lock e)" and "\<not> degraded (le_lock e)"
  shows "r_get R now (lockKey (le_lock e)) (le_redis (snd (release R Works now e))) \<noteq> Some (lk_id (le_lock e))"
  using assms by (simp add: lock_defs comp_defs get_law release_lease live_def)

lemma confirm_outcome:
  "\<exists>b e'. confirmStillHeld R l now e = (Inr b, e') \<and> everAcquired (le_lock e') = everAcquired (le_lock e) \<and>
     identity (le_lock e') = identity (le_lock e) \<and>
     (b \<longrightarrow> degraded (le_lock e) \<or> l = Works \<and> r_get R now (lockKey (le_lock e)) (le_redis e) = Some (lk_id (le_lock e)))"
  using renew_code [of now "lockKey (le_lock e)" "lk_id (le_lock e)" _ "le_redis e"]
  by (cases l; cases "live now (lease (le_redis e) (lockKey (le_lock e)))")
    (auto simp: lock_defs comp_defs identity_def get_law)

end

subsection \<open>Properties\<close>

text \<open>C22. One leader at a time.  When an instance's acquisition or confirmation succeeds at time \<open>t0\<close>, it
  owns the key for the whole lifetime \<open>ttl\<close>: whatever attempts, heartbeats, confirmations and releases
  the other instances run before \<open>t0 + ttl\<close>, over links that may fail before or after the command, none
  of them is granted or confirmed the lock, and one that asks Redis over a working link no longer
  believes to hold it.\<close>

theorem single_leader:
  assumes "redis_laws R lease"
    and "on_instance i (run_lock_op R t0 op) S = (Inr True, S1)"
    and "\<forall>j. j \<noteq> i \<longrightarrow> lk_id (cl_lock S j) \<noteq> lk_id (cl_lock S i)"
    and "\<forall>j. \<not> degraded (cl_lock S j)"
    and "\<forall>x\<in>set xs. in_window i t0 (t0 + ttl_ms (cl_lock S i)) x"
    and "t < t0 + ttl_ms (cl_lock S i)"
    and "j \<noteq> i" and "lk_name (cl_lock S j) = lk_name (cl_lock S i)"
    and "on_instance j (run_lock_op R t op') (foldl (cluster_step R) S1 xs) = (r, S2)"
  shows "r_get R t (lockKey (cl_lock S i)) (cl_redis (foldl (cluster_step R) S1 xs)) = Some (lk_id (cl_lock S i)) \<and>
    r = Inr False \<and> (op' \<in> {Beat Works, Confirm Works} \<longrightarrow> \<not> isHeld (cl_lock S2 j))"
  by (rule redis_laws.exclusive [OF assms])

definition two_instances :: "(string \<Rightarrow> (string \<times> int) option) cluster" where
  "two_instances = \<lparr>cl_redis = (\<lambda>k. None),
     cl_lock = (\<lambda>i. new_lock ''job'' (if i = 0 then ''a'' else ''b'') default_lock_config), cl_local = (\<lambda>i. {})\<rparr>"

theorem single_leader_witness:
  "let (r0, S1) = on_instance 0 (run_lock_op map_redis 0 (TrySet Works True)) two_instances;
       S' = foldl (cluster_step map_redis) S1 [(100, 1, TrySet Works False), (10000, 0, Beat ReplyLost)];
       (r, S2) = on_instance 1 (run_lock_op map_redis 29999 (TrySet Works True)) S'
   in r0 = Inr True \<and> r = Inr False \<and> r_get map_redis 29999 ''xelma:lock:job'' (cl_redis S') = Some ''a''"
proof -
  let ?run = "on_instance 0 (run_lock_op map_redis 0 (TrySet Works True)) two_instances"
  have r0: "?run = (Inr True, snd ?run)"
    by (simp add: on_instance_def lock_defs comp_defs two_instances_def map_redis_def live_def new_lock_def denied_def
        Let_def)
  let ?S' = "foldl (cluster_step map_redis) (snd ?run) [(100, 1, TrySet Works False), (10000, 0, Beat ReplyLost)]"
  have "r_get map_redis 29999 (lockKey (cl_lock two_instances 0)) (cl_redis ?S') = Some (lk_id (cl_lock two_instances 0)) \<and>
    fst (on_instance 1 (run_lock_op map_redis 29999 (TrySet Works True)) ?S') = Inr False \<and>
    (TrySet Works True \<in> {Beat Works, Confirm Works} \<longrightarrow>
      \<not> isHeld (cl_lock (snd (on_instance 1 (run_lock_op map_redis 29999 (TrySet Works True)) ?S')) 1))"
    by (rule single_leader [OF mr.redis_laws_axioms r0])
      (simp_all add: two_instances_def new_lock_def in_window_def ttl_ms_def default_lock_config_def)
  moreover have "lockKey (cl_lock two_instances 0) = ''xelma:lock:job''" "lk_id (cl_lock two_instances 0) = ''a''"
    by (simp_all add: two_instances_def new_lock_def lockKey_def)
  moreover have "fst ?run = Inr True" by (subst r0) (rule fst_conv)
  ultimately show ?thesis unfolding Let_def case_prod_unfold by metis
qed

text \<open>The job runs as the leader or not at all, and the lock is always given back.  When the lock was not
  acquired the job does not run and nothing changes but Redis.  Otherwise, whatever the job returns or
  throws, the local lock is free again afterwards and the lock object is not held; when Redis answers the
  release, the key is not ours any more; a result is delivered only if Redis confirmed the ownership (or
  Redis is not configured), and the loss of the lock is never reported as an error of the job.\<close>

theorem job_runs_locked:
  assumes "redis_laws R lease"
    and "\<forall>e. everAcquired (le_lock (snd (fn e))) = everAcquired (le_lock e) \<and> identity (le_lock (snd (fn e))) = identity (le_lock e)"
    and "le_lock e = new_lock name lockId cfg"
    and "withDistributedLock R rc req conn now tries (lc, tc) (lr, tr) fn e = (r, e')"
  shows "case acquire R rc req conn now tries e of
      (Inl err, e1) \<Rightarrow> False
    | (Inr res, e1) \<Rightarrow>
        if \<not> lr_acquired res then r = Inr None \<and> le_lock e' = le_lock e \<and> le_local e' = le_local e
        else lockKey (le_lock e) \<notin> le_local e' \<and> \<not> lk_held (le_lock e') \<and>
          (lr = Works \<and> \<not> lr_unlocked res \<longrightarrow> r_get R tr (lockKey (le_lock e)) (le_redis e') \<noteq> Some lockId) \<and>
          (\<forall>v. r = Inr (Some v) \<longrightarrow> fst (fn e1) = Inr v \<and>
             (lr_unlocked res \<or> lc = Works \<and> r_get R tc (lockKey (le_lock e)) (le_redis (snd (fn e1))) = Some lockId)) \<and>
          (\<forall>n why. r \<noteq> Inl (LockLostError n why))"
proof -
  have "\<not> degraded (le_lock e)" using assms(3) by (simp add: new_lock_def)
  from acquire_outcome [OF this] obtain res e1
    where acq: "acquire R rc req conn now tries e = (Inr res, e1)" "acquisition e res e1" by blast
  show ?thesis
  proof (cases "lr_acquired res")
    case False
    with acq assms(4) show ?thesis by (simp add: withDistributedLock_def m_bind_def m_return_def acquisition_def)
  next
    case True
    obtain v e2 where fn: "fn e1 = (v, e2)" by fastforce
    have e2: "everAcquired (le_lock e2)" "lk_id (le_lock e2) = lockId" "lockKey (le_lock e2) = lockKey (le_lock e)"
      "degraded (le_lock e2) = lr_unlocked res"
      using acq(2) True assms(2) [rule_format, of e1] fn assms(3)
      by (simp_all add: acquisition_def identity_def lockKey_def new_lock_def)
    from redis_laws.confirm_outcome [OF assms(1), of lc tc e2] obtain b e3
      where conf: "confirmStillHeld R lc tc e2 = (Inr b, e3)" "everAcquired (le_lock e3) = everAcquired (le_lock e2)"
        "identity (le_lock e3) = identity (le_lock e2)" "b \<Longrightarrow> degraded (le_lock e2) \<or>
           lc = Works \<and> r_get R tc (lockKey (le_lock e2)) (le_redis e2) = Some (lk_id (le_lock e2))" by blast
    have released: "lockKey (le_lock e) \<notin> le_local (snd (release R lr tr x)) \<and> \<not> lk_held (le_lock (snd (release R lr tr x))) \<and>
        (lr = Works \<and> \<not> lr_unlocked res \<longrightarrow>
           r_get R tr (lockKey (le_lock e)) (le_redis (snd (release R lr tr x))) \<noteq> Some lockId)"
      if "everAcquired (le_lock x) = everAcquired (le_lock e2)" "identity (le_lock x) = identity (le_lock e2)" for x
    proof -
      have "lockKey (le_lock x) = lockKey (le_lock e)" "everAcquired (le_lock x)" "lk_id (le_lock x) = lockId"
        "degraded (le_lock x) = lr_unlocked res"
        using that e2 by (auto simp: identity_def lockKey_def)
      then show ?thesis using release_outcome [of x R lr tr] redis_laws.release_frees [OF assms(1), of x tr] by auto
    qed
    show ?thesis
      using assms(4) acq(1) True fn conf e2 released [of e2] released [of e3]
      by (cases v; cases b; cases "projl v")
        (auto simp: withDistributedLock_def m_bind_def m_catch_def finally_release_def m_return_def m_throw_def
          split: if_splits)
  qed
qed

definition idle_env :: "(string \<Rightarrow> (string \<times> int) option) lock_env" where
  "idle_env = \<lparr>le_lock = new_lock ''job'' ''a'' default_lock_config, le_redis = (\<lambda>k. None), le_local = {}\<rparr>"

theorem job_runs_locked_witness:
  "let fn = m_then assertHeld (m_return (7 :: nat));
       (r, e') = withDistributedLock map_redis True True Works 0 (\<lambda>i. (Works, 0)) (Works, 50) (Works, 60) fn idle_env
   in r = Inr (Some 7) \<and> lockKey (le_lock idle_env) \<notin> le_local e' \<and>
      r_get map_redis 60 (lockKey (le_lock idle_env)) (le_redis e') \<noteq> Some ''a''"
proof -
  let ?fn = "m_then assertHeld (m_return (7 :: nat)) :: ((string \<Rightarrow> (string \<times> int) option) lock_env, job_error, nat) comp"
  let ?run = "withDistributedLock map_redis True True Works 0 (\<lambda>i. (Works, 0)) (Works, 50) (Works, 60) ?fn idle_env"
  have keeps: "snd (?fn e) = e" for e
    by (simp add: assertHeld_def comp_defs split: option.split)
  have run: "?run = (fst ?run, snd ?run)" by simp
  obtain e1 where acq: "acquire map_redis True True Works 0 (\<lambda>i. (Works, 0)) idle_env =
      (Inr (denied\<lparr>lr_acquired := True, lr_lockId := Some ''a''\<rparr>), e1)"
    by (simp add: acquire_def acquire_check_def acquire_rest_def idle_env_def new_lock_def default_lock_config_def lock_defs
        comp_defs map_redis_def live_def Let_def upt_rec numeral_3_eq_3)
  have lock: "le_lock idle_env = new_lock ''job'' ''a'' default_lock_config" by (simp add: idle_env_def)
  have "fst ?run = Inr (Some 7)"
    by (simp add: withDistributedLock_def finally_release_def assertHeld_def acquire_def acquire_check_def acquire_rest_def
        idle_env_def new_lock_def default_lock_config_def lock_defs comp_defs map_redis_def live_def Let_def RENEW_SCRIPT_def
        RELEASE_SCRIPT_def lockKey_def denied_def upt_rec numeral_3_eq_3)
  moreover from job_runs_locked [OF mr.redis_laws_axioms _ lock run] acq keeps
  have "lockKey (le_lock idle_env) \<notin> le_local (snd ?run) \<and>
      r_get map_redis 60 (lockKey (le_lock idle_env)) (le_redis (snd ?run)) \<noteq> Some ''a''"
    by (simp add: denied_def)
  ultimately show ?thesis by (simp add: case_prod_unfold)
qed

subsection \<open>Losing Redis\<close>

definition failing_beats :: "'r redis_api \<Rightarrow> (link \<times> int) list \<Rightarrow> ('r lock_env, job_error, unit) comp" where
  "failing_beats R beats = m_forEach beats (\<lambda>(l, t). renewTick R l t)"

lemma failing_beat:
  assumes "l \<noteq> Works"
  shows "fst (renewTick R l t e) = Inr ()"
    and "maxRenewFailures (lk_config (le_lock (snd (renewTick R l t e)))) = maxRenewFailures (lk_config (le_lock e))"
    and "isHeld (le_lock (snd (renewTick R l t e))) \<Longrightarrow> isHeld (le_lock e) \<and>
      consecutiveRenewFailures (le_lock (snd (renewTick R l t e))) = consecutiveRenewFailures (le_lock e) + 1 \<and>
      consecutiveRenewFailures (le_lock e) + 1 < maxRenewFailures (lk_config (le_lock e))"
  using assms by (cases l; auto simp: lock_defs comp_defs isHeld_def split: if_splits)+

lemma failing_beats_held:
  assumes "\<forall>(l, t)\<in>set beats. l \<noteq> Works" and "isHeld (le_lock (snd (failing_beats R beats e)))" and "beats \<noteq> []"
  shows "consecutiveRenewFailures (le_lock e) + int (length beats) < maxRenewFailures (lk_config (le_lock e))"
  using assms
proof (induction beats arbitrary: e)
  case Nil
  then show ?case by simp
next
  case (Cons b beats)
  obtain l t where b: "b = (l, t)" by (cases b)
  let ?e = "snd (renewTick R l t e)"
  have l: "l \<noteq> Works" using Cons.prems(1) b by simp
  have rest: "failing_beats R (b # beats) e = failing_beats R beats ?e"
    using failing_beat(1) [OF l, of R t e] by (cases "renewTick R l t e") (simp add: failing_beats_def b m_bind_def)
  show ?case
  proof (cases "beats = []")
    case True
    with Cons.prems(2) rest failing_beat(3) [OF l, of R t e] show ?thesis
      by (simp add: failing_beats_def m_return_def)
  next
    case False
    have held: "isHeld (le_lock (snd (failing_beats R beats ?e)))" using Cons.prems(2) rest by simp
    have *: "consecutiveRenewFailures (le_lock ?e) + int (length beats) < maxRenewFailures (lk_config (le_lock ?e))"
      using Cons.IH [of ?e] Cons.prems(1) held False by simp
    show ?thesis
    proof (cases "isHeld (le_lock ?e)")
      case True
      with * failing_beat(2,3) [OF l, of R t e] show ?thesis by simp
    next
      case notheld: False
      have stuck: "snd (failing_beats R beats x) = x" if "\<not> isHeld (le_lock x)" for x
        using that by (induction beats) (auto simp: failing_beats_def renewTick_def comp_defs isHeld_def)
      show ?thesis using held notheld stuck [OF notheld] by simp
    qed
  qed
qed

text \<open>A leader that cannot reach Redis steps down.  After \<open>maxRenewFailures\<close> heartbeats in a row without
  an answer the lock counts as lost, whatever the times of the beats, and \<open>assertHeld\<close> throws; with the
  default configuration those beats are over before the lease of the last successful renewal has expired,
  so no other instance can have become leader meanwhile.\<close>

theorem unreachable_leader_steps_down:
  assumes "\<forall>(l, t)\<in>set beats. l \<noteq> Works"
    and "maxRenewFailures (lk_config (le_lock e)) \<le> int (length beats)" and "beats \<noteq> []"
    and "0 \<le> consecutiveRenewFailures (le_lock e)"
  shows "\<not> isHeld (le_lock (snd (failing_beats R beats e))) \<and>
    (\<exists>n why. fst (assertHeld (snd (failing_beats R beats e))) = Inl (LockLostError n why)) \<and>
    maxRenewFailures default_lock_config * renewIntervalMs default_lock_config < ttlSeconds default_lock_config * 1000"
proof -
  have "\<not> isHeld (le_lock (snd (failing_beats R beats e)))"
    using failing_beats_held [OF assms(1) _ assms(3), of R e] assms(2,4) by linarith
  moreover have "renewIntervalMs default_lock_config = 10000"
    by (simp add: renewIntervalMs_def default_lock_config_def MIN_TIMER_MS_def)
  ultimately show ?thesis
    by (auto simp: default_lock_config_def assertHeld_def comp_defs isHeld_def split: option.splits)
qed

theorem unreachable_leader_steps_down_witness:
  "\<not> isHeld (le_lock (snd (failing_beats map_redis [(Unreachable, 10000), (ReplyLost, 20000)]
      (idle_env\<lparr>le_lock := (le_lock idle_env)\<lparr>lk_held := True, everAcquired := True\<rparr>\<rparr>))))"
  using unreachable_leader_steps_down [of "[(Unreachable, 10000), (ReplyLost, 20000)]"
      "idle_env\<lparr>le_lock := (le_lock idle_env)\<lparr>lk_held := True, everAcquired := True\<rparr>\<rparr>" map_redis]
  by (simp add: idle_env_def new_lock_def default_lock_config_def)

end
