(* ===== verification/StableJson.thy ===== *)
theory StableJson
  imports Complex_Main Prelude "HOL-Library.Char_ord" "HOL-Library.List_Lexorder"
begin

text \<open>
  The canonical text of a request body (\<open>stableStringify\<close> in \<open>src/src/utils/idempotency.util.ts\<close>), whose
  hash decides whether two requests with the same idempotency key are the same request.

  Strings are lists of code units below 256.  The text of a number is \<open>Number.prototype.toString\<close>, a
  parameter \<open>nt\<close>; the locale \<open>number_text\<close> states what is used of it.  The theorem is that the canonical
  text determines the value up to the order of the members of its objects.
\<close>

subsection \<open>Values and their text\<close>

datatype js_value =
    VUndefined
  | VNull
  | VBool bool
  | VNum rat
  | VStr string
  | VArr "js_value list"
  | VObj "(string \<times> js_value) list"

definition hexDigit :: "nat \<Rightarrow> char" where
  "hexDigit n = (if n < 10 then char_of (48 + n) else char_of (87 + n))"

text \<open>\<open>JSON.stringify\<close> of a string.\<close>

definition escapeChar :: "char \<Rightarrow> string" where
  "escapeChar c =
     (if c = CHR 0x22 then [CHR 0x5C, CHR 0x22]
      else if c = CHR 0x5C then [CHR 0x5C, CHR 0x5C]
      else if c = CHR 0x08 then [CHR 0x5C, CHR ''b'']
      else if c = CHR 0x0C then [CHR 0x5C, CHR ''f'']
      else if c = CHR 0x0A then [CHR 0x5C, CHR ''n'']
      else if c = CHR 0x0D then [CHR 0x5C, CHR ''r'']
      else if c = CHR 0x09 then [CHR 0x5C, CHR ''t'']
      else if of_char c < (32 :: nat) then
        [CHR 0x5C, CHR ''u'', CHR ''0'', CHR ''0'', hexDigit (of_char c div 16), hexDigit (of_char c mod 16)]
      else [c])"

definition quoted :: "string \<Rightarrow> string" where
  "quoted s = CHR 0x22 # concat (map escapeChar s) @ [CHR 0x22]"

fun join_comma :: "string list \<Rightarrow> string" where
  "join_comma [] = []"
| "join_comma [x] = x"
| "join_comma (x # y # zs) = x @ CHR '','' # join_comma (y # zs)"

definition member_text :: "string \<Rightarrow> string \<Rightarrow> string" where
  "member_text k t = quoted k @ CHR '':'' # t"

fun stableStringify :: "(rat \<Rightarrow> string) \<Rightarrow> js_value \<Rightarrow> string" where
  "stableStringify nt VUndefined = ''undefined''"
| "stableStringify nt VNull = ''null''"
| "stableStringify nt (VBool b) = (if b then ''true'' else ''false'')"
| "stableStringify nt (VNum q) = nt q"
| "stableStringify nt (VStr s) = quoted s"
| "stableStringify nt (VArr vs) = CHR ''['' # join_comma (map (stableStringify nt) vs) @ '']''"
| "stableStringify nt (VObj kvs) = CHR ''{'' # join_comma (map snd (sort_key fst
     (map (\<lambda>kv. (fst kv, member_text (fst kv) (stableStringify nt (snd kv)))) kvs))) @ ''}''"

subsection \<open>Canonical values\<close>

fun canon :: "js_value \<Rightarrow> js_value" where
  "canon (VArr vs) = VArr (map canon vs)"
| "canon (VObj kvs) = VObj (sort_key fst (map (\<lambda>kv. (fst kv, canon (snd kv))) kvs))"
| "canon v = v"

text \<open>The text without sorting.\<close>

fun plain :: "(rat \<Rightarrow> string) \<Rightarrow> js_value \<Rightarrow> string" where
  "plain nt (VArr vs) = CHR ''['' # join_comma (map (plain nt) vs) @ '']''"
| "plain nt (VObj kvs) = CHR ''{'' # join_comma (map (\<lambda>kv. member_text (fst kv) (plain nt (snd kv))) kvs) @ ''}''"
| "plain nt v = stableStringify nt v"

lemma sort_key_map_fst:
  "sort_key fst (map (\<lambda>kv. (fst kv, f kv)) xs) = map (\<lambda>kv. (fst kv, f kv)) (sort_key (fst :: 'k :: linorder \<times> 'v \<Rightarrow> 'k) xs)"
proof (induction xs)
  case (Cons x xs)
  have "insort_key fst (fst x, f x) (map (\<lambda>kv. (fst kv, f kv)) ys) = map (\<lambda>kv. (fst kv, f kv)) (insort_key fst x ys)" for ys
    by (induction ys) auto
  with Cons show ?case by simp
qed simp

lemma stable_plain_canon: "stableStringify nt v = plain nt (canon v)"
proof (induction v)
  case (VArr vs)
  then show ?case by (simp cong: map_cong)
next
  case (VObj kvs)
  have "stableStringify nt (snd kv) = plain nt (canon (snd kv))" if "kv \<in> set kvs" for kv
    using VObj that by (cases kv) (auto simp: snds.simps)
  then have "map (\<lambda>kv. (fst kv, member_text (fst kv) (stableStringify nt (snd kv)))) kvs =
      map (\<lambda>kv. (fst kv, member_text (fst kv) (plain nt (snd kv)))) (map (\<lambda>kv. (fst kv, canon (snd kv))) kvs)"
    by simp
  then show ?case by (simp only: stableStringify.simps canon.simps plain.simps sort_key_map_fst map_map comp_def snd_conv fst_conv)
qed simp_all

subsection \<open>Unique readability\<close>

lemma hexDigit_inj: "m < 16 \<Longrightarrow> n < 16 \<Longrightarrow> hexDigit m = hexDigit n \<Longrightarrow> m = n"
proof -
  assume mn: "m < 16" "n < 16" "hexDigit m = hexDigit n"
  then have "(of_char (hexDigit m) :: nat) = of_char (hexDigit n)" by simp
  with mn(1,2) show "m = n" by (auto simp: hexDigit_def split: if_splits)
qed

lemma escapeChar_not_quote: "escapeChar c \<noteq> [] \<and> hd (escapeChar c) \<noteq> CHR 0x22"
  by (simp add: escapeChar_def)

lemma escapeChar_read:
  assumes "escapeChar c @ x = escapeChar d @ y"
  shows "c = d \<and> x = y"
proof -
  have eq: "c = d" if "of_char c < (32 :: nat)" "of_char d < (32 :: nat)"
      "hexDigit (of_char c div 16) = hexDigit (of_char d div 16)" "hexDigit (of_char c mod 16) = hexDigit (of_char d mod 16)"
  proof -
    have "(of_char c :: nat) div 16 = of_char d div 16" "(of_char c :: nat) mod 16 = of_char d mod 16"
      using that hexDigit_inj by auto
    then have "(of_char c :: nat) = of_char d" by (metis div_mult_mod_eq)
    then show ?thesis by simp
  qed
  show ?thesis using assms unfolding escapeChar_def by (auto split: if_splits intro: eq)
qed

lemma quoted_read:
  assumes "quoted s @ x = quoted t @ y"
  shows "s = t \<and> x = y"
proof -
  have body: "s = t \<and> x = y"
    if "concat (map escapeChar s) @ CHR 0x22 # x = concat (map escapeChar t) @ CHR 0x22 # y" for s t
    using that
  proof (induction s arbitrary: t)
    case Nil
    show ?case
    proof (cases t)
      case Nil
      with Nil.prems show ?thesis by simp
    next
      case (Cons d t')
      with Nil.prems escapeChar_not_quote [of d] show ?thesis by (cases "escapeChar d") auto
    qed
  next
    case (Cons c s)
    show ?case
    proof (cases t)
      case Nil
      with Cons.prems escapeChar_not_quote [of c] show ?thesis by (cases "escapeChar c") auto
    next
      case (Cons d t')
      let ?rest = "\<lambda>s x. concat (map escapeChar s) @ CHR 0x22 # x"
      have "escapeChar c @ ?rest s x = escapeChar d @ ?rest t' y" using Cons.prems Cons by simp
      from escapeChar_read [OF this] have "c = d" and rest: "?rest s x = ?rest t' y" by (rule conjunct1, rule conjunct2)
      from Cons.IH [OF rest] \<open>c = d\<close> Cons show ?thesis by blast
    qed
  qed
  show ?thesis by (rule body) (use assms in \<open>simp add: quoted_def\<close>)
qed

text \<open>A text that is followed by nothing, a comma or a closing bracket.\<close>

definition closers :: "char set" where
  "closers = {CHR '','', CHR '']'', CHR ''}''}"

definition ended :: "string \<Rightarrow> bool" where
  "ended r \<longleftrightarrow> r = [] \<or> hd r \<in> closers"

definition readable :: "('a \<Rightarrow> string) \<Rightarrow> 'a \<Rightarrow> bool" where
  "readable f x \<longleftrightarrow> (\<forall>y r r'. ended r \<longrightarrow> ended r' \<longrightarrow> f x @ r = f y @ r' \<longrightarrow> x = y \<and> r = r')"

lemma readableI: "(\<And>y r r'. ended r \<Longrightarrow> ended r' \<Longrightarrow> f x @ r = f y @ r' \<Longrightarrow> x = y \<and> r = r') \<Longrightarrow> readable f x"
  by (simp add: readable_def)

lemma readableD: "readable f x \<Longrightarrow> f x @ r = f y @ r' \<Longrightarrow> ended r \<Longrightarrow> ended r' \<Longrightarrow> x = y \<and> r = r'"
  by (simp add: readable_def)

lemma join_comma_Cons: "join_comma (x # xs) = x @ (if xs = [] then [] else CHR '','' # join_comma xs)"
  by (cases xs) simp_all

lemma join_read:
  assumes "\<forall>x\<in>set xs. readable f x" and start: "\<And>y. f y \<noteq> [] \<and> hd (f y) \<notin> closers" and c: "c \<in> {CHR '']'', CHR ''}''}"
    and "join_comma (map f xs) @ c # r = join_comma (map f ys) @ c # r'"
  shows "xs = ys \<and> r = r'"
  using assms(1,4)
proof (induction xs arbitrary: ys)
  case Nil
  show ?case
  proof (cases ys)
    case Nil
    with Nil.prems show ?thesis by simp
  next
    case (Cons y ys')
    with Nil.prems start [of y] c show ?thesis by (cases "f y") (auto simp: join_comma_Cons closers_def)
  qed
next
  case (Cons x xs)
  show ?case
  proof (cases ys)
    case Nil
    with Cons.prems start [of x] c show ?thesis by (cases "f x") (auto simp: join_comma_Cons closers_def)
  next
    case ys: (Cons y ys')
    let ?rest = "\<lambda>zs w. (if zs = [] then [] else CHR '','' # join_comma (map f zs)) @ c # w"
    have "f x @ ?rest xs r = f y @ ?rest ys' r'" using Cons.prems(2) ys by (simp add: join_comma_Cons)
    moreover have "ended (?rest zs w)" for zs w using c by (auto simp: ended_def closers_def)
    ultimately have "x = y" "?rest xs r = ?rest ys' r'"
      using Cons.prems(1) readableD [of f x "?rest xs r" y "?rest ys' r'"] by auto
    moreover from this(2) c have "join_comma (map f xs) @ c # r = join_comma (map f ys') @ c # r'"
      by (auto split: if_splits)
    ultimately show ?thesis using Cons.IH [of ys'] Cons.prems(1) ys by simp
  qed
qed

text \<open>What is used of the text of a number.\<close>

locale number_text =
  fixes nt :: "rat \<Rightarrow> string"
  assumes nt_inj: "nt a = nt b \<Longrightarrow> a = b"
    and nt_nonempty: "nt a \<noteq> []"
    and nt_chars: "set (nt a) \<subseteq> set ''0123456789+-.e''"
begin

lemma nt_read:
  assumes "nt a @ r = nt b @ r'" and "ended r" and "ended r'"
  shows "a = b \<and> r = r'"
proof -
  have closed: "hd r \<notin> set (nt a)" if "r \<noteq> []" "ended r" for r a
    using that nt_chars [of a] by (auto simp: ended_def closers_def)
  have "takeWhile (\<lambda>c. c \<in> set ''0123456789+-.e'') (nt a @ r) = nt a" if "ended r" for a r
  proof -
    have "takeWhile (\<lambda>c. c \<in> set ''0123456789+-.e'') r = []"
      using that by (cases r) (auto simp: ended_def closers_def)
    moreover have "\<And>c. c \<in> set (nt a) \<Longrightarrow> c \<in> set ''0123456789+-.e''" using nt_chars [of a] by blast
    ultimately show ?thesis by (subst takeWhile_append2) auto
  qed
  with assms have "nt a = nt b" by metis
  with assms nt_inj show ?thesis by auto
qed

lemma nt_hd: "hd (nt q) \<in> set ''0123456789+-.e''"
  using nt_chars [of q] hd_in_set [OF nt_nonempty [of q]] by blast

lemma plain_start: "plain nt v \<noteq> [] \<and> hd (plain nt v) \<notin> closers"
proof -
  have "hd (nt q) \<notin> closers" for q using nt_hd [of q] by (auto simp: closers_def)
  then show ?thesis by (cases v) (auto simp: closers_def quoted_def nt_nonempty)
qed

text \<open>The first character tells the constructor.\<close>

definition sort_of_char :: "char \<Rightarrow> nat" where
  "sort_of_char c = (if c = CHR ''u'' then 0 else if c = CHR ''n'' then 1 else if c \<in> {CHR ''t'', CHR ''f''} then 2
     else if c = CHR 0x22 then 4 else if c = CHR ''['' then 5 else if c = CHR ''{'' then 6 else 3)"

fun sort_of :: "js_value \<Rightarrow> nat" where
  "sort_of VUndefined = 0" | "sort_of VNull = 1" | "sort_of (VBool _) = 2" | "sort_of (VNum _) = 3"
| "sort_of (VStr _) = 4" | "sort_of (VArr _) = 5" | "sort_of (VObj _) = 6"

lemma sort_of_plain: "sort_of_char (hd (plain nt v)) = sort_of v"
proof (cases v)
  case (VNum q)
  have "sort_of_char c = 3" if "c \<in> set ''0123456789+-.e''" for c using that by (auto simp: sort_of_char_def)
  with VNum nt_hd show ?thesis by simp
qed (auto simp: sort_of_char_def quoted_def)

lemma plain_readable: "readable (plain nt) v"
proof (induction v)
  case (VArr vs)
  show ?case
  proof (rule readableI)
    fix w r r' assume eq: "plain nt (VArr vs) @ r = plain nt w @ r'"
    with sort_of_plain [of w] plain_start [of w] obtain ws where w: "w = VArr ws"
      by (cases w; cases "plain nt w") (auto simp: sort_of_char_def)
    with eq VArr have "join_comma (map (plain nt) vs) @ CHR '']'' # r = join_comma (map (plain nt) ws) @ CHR '']'' # r'"
      by simp
    with join_read [of vs "plain nt" "CHR '']''" r ws r'] plain_start VArr w show "VArr vs = w \<and> r = r'" by simp
  qed
next
  case (VObj kvs)
  let ?f = "\<lambda>kv. member_text (fst kv) (plain nt (snd kv))"
  have "readable ?f kv" if "kv \<in> set kvs" for kv
  proof (rule readableI)
    fix y r r' assume e: "ended r" "ended r'" "?f kv @ r = ?f y @ r'"
    then have "quoted (fst kv) @ CHR '':'' # plain nt (snd kv) @ r = quoted (fst y) @ CHR '':'' # plain nt (snd y) @ r'"
      by (simp add: member_text_def)
    from quoted_read [OF this] have "fst kv = fst y" "plain nt (snd kv) @ r = plain nt (snd y) @ r'" by auto
    moreover have "readable (plain nt) (snd kv)" using VObj that by (cases kv) (auto simp: snds.simps)
    ultimately show "kv = y \<and> r = r'" using readableD [of "plain nt" "snd kv" r "snd y" r'] e by (simp add: prod_eq_iff)
  qed
  then have all: "\<forall>kv\<in>set kvs. readable ?f kv" by blast
  have start: "?f y \<noteq> [] \<and> hd (?f y) \<notin> closers" for y by (simp add: member_text_def quoted_def closers_def)
  show ?case
  proof (rule readableI)
    fix w r r' assume eq: "plain nt (VObj kvs) @ r = plain nt w @ r'"
    with sort_of_plain [of w] plain_start [of w] obtain ws where w: "w = VObj ws"
      by (cases w; cases "plain nt w") (auto simp: sort_of_char_def)
    with eq have "join_comma (map ?f kvs) @ CHR ''}'' # r = join_comma (map ?f ws) @ CHR ''}'' # r'" by simp
    with join_read [of kvs ?f "CHR ''}''" r ws r'] all start w show "VObj kvs = w \<and> r = r'" by simp
  qed
next
  case (VNum q)
  show ?case
  proof (rule readableI)
    fix w r r' assume eq: "plain nt (VNum q) @ r = plain nt w @ r'" "ended r" "ended r'"
    then have "hd (plain nt w) = hd (nt q)" using plain_start [of w] nt_nonempty [of q] by (metis hd_append2 plain.simps(6) stableStringify.simps(4))
    then have "sort_of w = 3" using sort_of_plain [of w] sort_of_plain [of "VNum q"] by simp
    then obtain q' where "w = VNum q'" by (cases w) auto
    with eq nt_read [of q r q' r'] show "VNum q = w \<and> r = r'" by simp
  qed
next
  case (VStr t)
  show ?case
  proof (rule readableI)
    fix w r r' assume eq: "plain nt (VStr t) @ r = plain nt w @ r'"
    with sort_of_plain [of w] plain_start [of w] obtain t' where w: "w = VStr t'"
      by (cases w; cases "plain nt w") (auto simp: sort_of_char_def quoted_def)
    with eq quoted_read [of t r t' r'] show "VStr t = w \<and> r = r'" by simp
  qed
next
  case (VBool b)
  show ?case
  proof (rule readableI)
    fix w r r' assume eq: "plain nt (VBool b) @ r = plain nt w @ r'"
    with sort_of_plain [of w] plain_start [of w] obtain b' where w: "w = VBool b'"
      by (cases w; cases "plain nt w") (auto simp: sort_of_char_def split: if_splits)
    with eq show "VBool b = w \<and> r = r'" by (auto split: if_splits)
  qed
next
  case VUndefined
  show ?case
  proof (rule readableI)
    fix w r r' assume eq: "plain nt VUndefined @ r = plain nt w @ r'"
    with sort_of_plain [of w] plain_start [of w] have "w = VUndefined"
      by (cases w; cases "plain nt w") (auto simp: sort_of_char_def split: if_splits)
    with eq show "VUndefined = w \<and> r = r'" by simp
  qed
next
  case VNull
  show ?case
  proof (rule readableI)
    fix w r r' assume eq: "plain nt VNull @ r = plain nt w @ r'"
    with sort_of_plain [of w] plain_start [of w] have "w = VNull"
      by (cases w; cases "plain nt w") (auto simp: sort_of_char_def split: if_splits)
    with eq show "VNull = w \<and> r = r'" by simp
  qed
qed

lemma stable_iff: "stableStringify nt v = stableStringify nt w \<longleftrightarrow> canon v = canon w"
  using readableD [OF plain_readable, of "canon v" "[]" "canon w" "[]"] by (auto simp: stable_plain_canon ended_def)

end

subsection \<open>A text of numbers that satisfies the laws\<close>

definition digits :: "char set" where
  "digits = set ''0123456789''"

definition read_nat :: "string \<Rightarrow> nat" where
  "read_nat s = foldl (\<lambda>a c. 10 * a + (of_char c - 48)) 0 s"

lemma show_nat_digits: "set (show_nat n) \<subseteq> digits \<and> show_nat n \<noteq> []"
proof (induction n rule: show_nat.induct)
  case (1 n)
  have digit: "char_of (48 + m) \<in> digits" if "m < 10" for m :: nat
  proof -
    have "m \<in> {0, 1, 2, 3, 4, 5, 6, 7, 8, 9}" using that by auto
    then show ?thesis by (elim insertE emptyE) (simp_all add: digits_def char_of_def bit_0)
  qed
  show ?case
  proof (cases "n < 10")
    case True
    with digit [OF True] show ?thesis by (subst (1 2) show_nat.simps) simp
  next
    case False
    with 1 digit [of "n mod 10"] show ?thesis by (subst (1 2) show_nat.simps) simp
  qed
qed

lemma read_show_nat: "read_nat (show_nat n) = n"
proof (induction n rule: show_nat.induct)
  case (1 n)
  then show ?case by (subst show_nat.simps) (auto simp: read_nat_def)
qed

definition fraction_text :: "rat \<Rightarrow> string" where
  "fraction_text q = show_int (fst (quotient_of q)) @ CHR ''e'' # show_nat (nat (snd (quotient_of q)))"

lemma show_int_chars: "set (show_int i) \<subseteq> insert (CHR ''-'') digits"
  using show_nat_digits by (auto simp: show_int_def)

lemma show_int_inj: "show_int i = show_int j \<Longrightarrow> i = j"
proof -
  assume eq: "show_int i = show_int j"
  have "CHR ''-'' \<notin> set (show_nat n)" for n using show_nat_digits [of n] by (auto simp: digits_def)
  then have "(hd (show_int k) = CHR ''-'') = (k < 0)" for k
    using show_nat_digits [of "nat k"] by (simp add: show_int_def) (metis hd_in_set)
  with eq have "(i < 0) = (j < 0)" by metis
  moreover have "read_nat (show_nat (nat k)) = nat k" for k by (rule read_show_nat)
  ultimately show "i = j" using eq by (auto simp: show_int_def dest: arg_cong [of _ _ read_nat] simp: read_show_nat split: if_splits)
qed

lemma fraction_text_inj: "fraction_text a = fraction_text b \<Longrightarrow> a = b"
proof -
  assume eq: "fraction_text a = fraction_text b"
  have "CHR ''e'' \<notin> set (show_int i)" for i using show_int_chars [of i] by (auto simp: digits_def)
  then have split: "takeWhile (\<lambda>c. c \<noteq> CHR ''e'') (show_int i @ CHR ''e'' # r) = show_int i"
      "dropWhile (\<lambda>c. c \<noteq> CHR ''e'') (show_int i @ CHR ''e'' # r) = CHR ''e'' # r" for i r
    by (subst takeWhile_append2 dropWhile_append2; force)+
  from eq have "show_int (fst (quotient_of a)) = show_int (fst (quotient_of b))"
      "show_nat (nat (snd (quotient_of a))) = show_nat (nat (snd (quotient_of b)))"
    unfolding fraction_text_def by (metis split(1), metis split(2) list.inject)
  then have "fst (quotient_of a) = fst (quotient_of b)" "snd (quotient_of a) = snd (quotient_of b)"
    using show_int_inj quotient_of_denom_pos' [of a] quotient_of_denom_pos' [of b] read_show_nat
    by (blast, metis eq_nat_nat_iff less_le)
  then show "a = b" by (intro quotient_of_inject) (simp add: prod_eq_iff)
qed

interpretation ft: number_text fraction_text
proof (unfold_locales, goal_cases)
  case (1 a b)
  then show ?case by (rule fraction_text_inj)
next
  case (2 a)
  then show ?case by (simp add: fraction_text_def)
next
  case (3 a)
  have "insert (CHR ''e'') (insert (CHR ''-'') digits) \<subseteq> set ''0123456789+-.e''" by (simp add: digits_def)
  moreover have "set (fraction_text a) \<subseteq> insert (CHR ''e'') (insert (CHR ''-'') digits)"
    using show_int_chars [of "fst (quotient_of a)"] show_nat_digits [of "nat (snd (quotient_of a))"]
    by (simp add: fraction_text_def) blast
  ultimately show ?case by (rule subset_trans [rotated])
qed

subsection \<open>Property\<close>

text \<open>C25. The text that is hashed identifies the request body: two bodies have the same canonical text exactly
  when they are equal up to the order of the members of their objects, at any depth and for all strings,
  escapes included.\<close>

theorem stableStringify_canonical:
  assumes "number_text nt"
  shows "stableStringify nt v = stableStringify nt w \<longleftrightarrow> canon v = canon w"
  by (rule number_text.stable_iff [OF assms])

theorem stableStringify_canonical_witness:
  "stableStringify fraction_text (VObj [(''side'', VStr ''UP''), (''amount'', VNum 5)]) =
     stableStringify fraction_text (VObj [(''amount'', VNum 5), (''side'', VStr ''UP'')]) \<and>
   stableStringify fraction_text (VObj [(''amount'', VNum 5)]) \<noteq> stableStringify fraction_text (VObj [(''amount'', VStr ''5'')])"
  unfolding stableStringify_canonical [OF ft.number_text_axioms] by code_simp

end
