(* ===== verification/Idempotency.thy ===== *)
theory Idempotency
  imports Bets StableJson DistributedLock
begin

text \<open>
  Idempotency keys (\<open>src/src/utils/idempotency.util.ts\<close>), the Redis lock in front of them
  (\<open>src/src/utils/distributed-idempotency-lock.ts\<close>) and the bet endpoint that uses both
  (\<open>src/src/routes/bet-execution.ts\<close>).

  A record is stored under the scope user, endpoint, key, in a process-local map or in a database table
  with a unique constraint on the scope; \<open>mem\<close> is \<open>usesInMemoryStore()\<close>.  A lock is a record with status
  102.  Between two awaits of a call other requests may run: a \<open>gap\<close> lists their steps, the time at which
  the call goes on, and whether the database answers.  When no gap is left, nothing interferes.
\<close>

subsection \<open>Records and stores\<close>

type_synonym idem_scope = "string \<times> string \<times> string"

record 'b idem_record =
  requestHash :: string
  responseStatus :: int
  responseBody :: "'b option"
  expiresAt :: int

record 'b idem_row =
  ik_id :: nat
  ik_scope :: idem_scope
  ik_rec :: "'b idem_record"

record 'b idem_store =
  memStore :: "(string \<times> 'b idem_record) list"
  dbRows :: "'b idem_row list"
  nextRow :: nat

definition getStoreKey :: "idem_scope \<Rightarrow> string" where
  "getStoreKey k = (case k of (userId, endpoint, idempotencyKey) \<Rightarrow> userId @ '':'' @ endpoint @ '':'' @ idempotencyKey)"

definition isValidIdempotencyKey :: "string \<Rightarrow> bool" where
  "isValidIdempotencyKey key \<longleftrightarrow> 8 \<le> length key \<and> length key \<le> 255 \<and>
     list_all (\<lambda>c. (CHR ''a'' \<le> c \<and> c \<le> CHR ''z'') \<or> (CHR ''A'' \<le> c \<and> c \<le> CHR ''Z'') \<or> (CHR ''0'' \<le> c \<and> c \<le> CHR ''9'') \<or>
       c = CHR ''_'' \<or> c = CHR ''-'') key"

text \<open>The library functions: the hash of \<open>crypto\<close> and the text of numbers.\<close>

record js_lib =
  sha256 :: "string \<Rightarrow> string"
  numText :: "rat \<Rightarrow> string"

definition hashRequestBody :: "js_lib \<Rightarrow> js_value \<Rightarrow> string" where
  "hashRequestBody L body = sha256 L (stableStringify (numText L) body)"

subsection \<open>The table with its unique constraint\<close>

definition db_findUnique :: "idem_scope \<Rightarrow> ('b idem_store, js_error, 'b idem_row option) comp" where
  "db_findUnique k = m_gets (\<lambda>st. List.find (\<lambda>r. ik_scope r = k) (dbRows st))"

definition db_delete :: "nat \<Rightarrow> ('b idem_store, js_error, unit) comp" where
  "db_delete i st =
     (if \<exists>r\<in>set (dbRows st). ik_id r = i then (Inr (), st\<lparr>dbRows := filter (\<lambda>r. ik_id r \<noteq> i) (dbRows st)\<rparr>)
      else (Inl (Prisma ''P2025'' None ''Record to delete does not exist.''), st))"

definition db_create :: "idem_scope \<Rightarrow> 'b idem_record \<Rightarrow> ('b idem_store, js_error, unit) comp" where
  "db_create k rec st =
     (if \<exists>r\<in>set (dbRows st). ik_scope r = k then (Inl (Prisma ''P2002'' None ''Unique constraint failed''), st)
      else (Inr (), st\<lparr>dbRows := dbRows st @ [\<lparr>ik_id = nextRow st, ik_scope = k, ik_rec = rec\<rparr>], nextRow := nextRow st + 1\<rparr>))"

definition db_upsert :: "idem_scope \<Rightarrow> 'b idem_record \<Rightarrow> ('b idem_store, js_error, unit) comp" where
  "db_upsert k rec st =
     (if \<exists>r\<in>set (dbRows st). ik_scope r = k
      then (Inr (), st\<lparr>dbRows := map (\<lambda>r. if ik_scope r = k then r\<lparr>ik_rec := rec\<rparr> else r) (dbRows st)\<rparr>)
      else db_create k rec st)"

definition db_deleteMany :: "('b idem_row \<Rightarrow> bool) \<Rightarrow> ('b idem_store, js_error, nat) comp" where
  "db_deleteMany P st = (Inr (length (filter P (dbRows st))), st\<lparr>dbRows := filter (\<lambda>r. \<not> P r) (dbRows st)\<rparr>)"

subsection \<open>Steps of other requests, and awaits\<close>

text \<open>\<open>DropExpired\<close>: a call found the record expired and deleted it; \<open>Insert\<close>: a call found none and took the
  lock; \<open>Save\<close>, \<open>Free\<close>, \<open>Purge\<close>: the result stored, the lock released, the clean-up job.\<close>

datatype 'b idem_step =
    DropExpired idem_scope int
  | Insert idem_scope "'b idem_record"
  | Save idem_scope "'b idem_record"
  | Free idem_scope
  | Purge int

definition mem_get :: "idem_scope \<Rightarrow> 'b idem_store \<Rightarrow> 'b idem_record option" where
  "mem_get k st = map_of (memStore st) (getStoreKey k)"

definition mem_set :: "idem_scope \<Rightarrow> 'b idem_record \<Rightarrow> 'b idem_store \<Rightarrow> 'b idem_store" where
  "mem_set k rec st = st\<lparr>memStore := AList.update (getStoreKey k) rec (memStore st)\<rparr>"

definition mem_delete :: "idem_scope \<Rightarrow> 'b idem_store \<Rightarrow> 'b idem_store" where
  "mem_delete k st = st\<lparr>memStore := filter (\<lambda>e. fst e \<noteq> getStoreKey k) (memStore st)\<rparr>"

definition mem_purge :: "int \<Rightarrow> 'b idem_store \<Rightarrow> 'b idem_store" where
  "mem_purge now st = st\<lparr>memStore := filter (\<lambda>e. \<not> expiresAt (snd e) < now) (memStore st)\<rparr>"

definition lookup :: "bool \<Rightarrow> idem_scope \<Rightarrow> 'b idem_store \<Rightarrow> 'b idem_record option" where
  "lookup mem k st =
     (if mem then mem_get k st else map_option ik_rec (List.find (\<lambda>r. ik_scope r = k) (dbRows st)))"

definition st_put :: "bool \<Rightarrow> idem_scope \<Rightarrow> 'b idem_record \<Rightarrow> 'b idem_store \<Rightarrow> 'b idem_store" where
  "st_put mem k rec st = (if mem then mem_set k rec st else snd (db_upsert k rec st))"

definition st_remove :: "bool \<Rightarrow> idem_scope \<Rightarrow> 'b idem_store \<Rightarrow> 'b idem_store" where
  "st_remove mem k st = (if mem then mem_delete k st else snd (db_deleteMany (\<lambda>r. ik_scope r = k) st))"

definition st_purge :: "bool \<Rightarrow> int \<Rightarrow> 'b idem_store \<Rightarrow> 'b idem_store" where
  "st_purge mem now st =
     (if mem then mem_purge now st else snd (db_deleteMany (\<lambda>r. expiresAt (ik_rec r) < now) st))"

fun idem_apply :: "bool \<Rightarrow> 'b idem_step \<Rightarrow> 'b idem_store \<Rightarrow> 'b idem_store" where
  "idem_apply mem (DropExpired k now) st =
     (case lookup mem k st of
        None \<Rightarrow> st
      | Some rec \<Rightarrow> if expiresAt rec < now then st_remove mem k st else st)"
| "idem_apply mem (Insert k rec) st = (if lookup mem k st \<noteq> None then st else st_put mem k rec st)"
| "idem_apply mem (Save k rec) st = st_put mem k rec st"
| "idem_apply mem (Free k) st =
     (case lookup mem k st of
        None \<Rightarrow> st
      | Some rec \<Rightarrow> if responseStatus rec = 102 then st_remove mem k st else st)"
| "idem_apply mem (Purge now) st = st_purge mem now st"

record 'b gap =
  g_steps :: "'b idem_step list"
  g_up :: bool
  g_now :: int

record 'b idem_world =
  iw_store :: "'b idem_store"
  iw_gaps :: "'b gap list"
  iw_clock :: int

definition pause :: "bool \<Rightarrow> ('b idem_world, js_error, bool) comp" where
  "pause mem w =
     (case iw_gaps w of
        [] \<Rightarrow> (Inr True, w)
      | g # gs \<Rightarrow> (Inr (g_up g), \<lparr>iw_store = foldl (\<lambda>st x. idem_apply mem x st) (iw_store w) (g_steps g),
                     iw_gaps = gs, iw_clock = g_now g\<rparr>))"

definition db_call :: "('b idem_store, js_error, 'a) comp \<Rightarrow> ('b idem_world, js_error, 'a) comp" where
  "db_call f = m_bind (pause False) (\<lambda>up.
     if up then m_zoom iw_store iw_store_update f else m_throw (JsError ''Can't reach database server''))"

subsection \<open>The calls\<close>

record 'b check_result =
  isIdempotent :: bool
  cachedResponse :: "(int \<times> 'b option) option"
  ic_error :: "string option"
  lockAcquired :: bool

definition fresh :: "'b check_result" where
  "fresh = \<lparr>isIdempotent = False, cachedResponse = None, ic_error = None, lockAcquired = False\<rparr>"

definition refused :: "string \<Rightarrow> 'b check_result" where
  "refused msg = fresh\<lparr>isIdempotent := True, ic_error := Some msg\<rparr>"

definition reused_error :: string where
  "reused_error = ''Idempotency key reused with different request body''"

definition in_progress_error :: string where
  "in_progress_error = ''A request with this idempotency key is already in progress.''"

definition IDEMPOTENCY_STORE_UNAVAILABLE :: string where
  "IDEMPOTENCY_STORE_UNAVAILABLE = ''IDEMPOTENCY_STORE_UNAVAILABLE''"

definition IdempotencyStoreUnavailableError :: js_error where
  "IdempotencyStoreUnavailableError = NodeError IDEMPOTENCY_STORE_UNAVAILABLE ''Idempotency store unavailable''"

definition toCachedResponse :: "'b idem_record \<Rightarrow> int \<times> 'b option" where
  "toCachedResponse rec = (responseStatus rec, responseBody rec)"

definition answer :: "string \<Rightarrow> 'b idem_record \<Rightarrow> 'b check_result" where
  "answer h rec =
     (if requestHash rec \<noteq> h then refused reused_error
      else fresh\<lparr>isIdempotent := True, cachedResponse := Some (toCachedResponse rec)\<rparr>)"

definition getMemoryRecord :: "idem_scope \<Rightarrow> ('b idem_world, js_error, 'b idem_record option) comp" where
  "getMemoryRecord k w =
     (case mem_get k (iw_store w) of
        None \<Rightarrow> (Inr None, w)
      | Some rec \<Rightarrow>
          if expiresAt rec < iw_clock w then (Inr None, w\<lparr>iw_store := mem_delete k (iw_store w)\<rparr>) else (Inr (Some rec), w))"

definition checkIdempotency :: "js_lib \<Rightarrow> bool \<Rightarrow> idem_scope \<Rightarrow> js_value \<Rightarrow> ('b idem_world, js_error, 'b check_result) comp" where
  "checkIdempotency L mem k body =
     (let h = hashRequestBody L body in
      if mem then
        m_bind (getMemoryRecord k) (\<lambda>existing. m_return (case existing of None \<Rightarrow> fresh | Some rec \<Rightarrow> answer h rec))
      else
        m_catch
          (m_bind (db_call (db_findUnique k)) (\<lambda>existing.
             case existing of
               None \<Rightarrow> m_return fresh
             | Some row \<Rightarrow> m_bind (m_gets iw_clock) (\<lambda>now.
                 if expiresAt (ik_rec row) < now then m_then (db_call (db_delete (ik_id row))) (m_return fresh)
                 else m_return (answer h (ik_rec row)))))
          (\<lambda>error. m_return (refused IDEMPOTENCY_STORE_UNAVAILABLE)))"

record idem_config =
  ttlMinutes :: "int option"
  ttlHours :: "int option"

definition ttl_minutes :: "idem_config \<Rightarrow> int" where
  "ttl_minutes c = (case ttlMinutes c of Some m \<Rightarrow> m | None \<Rightarrow> (case ttlHours c of Some h \<Rightarrow> h * 60 | None \<Rightarrow> 10))"

definition storeIdempotencyResult ::
  "js_lib \<Rightarrow> bool \<Rightarrow> idem_scope \<Rightarrow> js_value \<Rightarrow> int \<Rightarrow> 'b \<Rightarrow> idem_config \<Rightarrow> ('b idem_world, js_error, unit) comp" where
  "storeIdempotencyResult L mem k body status resp cfg =
     m_bind (m_gets iw_clock) (\<lambda>now.
       let rec = \<lparr>requestHash = hashRequestBody L body, responseStatus = status, responseBody = Some resp,
                   expiresAt = now + ttl_minutes cfg * 60 * 1000\<rparr> in
       if mem then m_modify (iw_store_update (mem_set k rec))
       else m_catch (db_call (db_upsert k rec)) (\<lambda>error. m_throw IdempotencyStoreUnavailableError))"

definition cleanupExpiredIdempotencyKeys :: "bool \<Rightarrow> ('b idem_world, js_error, nat) comp" where
  "cleanupExpiredIdempotencyKeys mem =
     m_bind (m_gets iw_clock) (\<lambda>now.
       if mem then
         m_bind (m_gets (\<lambda>w. length (filter (\<lambda>e. expiresAt (snd e) < now) (memStore (iw_store w))))) (\<lambda>deleted.
           m_then (m_modify (iw_store_update (mem_purge now))) (m_return deleted))
       else m_catch (db_call (db_deleteMany (\<lambda>r. expiresAt (ik_rec r) < now))) (\<lambda>error. m_return 0))"

text \<open>The polls of a call that found the lock taken; \<open>n\<close> attempts are left.\<close>

fun poll_mem :: "idem_scope \<Rightarrow> string \<Rightarrow> nat \<Rightarrow> ('b idem_world, js_error, 'b check_result) comp" where
  "poll_mem k h 0 = m_return (refused in_progress_error)"
| "poll_mem k h (Suc n) = m_then (pause True) (m_bind (getMemoryRecord k) (\<lambda>current.
     case current of
       Some rec \<Rightarrow> if responseStatus rec \<noteq> 102 then m_return (answer h rec) else poll_mem k h n
     | None \<Rightarrow> poll_mem k h n))"

fun poll_db :: "idem_scope \<Rightarrow> string \<Rightarrow> nat \<Rightarrow> ('b idem_world, js_error, 'b check_result) comp" where
  "poll_db k h 0 = m_return (refused in_progress_error)"
| "poll_db k h (Suc n) = m_bind (db_call (db_findUnique k)) (\<lambda>polled.
     case polled of
       Some row \<Rightarrow> if responseStatus (ik_rec row) \<noteq> 102 then m_return (answer h (ik_rec row)) else poll_db k h n
     | None \<Rightarrow> poll_db k h n)"

definition lock_record :: "string \<Rightarrow> int \<Rightarrow> 'b idem_record" where
  "lock_record h expires = \<lparr>requestHash = h, responseStatus = 102, responseBody = None, expiresAt = expires\<rparr>"

definition taken :: "'b check_result" where
  "taken = fresh\<lparr>lockAcquired := True\<rparr>"

definition acquire_mem :: "idem_scope \<Rightarrow> string \<Rightarrow> int \<Rightarrow> ('b idem_world, js_error, 'b check_result) comp" where
  "acquire_mem k h expires =
     m_bind (getMemoryRecord k) (\<lambda>existing.
       case existing of
         Some rec \<Rightarrow> if responseStatus rec = 102 then poll_mem k h 20 else m_return (answer h rec)
       | None \<Rightarrow> m_then (m_modify (iw_store_update (mem_set k (lock_record h expires)))) (m_return taken))"

text \<open>The insertion: \<open>None\<close> means that another request inserted first.\<close>

definition insert_lock :: "idem_scope \<Rightarrow> string \<Rightarrow> int \<Rightarrow> ('b idem_world, js_error, 'b check_result option) comp" where
  "insert_lock k h expires =
     m_catch (m_then (db_call (db_create k (lock_record h expires))) (m_return (Some taken)))
       (\<lambda>error. case error of Prisma c meta m \<Rightarrow> if c = ''P2002'' then m_return None else m_throw error | _ \<Rightarrow> m_throw error)"

definition acquire_pass :: "idem_scope \<Rightarrow> string \<Rightarrow> int \<Rightarrow> ('b idem_world, js_error, 'b check_result option) comp" where
  "acquire_pass k h expires =
     m_catch
       (m_bind (db_call (db_findUnique k)) (\<lambda>existing.
          case existing of
            None \<Rightarrow> insert_lock k h expires
          | Some row \<Rightarrow> m_bind (m_gets iw_clock) (\<lambda>now.
              if expiresAt (ik_rec row) < now then m_then (db_call (db_delete (ik_id row))) (insert_lock k h expires)
              else if responseStatus (ik_rec row) = 102 then m_bind (poll_db k h 20) (\<lambda>r. m_return (Some r))
              else m_return (Some (answer h (ik_rec row))))))
       (\<lambda>error. m_return (Some (refused IDEMPOTENCY_STORE_UNAVAILABLE)))"

text \<open>The recursion after a lost race, \<open>n\<close> times at most.\<close>

fun acquire_db :: "idem_scope \<Rightarrow> string \<Rightarrow> int \<Rightarrow> nat \<Rightarrow> ('b idem_world, js_error, 'b check_result) comp" where
  "acquire_db k h ttl 0 = m_throw (JsError ''out of fuel'')"
| "acquire_db k h ttl (Suc n) =
     m_bind (m_gets (\<lambda>w. iw_clock w + ttl * 60 * 60 * 1000)) (\<lambda>expires.
     m_bind (acquire_pass k h expires) (\<lambda>r. case r of Some res \<Rightarrow> m_return res | None \<Rightarrow> acquire_db k h ttl n))"

definition acquireIdempotencyLock ::
  "js_lib \<Rightarrow> bool \<Rightarrow> idem_scope \<Rightarrow> js_value \<Rightarrow> int \<Rightarrow> ('b idem_world, js_error, 'b check_result) comp" where
  "acquireIdempotencyLock L mem k body ttl =
     (let h = hashRequestBody L body in
      if mem then m_bind (m_gets (\<lambda>w. iw_clock w + ttl * 60 * 60 * 1000)) (acquire_mem k h)
      else m_bind (m_gets (\<lambda>w. Suc (length (iw_gaps w)))) (acquire_db k h ttl))"

definition releaseIdempotencyLock :: "bool \<Rightarrow> idem_scope \<Rightarrow> ('b idem_world, js_error, unit) comp" where
  "releaseIdempotencyLock mem k =
     (if mem then m_modify (iw_store_update (idem_apply True (Free k)))
      else m_catch (m_then (db_call (db_deleteMany (\<lambda>r. ik_scope r = k \<and> responseStatus (ik_rec r) = 102))) (m_return ()))
        (\<lambda>error. m_return ()))"

subsection \<open>Scopes\<close>

text \<open>User ids and idempotency keys contain no colon (keys by \<open>isValidIdempotencyKey\<close>), so the
  concatenation is unambiguous.\<close>

definition scoped :: "idem_scope \<Rightarrow> bool" where
  "scoped k \<longleftrightarrow> (case k of (u, e, i) \<Rightarrow> CHR '':'' \<notin> set u \<and> CHR '':'' \<notin> set i)"

lemma split_first: "a @ c # x = b @ c # y \<Longrightarrow> c \<notin> set a \<Longrightarrow> c \<notin> set b \<Longrightarrow> a = b \<and> x = y"
proof (induction a arbitrary: b)
  case Nil
  then show ?case by (cases b) auto
next
  case (Cons z a)
  then show ?case by (cases b) auto
qed

lemma getStoreKey_inj: "scoped k \<Longrightarrow> scoped k' \<Longrightarrow> getStoreKey k = getStoreKey k' \<Longrightarrow> k = k'"
proof -
  assume k: "scoped k" "scoped k'" and eq: "getStoreKey k = getStoreKey k'"
  obtain u e i where k1: "k = (u, e, i)" by (cases k)
  obtain u' e' i' where k2: "k' = (u', e', i')" by (cases k')
  from eq have "u @ CHR '':'' # e @ CHR '':'' # i = u' @ CHR '':'' # e' @ CHR '':'' # i'" by (simp add: k1 k2 getStoreKey_def)
  with k split_first [of u "CHR '':''" "e @ CHR '':'' # i" u' "e' @ CHR '':'' # i'"] have "u = u'"
    and rest: "e @ CHR '':'' # i = e' @ CHR '':'' # i'" by (auto simp: k1 k2 scoped_def)
  from arg_cong [OF rest, of rev] have "rev i @ CHR '':'' # rev e = rev i' @ CHR '':'' # rev e'" by simp
  with k split_first [of "rev i" "CHR '':''" "rev e" "rev i'" "rev e'"] have "i = i'" "e = e'"
    by (auto simp: k1 k2 scoped_def)
  with \<open>u = u'\<close> show ?thesis by (simp add: k1 k2)
qed

lemma valid_key_no_colon: "isValidIdempotencyKey i \<Longrightarrow> CHR '':'' \<notin> set i"
  by (auto simp: isValidIdempotencyKey_def list_all_iff less_eq_char_def)

subsection \<open>The contract of a store\<close>

locale keyed_store =
  fixes look :: "idem_scope \<Rightarrow> 's \<Rightarrow> 'b idem_record option"
    and put :: "idem_scope \<Rightarrow> 'b idem_record \<Rightarrow> 's \<Rightarrow> 's"
    and remove :: "idem_scope \<Rightarrow> 's \<Rightarrow> 's"
    and purge :: "int \<Rightarrow> 's \<Rightarrow> 's"
    and inv :: "'s \<Rightarrow> bool"
  assumes look_put: "inv st \<Longrightarrow> scoped k \<Longrightarrow> scoped k' \<Longrightarrow> look k (put k' rec st) = (if k = k' then Some rec else look k st)"
    and look_remove: "inv st \<Longrightarrow> scoped k \<Longrightarrow> scoped k' \<Longrightarrow> look k (remove k' st) = (if k = k' then None else look k st)"
    and look_purge: "inv st \<Longrightarrow> look k (purge t st) =
      (case look k st of None \<Rightarrow> None | Some rec \<Rightarrow> if expiresAt rec < t then None else Some rec)"
    and inv_put: "inv st \<Longrightarrow> inv (put k rec st)"
    and inv_remove: "inv st \<Longrightarrow> inv (remove k st)"
    and inv_purge: "inv st \<Longrightarrow> inv (purge t st)"

definition store_inv :: "bool \<Rightarrow> 'b idem_store \<Rightarrow> bool" where
  "store_inv mem st \<longleftrightarrow>
     (if mem then distinct (map fst (memStore st))
      else distinct (map ik_scope (dbRows st)) \<and> distinct (map ik_id (dbRows st)) \<and> (\<forall>r\<in>set (dbRows st). ik_id r < nextRow st))"

lemma map_of_filter_key: "map_of (filter (\<lambda>e. fst e \<noteq> a) xs) b = (if a = b then None else map_of xs b)"
  by (induction xs) auto

lemma map_of_filter_distinct:
  "distinct (map fst xs) \<Longrightarrow> map_of (filter (\<lambda>e. Q (snd e)) xs) a = (case map_of xs a of None \<Rightarrow> None | Some v \<Rightarrow> if Q v then Some v else None)"
proof (induction xs)
  case (Cons x xs)
  then show ?case
    by (cases x) (auto simp: map_of_eq_None_iff image_iff split: option.split dest: map_of_SomeD)
qed simp

text \<open>The rows of the table as an association list.\<close>

lemma find_scope: "map_option ik_rec (List.find (\<lambda>r. ik_scope r = k) xs) = map_of (map (\<lambda>r. (ik_scope r, ik_rec r)) xs) k"
  by (induction xs) auto

definition set_rec :: "idem_scope \<Rightarrow> 'b idem_record \<Rightarrow> 'b idem_row \<Rightarrow> 'b idem_row" where
  "set_rec k rec r = (if ik_scope r = k then r\<lparr>ik_rec := rec\<rparr> else r)"

lemma set_rec_scope [simp]: "ik_scope (set_rec k rec r) = ik_scope r"
  by (simp add: set_rec_def)

lemma map_of_set_rec:
  "map_of (map (\<lambda>r. (ik_scope r, ik_rec r)) (map (set_rec k' rec) xs)) k =
     (if k = k' \<and> (\<exists>r\<in>set xs. ik_scope r = k') then Some rec else map_of (map (\<lambda>r. (ik_scope r, ik_rec r)) xs) k)"
proof (induction xs)
  case (Cons x xs)
  then show ?case by (cases "ik_scope x = k'"; cases "k = k'") (simp_all add: set_rec_def)
qed simp

lemma lookup_upsert: "lookup False k (snd (db_upsert k' rec st)) = (if k = k' then Some rec else lookup False k st)"
proof (cases "\<exists>r\<in>set (dbRows st). ik_scope r = k'")
  case True
  with map_of_set_rec [of k' rec "dbRows st" k] show ?thesis
    by (simp add: db_upsert_def lookup_def find_scope set_rec_def [abs_def] del: map_map)
next
  case False
  then have "map_of (map (\<lambda>r. (ik_scope r, ik_rec r)) (dbRows st)) k' = None" by (auto simp: map_of_eq_None_iff)
  with False show ?thesis by (simp add: db_upsert_def db_create_def lookup_def find_scope map_add_def split: option.split)
qed

lemma db_create_inv: "store_inv False st \<Longrightarrow> store_inv False (snd (db_create k rec st))"
  by (auto simp: db_create_def store_inv_def less_SucI)

lemma db_upsert_inv:
  assumes "store_inv False st"
  shows "store_inv False (snd (db_upsert k rec st))"
proof (cases "\<exists>r\<in>set (dbRows st). ik_scope r = k")
  case True
  have "map ik_scope (map (set_rec k rec) xs) = map ik_scope xs" "map ik_id (map (set_rec k rec) xs) = map ik_id xs" for xs
    by (simp_all add: set_rec_def)
  with assms True show ?thesis by (auto simp: db_upsert_def store_inv_def set_rec_def [abs_def] simp del: map_map)
next
  case False
  with assms show ?thesis by (simp add: db_upsert_def db_create_inv)
qed

lemma db_deleteMany_inv: "store_inv False st \<Longrightarrow> store_inv False (snd (db_deleteMany P st))"
  by (auto simp: store_inv_def db_deleteMany_def distinct_map_filter)

lemma lookup_deleteMany:
  assumes "distinct (map ik_scope (dbRows st))" and "\<And>r. P r \<longleftrightarrow> Q (ik_scope r) (ik_rec r)"
  shows "lookup False k (snd (db_deleteMany P st)) =
    (case lookup False k st of None \<Rightarrow> None | Some rec \<Rightarrow> if Q k rec then None else Some rec)"
proof -
  have "distinct (map ik_scope xs) \<Longrightarrow> map_of (map (\<lambda>r. (ik_scope r, ik_rec r)) (filter (\<lambda>r. \<not> P r) xs)) k =
      (case map_of (map (\<lambda>r. (ik_scope r, ik_rec r)) xs) k of None \<Rightarrow> None | Some rec \<Rightarrow> if Q k rec then None else Some rec)" for xs
  proof (induction xs)
    case (Cons x xs)
    have "ik_scope x = k \<Longrightarrow> map_of (map (\<lambda>r. (ik_scope r, ik_rec r)) xs) k = None"
      using Cons.prems by (auto simp: map_of_eq_None_iff)
    with Cons show ?case by (auto simp: assms(2))
  qed simp
  with assms(1) show ?thesis by (simp add: db_deleteMany_def lookup_def find_scope)
qed

interpretation st: keyed_store "lookup mem" "st_put mem" "st_remove mem" "st_purge mem" "store_inv mem" for mem
proof (unfold_locales, goal_cases)
  case (1 st k k' rec)
  then show ?case using getStoreKey_inj [of k k']
    by (cases mem; cases "k = k'") (auto simp: st_put_def lookup_upsert, auto simp: lookup_def mem_get_def mem_set_def update_conv')
next
  case (2 st k k')
  then show ?case using getStoreKey_inj [of k k']
    by (cases mem)
      (auto simp: st_remove_def store_inv_def lookup_deleteMany [where Q = "\<lambda>s _. s = k'"] split: option.split,
       auto simp: lookup_def mem_get_def mem_delete_def map_of_filter_key)
next
  case (3 st k t)
  then show ?case
    by (cases mem)
      (auto simp: st_purge_def store_inv_def lookup_deleteMany [where Q = "\<lambda>_ r. expiresAt r < t"] split: option.split,
       auto simp: lookup_def mem_get_def mem_purge_def map_of_filter_distinct [where Q = "\<lambda>r. \<not> expiresAt r < t", simplified] split: option.split)
next
  case (4 st k rec)
  then show ?case by (cases mem) (auto simp: st_put_def db_upsert_inv, auto simp: store_inv_def mem_set_def distinct_update)
next
  case (5 st k)
  then show ?case by (cases mem) (auto simp: st_remove_def db_deleteMany_inv, auto simp: store_inv_def mem_delete_def distinct_map_filter)
next
  case (6 st t)
  then show ?case by (cases mem) (auto simp: st_purge_def db_deleteMany_inv, auto simp: store_inv_def mem_purge_def distinct_map_filter)
qed

subsection \<open>A record that nobody removes\<close>

definition keeps :: "bool \<Rightarrow> idem_scope \<Rightarrow> ('b idem_record \<Rightarrow> bool) \<Rightarrow> 'b idem_store \<Rightarrow> bool" where
  "keeps mem k P st \<longleftrightarrow> store_inv mem st \<and> (\<exists>rec. lookup mem k st = Some rec \<and> P rec)"

text \<open>Steps of other requests that respect the record of scope \<open>k\<close> until \<open>d\<close>: everything but the release of
  its lock, and a stored result must satisfy \<open>P\<close>.\<close>

fun spares :: "idem_scope \<Rightarrow> ('b idem_record \<Rightarrow> bool) \<Rightarrow> int \<Rightarrow> 'b idem_step \<Rightarrow> bool" where
  "spares k P d (DropExpired k' t) \<longleftrightarrow> scoped k' \<and> t \<le> d"
| "spares k P d (Insert k' rec) \<longleftrightarrow> scoped k'"
| "spares k P d (Save k' rec) \<longleftrightarrow> scoped k' \<and> (k' = k \<longrightarrow> P rec)"
| "spares k P d (Free k') \<longleftrightarrow> scoped k' \<and> k' \<noteq> k"
| "spares k P d (Purge t) \<longleftrightarrow> t \<le> d"

lemma keeps_apply:
  assumes "keeps mem k P st" and "spares k P d x" and "\<And>rec. P rec \<Longrightarrow> d \<le> expiresAt rec" and k: "scoped k"
  shows "keeps mem k P (idem_apply mem x st)"
proof -
  from assms(1) obtain rec where inv: "store_inv mem st" and rec: "lookup mem k st = Some rec" "P rec" by (auto simp: keeps_def)
  have live: "d \<le> expiresAt rec" by (rule assms(3) [OF rec(2)])
  note laws = st.look_put [OF inv k] st.look_remove [OF inv k] st.look_purge [OF inv] st.inv_put [OF inv] st.inv_remove [OF inv]
    st.inv_purge [OF inv]
  show ?thesis using assms(2) rec live inv by (cases x) (auto simp: keeps_def laws split: option.split)
qed

definition calm :: "bool \<Rightarrow> idem_scope \<Rightarrow> ('b idem_record \<Rightarrow> bool) \<Rightarrow> int \<Rightarrow> 'b idem_world \<Rightarrow> bool" where
  "calm mem k P d w \<longleftrightarrow> scoped k \<and> (\<forall>rec. P rec \<longrightarrow> d \<le> expiresAt rec) \<and> keeps mem k P (iw_store w) \<and> iw_clock w \<le> d \<and>
     (\<forall>g\<in>set (iw_gaps w). g_now g \<le> d \<and> list_all (spares k P d) (g_steps g))"

lemma calm_pause:
  assumes "calm mem k P d w"
  shows "\<exists>up w'. pause mem w = (Inr up, w') \<and> calm mem k P d w'"
proof (cases "iw_gaps w")
  case Nil
  with assms show ?thesis by (intro exI [of _ True] exI [of _ w]) (simp add: pause_def)
next
  case (Cons g gs)
  have "keeps mem k P (foldl (\<lambda>st x. idem_apply mem x st) st xs)"
    if "keeps mem k P st" "list_all (spares k P d) xs" for st xs
    using that
  proof (induction xs arbitrary: st)
    case (Cons x xs)
    with keeps_apply [of mem k P st d x] assms show ?case by (simp add: calm_def)
  qed simp
  with Cons assms show ?thesis by (simp add: pause_def calm_def)
qed

text \<open>A call answers without taking the lock.\<close>

definition turned_away :: "('b idem_record \<Rightarrow> bool) \<Rightarrow> string \<Rightarrow> 'b check_result \<Rightarrow> bool" where
  "turned_away P h r \<longleftrightarrow> r = refused in_progress_error \<or> r = refused IDEMPOTENCY_STORE_UNAVAILABLE \<or>
     (\<exists>rec. P rec \<and> responseStatus rec \<noteq> 102 \<and> r = answer h rec)"

lemma calm_find:
  assumes "calm False k P d w"
  obtains (down) e w' where "db_call (db_findUnique k) w = (Inl e, w')" "calm False k P d w'"
  | (found) row w' where "db_call (db_findUnique k) w = (Inr (Some row), w')" "P (ik_rec row)" "calm False k P d w'"
proof -
  obtain up w' where p: "pause False w = (Inr up, w')" "calm False k P d w'" using calm_pause [OF assms] by blast
  then obtain row where "List.find (\<lambda>r. ik_scope r = k) (dbRows (iw_store w')) = Some row" "P (ik_rec row)"
    by (auto simp: calm_def keeps_def lookup_def)
  with p that show ?thesis
    by (cases up) (auto simp: db_call_def m_bind_def m_throw_def m_zoom_def db_findUnique_def m_gets_def)
qed

lemma calm_poll_db:
  "calm False k P d w \<Longrightarrow> \<exists>r w'. poll_db k h n w = (r, w') \<and> calm False k P d w' \<and> (\<forall>res. r = Inr res \<longrightarrow> turned_away P h res)"
proof (induction n arbitrary: w)
  case 0
  then show ?case by (simp add: m_return_def turned_away_def)
next
  case (Suc n)
  from Suc.prems show ?case
  proof (cases rule: calm_find)
    case (down e w')
    then show ?thesis by (simp add: m_bind_def)
  next
    case (found row w')
    with Suc.IH [of w'] show ?thesis by (auto simp: m_bind_def m_return_def turned_away_def)
  qed
qed

lemma calm_pass:
  assumes "calm False k P d w"
  shows "\<exists>r w'. acquire_pass k h ex w = (Inr (Some r), w') \<and> calm False k P d w' \<and> turned_away P h r"
  using assms
proof (cases rule: calm_find)
  case (down e w')
  then show ?thesis by (simp add: acquire_pass_def m_catch_def m_bind_def m_return_def turned_away_def)
next
  case (found row w')
  have "\<not> expiresAt (ik_rec row) < iw_clock w'" using found(2,3) by (force simp: calm_def)
  moreover obtain r w'' where "poll_db k h 20 w' = (r, w'')" "calm False k P d w''" "\<forall>res. r = Inr res \<longrightarrow> turned_away P h res"
    using calm_poll_db [OF found(3)] by blast
  ultimately show ?thesis using found
    by (cases r) (auto simp: acquire_pass_def m_catch_def m_bind_def m_return_def m_gets_def turned_away_def)
qed

lemma calm_memory:
  assumes "calm True k P d w"
  shows "\<exists>rec. getMemoryRecord k w = (Inr (Some rec), w) \<and> P rec"
proof -
  from assms obtain rec where "mem_get k (iw_store w) = Some rec" "P rec" by (auto simp: calm_def keeps_def lookup_def)
  moreover from this(2) assms have "\<not> expiresAt rec < iw_clock w" by (force simp: calm_def)
  ultimately show ?thesis by (simp add: getMemoryRecord_def)
qed

lemma calm_poll_mem:
  "calm True k P d w \<Longrightarrow> \<exists>res w'. poll_mem k h n w = (Inr res, w') \<and> calm True k P d w' \<and> turned_away P h res"
proof (induction n arbitrary: w)
  case 0
  then show ?case by (simp add: m_return_def turned_away_def)
next
  case (Suc n)
  obtain up w' where p: "pause True w = (Inr up, w')" "calm True k P d w'" using calm_pause [OF Suc.prems] by blast
  with calm_memory [OF p(2)] Suc.IH [OF p(2)] show ?case
    by (auto simp: m_then_def m_bind_def m_return_def turned_away_def)
qed

lemma calm_acquire:
  assumes "calm mem k P d w"
  shows "\<exists>r w'. acquireIdempotencyLock L mem k body ttl w = (Inr r, w') \<and> calm mem k P d w' \<and>
    turned_away P (hashRequestBody L body) r"
proof (cases mem)
  case False
  with calm_pass [of k P d w "hashRequestBody L body" "iw_clock w + ttl * 60 * 60 * 1000"] assms show ?thesis
    by (auto simp: acquireIdempotencyLock_def m_bind_def m_gets_def m_return_def)
next
  case True
  with calm_memory [of k P d w] calm_poll_mem [of k P d w "hashRequestBody L body" 20] assms show ?thesis
    by (auto simp: acquireIdempotencyLock_def acquire_mem_def m_bind_def m_gets_def m_return_def turned_away_def)
qed

subsection \<open>The recursion ends\<close>

text \<open>A call recurses only after another request inserted between its read and its insertion, so every
  recursion uses up a gap, and as many passes as there are gaps, plus one, are enough.\<close>

lemma gaps_pause [preserve_intros]: "preserves (\<lambda>w. length (iw_gaps w) \<le> n) (pause mem)"
  by (auto simp: preserves_def pause_def split: list.split)

lemma gaps_db_call [preserve_intros]: "preserves (\<lambda>w. length (iw_gaps w) \<le> n) (db_call f)"
  unfolding db_call_def by (intro preserve_intros preserves_zoom) simp

lemma gaps_poll_db [preserve_intros]: "preserves (\<lambda>w. length (iw_gaps w) \<le> n) (poll_db k h m)"
proof (induction m)
  case 0
  then show ?case unfolding poll_db.simps by (rule preserves_return)
next
  case (Suc m)
  then show ?case unfolding poll_db.simps by (intro preserve_intros)
qed

lemma gaps_insert_lock [preserve_intros]: "preserves (\<lambda>w. length (iw_gaps w) \<le> n) (insert_lock k h ex)"
  unfolding insert_lock_def
  by (intro preserve_intros) (auto split: js_error.split intro!: preserve_intros)

lemma inv_step: "store_inv mem st \<Longrightarrow> store_inv mem (idem_apply mem x st)"
  by (cases x) (auto simp: st.inv_put st.inv_remove st.inv_purge split: option.split)

lemma insert_alone:
  assumes "iw_gaps w = []" and "lookup False k (iw_store w) = None"
  shows "\<exists>w'. insert_lock k h ex w = (Inr (Some taken), w')"
proof -
  have "\<not> (\<exists>r\<in>set (dbRows (iw_store w)). ik_scope r = k)" using assms(2) by (simp add: lookup_def find_None_iff)
  then show ?thesis
    by (simp add: insert_lock_def db_call_def pause_def assms(1) db_create_def m_catch_def m_then_def m_bind_def m_zoom_def m_return_def)
qed

lemma pass_alone:
  assumes gaps: "iw_gaps w = []" and inv: "store_inv False (iw_store w)"
  shows "\<exists>r w'. acquire_pass k h ex w = (Inr (Some r), w')"
proof (cases "List.find (\<lambda>r. ik_scope r = k) (dbRows (iw_store w))")
  case None
  then have "lookup False k (iw_store w) = None" by (simp add: lookup_def)
  from insert_alone [OF gaps this, of h ex] None gaps show ?thesis
    by (auto simp: acquire_pass_def db_call_def pause_def db_findUnique_def m_catch_def m_bind_def m_zoom_def m_gets_def)
next
  case (Some row)
  let ?w = "w\<lparr>iw_store := (iw_store w)\<lparr>dbRows := filter (\<lambda>r. ik_id r \<noteq> ik_id row) (dbRows (iw_store w))\<rparr>\<rparr>"
  have row: "row \<in> set (dbRows (iw_store w))" "ik_scope row = k" using find_Some_set [OF Some] by auto
  have "r = row" if "r \<in> set (dbRows (iw_store w))" "ik_scope r = k" for r
    using inv row that by (auto simp: store_inv_def distinct_map inj_on_def)
  then have "lookup False k (iw_store ?w) = None" by (auto simp: lookup_def find_None_iff)
  from insert_alone [OF _ this, of h ex] gaps obtain w1 where w1: "insert_lock k h ex ?w = (Inr (Some taken), w1)" by auto
  obtain r w2 where "poll_db k h 20 w = (r, w2)" by fastforce
  with Some row w1 gaps show ?thesis
    by (cases r) (auto simp: acquire_pass_def db_call_def pause_def db_findUnique_def db_delete_def m_catch_def m_then_def m_bind_def
        m_zoom_def m_gets_def m_return_def)
qed

lemma after_bind: "I (snd (m w)) \<Longrightarrow> (\<And>a. preserves I (f a)) \<Longrightarrow> I (snd (m_bind m f w))"
  by (cases "m w") (auto simp: m_bind_def preserves_def split: sum.split)

lemma after_catch: "I (snd (m w)) \<Longrightarrow> (\<And>e. preserves I (f e)) \<Longrightarrow> I (snd (m_catch m f w))"
  by (cases "m w") (auto simp: m_catch_def preserves_def split: sum.split)

lemma pass_progress:
  assumes "store_inv False (iw_store w)" and "acquire_pass k h ex w = (r, w')"
  shows "\<exists>x. r = Inr x \<and> (x = None \<longrightarrow> length (iw_gaps w') < length (iw_gaps w))"
proof -
  have total: "\<exists>x. r = Inr x"
    using assms(2) by (auto simp: acquire_pass_def m_catch_def m_return_def split: prod.splits sum.splits)
  show ?thesis
  proof (cases "iw_gaps w")
    case Nil
    with pass_alone [OF Nil assms(1), of k h ex] assms(2) show ?thesis by auto
  next
    case (Cons g gs)
    have first: "length (iw_gaps (snd (db_call (db_findUnique k) w))) \<le> length gs"
      using Cons by (simp add: db_call_def pause_def m_bind_def m_throw_def m_zoom_def db_findUnique_def m_gets_def)
    have "length (iw_gaps (snd (acquire_pass k h ex w))) \<le> length gs"
      unfolding acquire_pass_def
      by (rule after_catch [where I = "\<lambda>w. length (iw_gaps w) \<le> length gs"],
          rule after_bind [where I = "\<lambda>w. length (iw_gaps w) \<le> length gs"], rule first) (intro preserve_intros)+
    with Cons assms(2) total show ?thesis by auto
  qed
qed

lemma inv_world [preserve_intros]: "preserves (\<lambda>w. store_inv mem (iw_store w)) (pause mem)"
proof -
  have "store_inv mem st \<Longrightarrow> store_inv mem (foldl (\<lambda>st x. idem_apply mem x st) st xs)" for st xs
    by (induction xs arbitrary: st) (auto simp: inv_step)
  then show ?thesis by (auto simp: preserves_def pause_def split: list.split)
qed

lemma inv_db_call:
  "preserves (store_inv False) f \<Longrightarrow> preserves (\<lambda>w. store_inv False (iw_store w)) (db_call f)"
  unfolding db_call_def
  by (intro preserve_intros) (auto simp: preserves_def m_zoom_def split: prod.split)

lemma inv_db_ops [preserve_intros]:
  "preserves (store_inv False) (db_findUnique k)" "preserves (store_inv False) (db_delete i)"
  "preserves (store_inv False) (db_create k rec)"
  by (auto simp: preserves_def db_create_inv) (auto simp: db_findUnique_def m_gets_def db_delete_def store_inv_def distinct_map_filter)

lemma inv_poll_db [preserve_intros]: "preserves (\<lambda>w. store_inv False (iw_store w)) (poll_db k h m)"
proof (induction m)
  case 0
  then show ?case unfolding poll_db.simps by (rule preserves_return)
next
  case (Suc m)
  then show ?case unfolding poll_db.simps by (intro preserve_intros inv_db_call)
qed

lemma inv_insert_lock [preserve_intros]: "preserves (\<lambda>w. store_inv False (iw_store w)) (insert_lock k h ex)"
  unfolding insert_lock_def
  by (intro preserve_intros inv_db_call) (auto split: js_error.split intro!: preserve_intros)

lemma inv_pass [preserve_intros]: "preserves (\<lambda>w. store_inv False (iw_store w)) (acquire_pass k h ex)"
  unfolding acquire_pass_def by (intro preserve_intros inv_db_call)

lemma acquire_db_answers:
  "store_inv False (iw_store w) \<Longrightarrow> length (iw_gaps w) < n \<Longrightarrow> \<exists>r w'. acquire_db k h ttl n w = (Inr r, w')"
proof (induction n arbitrary: w)
  case 0
  then show ?case by simp
next
  case (Suc n)
  obtain r w' where pass: "acquire_pass k h (iw_clock w + ttl * 60 * 60 * 1000) w = (r, w')" by fastforce
  from pass_progress [OF Suc.prems(1) pass] obtain x where x: "r = Inr x" "x = None \<longrightarrow> length (iw_gaps w') < length (iw_gaps w)"
    by blast
  have inv: "store_inv False (iw_store w')" using preservesD [OF inv_pass Suc.prems(1)] pass by (metis snd_conv)
  show ?case
  proof (cases x)
    case None
    with x Suc.IH [OF inv] Suc.prems(2) pass show ?thesis by (auto simp: m_bind_def m_gets_def)
  next
    case (Some res)
    with x pass show ?thesis by (simp add: m_bind_def m_gets_def m_return_def)
  qed
qed

text \<open>C26. Acquiring an idempotency key always answers: whatever other requests do between its database calls
  and whichever of these fail, the call returns a result and never throws; the recursion after a lost race
  ends.\<close>

theorem acquire_always_answers:
  assumes "store_inv mem (iw_store w)"
  shows "\<exists>r w'. acquireIdempotencyLock L mem k body ttl w = (Inr r, w')"
proof (cases mem)
  case False
  with acquire_db_answers [of w "Suc (length (iw_gaps w))"] assms show ?thesis
    by (simp add: acquireIdempotencyLock_def m_bind_def m_gets_def)
next
  case True
  have total: "\<exists>r w'. getMemoryRecord k w = (Inr r, w')" for w by (simp add: getMemoryRecord_def split: option.split)
  have "\<exists>r w'. poll_mem k h n w = (Inr r, w')" for h n w
  proof (induction n arbitrary: w)
    case (Suc n)
    obtain up w1 where p: "pause True w = (Inr up, w1)" by (cases "iw_gaps w") (auto simp: pause_def)
    obtain x w2 where "getMemoryRecord k w1 = (Inr x, w2)" using total by blast
    with p Suc show ?case by (auto simp: m_then_def m_bind_def m_return_def split: option.split)
  qed (simp add: m_return_def)
  moreover obtain x w2 where "getMemoryRecord k w = (Inr x, w2)" using total by blast
  ultimately show ?thesis using True
    by (auto simp: acquireIdempotencyLock_def acquire_mem_def m_bind_def m_gets_def m_return_def m_then_def m_modify_def
        split: option.split)
qed

subsection \<open>What a store promises\<close>

text \<open>The abstract store is a map from scopes to records, of which only those not expired count.\<close>

type_synonym 'b idem_spec = "idem_scope \<Rightarrow> 'b idem_record option"

definition live_rec :: "int \<Rightarrow> 'b idem_record option \<Rightarrow> 'b idem_record option" where
  "live_rec now x = (case x of None \<Rightarrow> None | Some rec \<Rightarrow> if expiresAt rec < now then None else Some rec)"

datatype 'b idem_call =
    Check idem_scope js_value
  | Acquire idem_scope js_value int
  | StoreResult idem_scope js_value int 'b idem_config
  | ReleaseLock idem_scope
  | CleanUp

fun spec_call :: "js_lib \<Rightarrow> int \<Rightarrow> 'b idem_call \<Rightarrow> 'b idem_spec \<Rightarrow> 'b check_result option \<times> 'b idem_spec" where
  "spec_call L now (Check k body) M =
     (Some (case live_rec now (M k) of None \<Rightarrow> fresh | Some rec \<Rightarrow> answer (hashRequestBody L body) rec), M)"
| "spec_call L now (Acquire k body ttl) M =
     (case live_rec now (M k) of
        None \<Rightarrow> (Some taken, M(k \<mapsto> lock_record (hashRequestBody L body) (now + ttl * 60 * 60 * 1000)))
      | Some rec \<Rightarrow>
          (Some (if responseStatus rec = 102 then refused in_progress_error else answer (hashRequestBody L body) rec), M))"
| "spec_call L now (StoreResult k body status resp cfg) M =
     (None, M(k \<mapsto> \<lparr>requestHash = hashRequestBody L body, responseStatus = status, responseBody = Some resp,
        expiresAt = now + ttl_minutes cfg * 60 * 1000\<rparr>))"
| "spec_call L now (ReleaseLock k) M =
     (None, case M k of None \<Rightarrow> M | Some rec \<Rightarrow> if responseStatus rec = 102 then M(k := None) else M)"
| "spec_call L now CleanUp M = (None, M)"

fun spec_calls :: "js_lib \<Rightarrow> 'b idem_spec \<Rightarrow> (int \<times> 'b idem_call) list \<Rightarrow> (js_error + 'b check_result option) list" where
  "spec_calls L M [] = []"
| "spec_calls L M ((now, c) # cs) = (case spec_call L now c M of (r, M') \<Rightarrow> Inr r # spec_calls L M' cs)"

text \<open>The code's calls, one after the other and without interference, on one of its stores.\<close>

fun run_call :: "js_lib \<Rightarrow> bool \<Rightarrow> 'b idem_call \<Rightarrow> ('b idem_world, js_error, 'b check_result option) comp" where
  "run_call L mem (Check k body) = m_bind (checkIdempotency L mem k body) (\<lambda>r. m_return (Some r))"
| "run_call L mem (Acquire k body ttl) = m_bind (acquireIdempotencyLock L mem k body ttl) (\<lambda>r. m_return (Some r))"
| "run_call L mem (StoreResult k body status resp cfg) =
     m_then (storeIdempotencyResult L mem k body status resp cfg) (m_return None)"
| "run_call L mem (ReleaseLock k) = m_then (releaseIdempotencyLock mem k) (m_return None)"
| "run_call L mem CleanUp = m_then (cleanupExpiredIdempotencyKeys mem) (m_return None)"

fun run_calls :: "js_lib \<Rightarrow> bool \<Rightarrow> 'b idem_store \<Rightarrow> (int \<times> 'b idem_call) list \<Rightarrow> (js_error + 'b check_result option) list" where
  "run_calls L mem st [] = []"
| "run_calls L mem st ((now, c) # cs) =
     (case run_call L mem c \<lparr>iw_store = st, iw_gaps = [], iw_clock = now\<rparr> of (r, w) \<Rightarrow> r # run_calls L mem (iw_store w) cs)"

fun call_scoped :: "'b idem_call \<Rightarrow> bool" where
  "call_scoped (Check k body) = scoped k"
| "call_scoped (Acquire k body ttl) = scoped k"
| "call_scoped (StoreResult k body status resp cfg) = scoped k"
| "call_scoped (ReleaseLock k) = scoped k"
| "call_scoped CleanUp = True"

text \<open>The simulation relation at time \<open>now\<close>.\<close>

definition implements :: "bool \<Rightarrow> int \<Rightarrow> 'b idem_spec \<Rightarrow> 'b idem_store \<Rightarrow> bool" where
  "implements mem now M st \<longleftrightarrow> store_inv mem st \<and> (\<forall>k. scoped k \<longrightarrow> live_rec now (lookup mem k st) = live_rec now (M k))"

lemma live_rec_mono: "live_rec t x = live_rec t y \<Longrightarrow> t \<le> t' \<Longrightarrow> live_rec t' x = live_rec t' y"
  by (auto simp: live_rec_def split: option.splits if_splits)

lemma implements_mono: "implements mem t M st \<Longrightarrow> t \<le> t' \<Longrightarrow> implements mem t' M st"
  by (auto simp: implements_def intro: live_rec_mono)

lemma implementsD: "implements mem now M st \<Longrightarrow> scoped k \<Longrightarrow> live_rec now (M k) = live_rec now (lookup mem k st)"
  by (simp add: implements_def del: split_paired_All)

lemma implements_put: "implements mem now M st \<Longrightarrow> scoped k \<Longrightarrow> implements mem now (M(k \<mapsto> rec)) (st_put mem k rec st)"
  by (auto simp: implements_def st.inv_put st.look_put)

lemma implements_remove_expired:
  "implements mem now M st \<Longrightarrow> scoped k \<Longrightarrow> live_rec now (lookup mem k st) = None \<Longrightarrow> implements mem now M (st_remove mem k st)"
  by (auto simp: implements_def st.inv_remove st.look_remove) (simp_all add: live_rec_def)

lemma implements_remove:
  "implements mem now M st \<Longrightarrow> scoped k \<Longrightarrow> implements mem now (M(k := None)) (st_remove mem k st)"
  by (auto simp: implements_def st.inv_remove st.look_remove)

lemma implements_purge: "implements mem now M st \<Longrightarrow> implements mem now M (st_purge mem now st)"
  by (auto simp: implements_def st.inv_purge st.look_purge live_rec_def split: option.splits if_splits)

lemma implements_free:
  assumes "implements mem now M st" and "scoped k"
  shows "implements mem now (case M k of None \<Rightarrow> M | Some rec \<Rightarrow> if responseStatus rec = 102 then M(k := None) else M)
    (idem_apply mem (Free k) st)"
proof (cases "live_rec now (lookup mem k st)")
  case None
  then have M: "live_rec now (M k) = None" using implementsD [OF assms] by simp
  have "implements mem now (M(k := None)) st'" if "implements mem now M st'" "live_rec now (lookup mem k st') = None" for st'
    using that by (auto simp: implements_def) (simp add: live_rec_def)
  with None M assms implements_remove_expired [OF assms None] show ?thesis
    by (auto split: option.split) (metis live_rec_def option.case(1) st.look_remove implements_def)
next
  case (Some rec)
  then have "lookup mem k st = Some rec" "M k = Some rec"
    using implementsD [OF assms] by (auto simp: live_rec_def split: option.splits if_splits)
  with assms implements_remove [OF assms] show ?thesis by simp
qed

text \<open>Calls without interference.\<close>

abbreviation idle :: "'b idem_store \<Rightarrow> int \<Rightarrow> 'b idem_world" where
  "idle st now \<equiv> \<lparr>iw_store = st, iw_gaps = [], iw_clock = now\<rparr>"

lemma db_call_idle: "db_call f (idle st now) = (fst (f st), idle (snd (f st)) now)"
  by (simp add: db_call_def pause_def m_bind_def m_zoom_def split: prod.split)

lemma find_lookup: "List.find (\<lambda>r. ik_scope r = k) (dbRows st) = None \<Longrightarrow> lookup False k st = None"
  "List.find (\<lambda>r. ik_scope r = k) (dbRows st) = Some row \<Longrightarrow> lookup False k st = Some (ik_rec row)"
  by (simp_all add: lookup_def)

lemma poll_db_idle:
  "List.find (\<lambda>r. ik_scope r = k) (dbRows st) = Some row \<Longrightarrow> responseStatus (ik_rec row) = 102 \<Longrightarrow>
   poll_db k h n (idle st now) = (Inr (refused in_progress_error), idle st now)"
  by (induction n) (simp_all add: m_return_def m_bind_def db_call_idle db_findUnique_def m_gets_def)

lemma poll_mem_idle:
  "mem_get k st = Some rec \<Longrightarrow> \<not> expiresAt rec < now \<Longrightarrow> responseStatus rec = 102 \<Longrightarrow>
   poll_mem k h n (idle st now) = (Inr (refused in_progress_error), idle st now)"
  by (induction n) (simp_all add: m_return_def m_bind_def m_then_def pause_def getMemoryRecord_def)

lemma db_delete_found:
  assumes "store_inv False st" and "List.find (\<lambda>r. ik_scope r = k) (dbRows st) = Some row"
  shows "db_delete (ik_id row) st = (Inr (), st_remove False k st)"
proof -
  have row: "row \<in> set (dbRows st)" "ik_scope row = k" using find_Some_set [OF assms(2)] by auto
  have "ik_id r = ik_id row \<longleftrightarrow> ik_scope r = k" if "r \<in> set (dbRows st)" for r
    using assms(1) row that by (auto simp: store_inv_def distinct_map inj_on_def)
  then have "filter (\<lambda>r. ik_id r \<noteq> ik_id row) (dbRows st) = filter (\<lambda>r. ik_scope r \<noteq> k) (dbRows st)"
    by (intro filter_cong) auto
  with row show ?thesis by (auto simp: db_delete_def st_remove_def db_deleteMany_def)
qed

lemma db_create_absent: "lookup False k st = None \<Longrightarrow> db_create k rec st = (Inr (), st_put False k rec st)"
  by (auto simp: db_create_def st_put_def db_upsert_def lookup_def find_None_iff)

lemma insert_lock_idle:
  "lookup False k st = None \<Longrightarrow>
   insert_lock k h ex (idle st now) = (Inr (Some taken), idle (st_put False k (lock_record h ex) st) now)"
  by (simp add: insert_lock_def m_catch_def m_then_def m_bind_def m_return_def db_call_idle db_create_absent)

lemma getMemoryRecord_idle:
  "getMemoryRecord k (idle st now) =
     (Inr (live_rec now (lookup True k st)),
      idle (if lookup True k st \<noteq> None \<and> live_rec now (lookup True k st) = None then st_remove True k st else st) now)"
  by (simp add: getMemoryRecord_def lookup_def live_rec_def st_remove_def split: option.split)

lemma check_idle:
  assumes "store_inv mem st"
  shows "checkIdempotency L mem k body (idle st now) =
     (Inr (case live_rec now (lookup mem k st) of None \<Rightarrow> fresh | Some rec \<Rightarrow> answer (hashRequestBody L body) rec),
      idle (if lookup mem k st \<noteq> None \<and> live_rec now (lookup mem k st) = None then st_remove mem k st else st) now)"
proof (cases mem)
  case True
  then show ?thesis by (simp add: checkIdempotency_def Let_def m_bind_def m_return_def getMemoryRecord_idle)
next
  case False
  show ?thesis
  proof (cases "List.find (\<lambda>r. ik_scope r = k) (dbRows st)")
    case None
    with False find_lookup(1) [OF None] show ?thesis
      by (simp add: checkIdempotency_def Let_def m_catch_def m_bind_def m_return_def m_gets_def db_call_idle db_findUnique_def live_rec_def)
  next
    case (Some row)
    with False find_lookup(2) [OF Some] db_delete_found [OF _ Some] assms show ?thesis
      by (simp add: checkIdempotency_def Let_def m_catch_def m_bind_def m_then_def m_return_def m_gets_def db_call_idle
          db_findUnique_def live_rec_def)
  qed
qed

lemma acquire_idle:
  assumes "store_inv mem st" and k: "scoped k"
  shows "acquireIdempotencyLock L mem k body ttl (idle st now) =
     (case live_rec now (lookup mem k st) of
        None \<Rightarrow> (Inr taken, idle (st_put mem k (lock_record (hashRequestBody L body) (now + ttl * 60 * 60 * 1000))
          (if lookup mem k st \<noteq> None then st_remove mem k st else st)) now)
      | Some rec \<Rightarrow> (Inr (if responseStatus rec = 102 then refused in_progress_error else answer (hashRequestBody L body) rec), idle st now))"
proof (cases mem)
  case True
  show ?thesis
  proof (cases "live_rec now (lookup mem k st)")
    case None
    with True show ?thesis
      by (simp add: acquireIdempotencyLock_def Let_def acquire_mem_def m_bind_def m_gets_def m_then_def m_modify_def m_return_def
          getMemoryRecord_idle st_put_def)
  next
    case (Some rec)
    then have rec: "mem_get k st = Some rec" "\<not> expiresAt rec < now"
      using True by (auto simp: live_rec_def lookup_def split: option.splits if_splits)
    with True Some poll_mem_idle [OF rec] show ?thesis
      by (simp add: acquireIdempotencyLock_def Let_def acquire_mem_def m_bind_def m_gets_def m_return_def getMemoryRecord_idle)
  qed
next
  case False
  show ?thesis
  proof (cases "List.find (\<lambda>r. ik_scope r = k) (dbRows st)")
    case None
    with False find_lookup(1) [OF None] insert_lock_idle [of k st] show ?thesis
      by (simp add: acquireIdempotencyLock_def Let_def acquire_pass_def m_catch_def m_bind_def m_return_def m_gets_def db_call_idle
          db_findUnique_def live_rec_def)
  next
    case (Some row)
    have "lookup False k (st_remove False k st) = None" using assms False by (simp add: st.look_remove)
    with False find_lookup(2) [OF Some] db_delete_found [OF _ Some] insert_lock_idle [of k "st_remove False k st"] assms
      poll_db_idle [OF Some] show ?thesis
      by (simp add: acquireIdempotencyLock_def Let_def acquire_pass_def m_catch_def m_bind_def m_then_def m_return_def m_gets_def
          db_call_idle db_findUnique_def live_rec_def Some)
  qed
qed

lemma store_idle:
  "storeIdempotencyResult L mem k body status resp cfg (idle st now) =
     (Inr (), idle (st_put mem k \<lparr>requestHash = hashRequestBody L body, responseStatus = status, responseBody = Some resp,
        expiresAt = now + ttl_minutes cfg * 60 * 1000\<rparr> st) now)"
proof -
  have "fst (db_upsert k rec st) = Inr ()" for rec by (auto simp: db_upsert_def db_create_def)
  then show ?thesis
    by (simp add: storeIdempotencyResult_def Let_def m_bind_def m_gets_def m_modify_def m_catch_def db_call_idle st_put_def)
qed

lemma release_idle:
  assumes "store_inv mem st"
  shows "\<exists>st'. releaseIdempotencyLock mem k (idle st now) = (Inr (), idle st' now) \<and> store_inv mem st' \<and>
    (\<forall>k'. lookup mem k' st' = lookup mem k' (idem_apply mem (Free k) st))"
proof (cases mem)
  case True
  with assms inv_step [of True st "Free k"] show ?thesis
    by (simp add: releaseIdempotencyLock_def m_modify_def del: split_paired_All)
next
  case False
  let ?P = "\<lambda>r. ik_scope r = k \<and> responseStatus (ik_rec r) = 102"
  have inv: "distinct (map ik_scope (dbRows st))" using assms False by (simp add: store_inv_def)
  have "lookup False k' (snd (db_deleteMany ?P st)) = lookup False k' (idem_apply False (Free k) st)" for k'
    by (auto simp: lookup_deleteMany [OF inv, of ?P "\<lambda>s r. s = k \<and> responseStatus r = 102"] st_remove_def
        lookup_deleteMany [OF inv, of "\<lambda>r. ik_scope r = k" "\<lambda>s r. s = k"] split: option.split)
  moreover have "releaseIdempotencyLock False k (idle st now) = (Inr (), idle (snd (db_deleteMany ?P st)) now)"
    by (simp add: releaseIdempotencyLock_def m_catch_def m_then_def m_bind_def m_return_def db_call_idle db_deleteMany_def)
  moreover have "store_inv False (snd (db_deleteMany ?P st))" using assms False by (simp add: db_deleteMany_inv)
  moreover have "mem = False" using False by simp
  ultimately show ?thesis by (intro exI [of _ "snd (db_deleteMany ?P st)"]) (simp only: simp_thms)
qed

lemma cleanup_idle:
  "\<exists>n. cleanupExpiredIdempotencyKeys mem (idle st now) = (Inr n, idle (st_purge mem now st) now)"
  by (cases mem) (simp_all add: cleanupExpiredIdempotencyKeys_def m_bind_def m_gets_def m_then_def m_modify_def m_return_def m_catch_def
      db_call_idle st_purge_def, simp add: db_deleteMany_def)

lemma implements_cong:
  "implements mem now M st \<Longrightarrow> store_inv mem st' \<Longrightarrow> (\<And>k. lookup mem k st' = lookup mem k st) \<Longrightarrow> implements mem now M st'"
  by (simp add: implements_def del: split_paired_All)

text \<open>One call simulates the call of the specification.\<close>

lemma call_refines:
  assumes "implements mem now M st" and "call_scoped c"
  obtains st' where "run_call L mem c (idle st now) = (Inr (fst (spec_call L now c M)), idle st' now)"
    "implements mem now (snd (spec_call L now c M)) st'"
proof -
  have inv: "store_inv mem st" using assms(1) by (simp add: implements_def)
  show thesis
  proof (cases c)
    case (Check k body)
    let ?st = "if lookup mem k st \<noteq> None \<and> live_rec now (lookup mem k st) = None then st_remove mem k st else st"
    have "implements mem now M ?st" using implements_remove_expired [OF assms(1), of k] assms Check by auto
    with Check assms(2) implementsD [OF assms(1), of k] show ?thesis
      by (intro that [of ?st]) (auto simp: check_idle [OF inv] m_bind_def m_return_def)
  next
    case (Acquire k body ttl)
    let ?st = "if lookup mem k st \<noteq> None then st_remove mem k st else st"
    have M: "live_rec now (M k) = live_rec now (lookup mem k st)" using implementsD [OF assms(1)] assms(2) Acquire by simp
    have "implements mem now M ?st" if "live_rec now (lookup mem k st) = None"
      using implements_remove_expired [OF assms(1) _ that] assms Acquire by auto
    note put = implements_put [OF this]
    show ?thesis
    proof (cases "live_rec now (lookup mem k st)")
      case None
      with put assms(2) M Acquire show ?thesis
        by (intro that [of "st_put mem k (lock_record (hashRequestBody L body) (now + ttl * 60 * 60 * 1000)) ?st"])
          (auto simp: acquire_idle [OF inv] m_bind_def m_return_def)
    next
      case (Some rec)
      with assms M Acquire show ?thesis by (intro that [of st]) (auto simp: acquire_idle [OF inv] m_bind_def m_return_def)
    qed
  next
    case (StoreResult k body status resp cfg)
    with implements_put [OF assms(1), of k] assms(2) show ?thesis
      by (intro that) (auto simp: store_idle m_then_def m_bind_def m_return_def)
  next
    case (ReleaseLock k)
    from release_idle [OF inv, of k now] obtain st' where st': "releaseIdempotencyLock mem k (idle st now) = (Inr (), idle st' now)"
      "store_inv mem st'" "\<And>k'. lookup mem k' st' = lookup mem k' (idem_apply mem (Free k) st)" by blast
    have "implements mem now (snd (spec_call L now c M)) st'"
      using implements_cong [OF implements_free [OF assms(1)] st'(2,3)] assms(2) ReleaseLock by simp
    with st'(1) ReleaseLock show ?thesis by (intro that) (auto simp: m_then_def m_bind_def m_return_def)
  next
    case CleanUp
    with cleanup_idle [of mem st now] implements_purge [OF assms(1)] show ?thesis
      by (intro that) (auto simp: m_then_def m_bind_def m_return_def)
  qed
qed

lemma calls_refine:
  "implements mem t M st \<Longrightarrow> sorted (t # map fst cs) \<Longrightarrow> list_all (call_scoped \<circ> snd) cs \<Longrightarrow>
   run_calls L mem st cs = spec_calls L M cs"
proof (induction cs arbitrary: t M st)
  case (Cons x cs)
  obtain now c where x: "x = (now, c)" by (cases x)
  have "implements mem now M st" using implements_mono [OF Cons.prems(1), of now] Cons.prems(2) x by simp
  moreover have "call_scoped c" using Cons.prems(3) x by simp
  ultimately obtain st' where "run_call L mem c (idle st now) = (Inr (fst (spec_call L now c M)), idle st' now)"
    "implements mem now (snd (spec_call L now c M)) st'" by (rule call_refines)
  with Cons.IH [of now "snd (spec_call L now c M)" st'] Cons.prems(2,3) x show ?case by (simp add: case_prod_unfold)
qed simp

definition empty_store :: "'b idem_store" where
  "empty_store = \<lparr>memStore = [], dbRows = [], nextRow = 0\<rparr>"

subsection \<open>Properties of the calls\<close>

text \<open>C23. Both stores implement the same specification: for every sequence of checks, acquisitions, stored
  results, releases and clean-ups at increasing times, the process-local map with its concatenated keys and
  the database table with its unique constraint give exactly the answers of a map from scopes to records in
  which expired records do not count.\<close>

theorem stores_refine_spec:
  assumes "sorted (map fst cs)" and "list_all (call_scoped \<circ> snd) cs"
  shows "run_calls L mem empty_store cs = spec_calls L (\<lambda>k. None) cs"
proof (cases cs)
  case (Cons x xs)
  have "implements mem (fst x) (\<lambda>k. None) empty_store"
    by (simp add: implements_def empty_store_def store_inv_def lookup_def mem_get_def)
  with calls_refine [of mem "fst x" "\<lambda>k. None" empty_store cs L] assms Cons show ?thesis by simp
qed simp

definition demo_lib :: js_lib where
  "demo_lib = \<lparr>sha256 = (\<lambda>s. s), numText = fraction_text\<rparr>"

theorem stores_refine_spec_witness:
  "let k = (''u1'', ''/api/bets'', ''key-0001''); b = VObj [(''amount'', VNum 5)]; h = \<lparr>ttlMinutes = None, ttlHours = Some 24\<rparr>;
       cs = [(0, Acquire k b 24), (1, Acquire k b 24), (2, StoreResult k b 200 True h), (3, Acquire k b 24), (4, Check k (VObj []))]
   in run_calls demo_lib True empty_store cs = spec_calls demo_lib (\<lambda>k. None) cs \<and>
      run_calls demo_lib False empty_store cs = spec_calls demo_lib (\<lambda>k. None) cs"
  using stores_refine_spec [of "[(0, Acquire (''u1'', ''/api/bets'', ''key-0001'') (VObj [(''amount'', VNum 5)]) 24),
      (1, Acquire (''u1'', ''/api/bets'', ''key-0001'') (VObj [(''amount'', VNum 5)]) 24),
      (2, StoreResult (''u1'', ''/api/bets'', ''key-0001'') (VObj [(''amount'', VNum 5)]) 200 True \<lparr>ttlMinutes = None, ttlHours = Some 24\<rparr>),
      (3, Acquire (''u1'', ''/api/bets'', ''key-0001'') (VObj [(''amount'', VNum 5)]) 24),
      (4, Check (''u1'', ''/api/bets'', ''key-0001'') (VObj []))]" demo_lib]
  by (simp add: Let_def scoped_def del: run_calls.simps spec_calls.simps)

theorem acquire_always_answers_witness:
  "\<exists>r w'. acquireIdempotencyLock demo_lib False (''u1'', ''/api/bets'', ''key-0001'') VNull 24
     \<lparr>iw_store = empty_store, iw_gaps = [\<lparr>g_steps = [], g_up = True, g_now = 1\<rparr>,
        \<lparr>g_steps = [Insert (''u1'', ''/api/bets'', ''key-0001'') (lock_record [] 9)], g_up = True, g_now = 2\<rparr>,
        \<lparr>g_steps = [], g_up = False, g_now = 3\<rparr>], iw_clock = 0\<rparr> = (Inr (r :: bool check_result), w')"
  by (rule acquire_always_answers) (simp add: empty_store_def store_inv_def)

end
