(* ===== verification/IdempotentRoutes.thy ===== *)
theory IdempotentRoutes
  imports Idempotency Predictions
begin

text \<open>
  The two endpoints that run an operation under an idempotency key: bets
  (\<open>src/src/routes/bet-execution.ts\<close>, behind the Redis lock of
  \<open>src/src/utils/distributed-idempotency-lock.ts\<close>) and predictions
  (\<open>src/src/routes/predictions.routes.ts\<close>).  A thrown error is what the handler passes to \<open>next\<close>.  Both
  handlers have the same phases, which are defined once over the operation they run.
\<close>

subsection \<open>Requests and the state of a handler\<close>

record idem_request =
  rq_user :: string
  rq_endpoint :: string
  rq_key :: "string option"
  rq_body :: js_value

definition rq_scope :: "idem_request \<Rightarrow> idem_scope" where
  "rq_scope rq = (rq_user rq, rq_endpoint rq, the (rq_key rq))"

record ('b, 'c, 'r) handler =
  h_idem :: "'b idem_world"
  h_app :: "'c app"
  h_redis :: 'r
  h_lockAcquired :: bool
  h_operationCompleted :: bool

type_synonym ('b, 'c, 'r, 'a) handling = "(('b, 'c, 'r) handler, js_error, 'a) comp"

definition on_idem :: "('b idem_world, js_error, 'a) comp \<Rightarrow> ('b, 'c, 'r, 'a) handling" where
  "on_idem m = m_zoom h_idem h_idem_update m"

definition on_app :: "('c app, js_error, 'a) comp \<Rightarrow> ('b, 'c, 'r, 'a) handling" where
  "on_app m = m_zoom h_app h_app_update m"

subsection \<open>The phases of both handlers\<close>

text \<open>\<open>Some reply\<close> ends the request; \<open>None\<close> goes on to the operation.\<close>

definition lock_phase :: "js_lib \<Rightarrow> bool \<Rightarrow> int \<Rightarrow> idem_request \<Rightarrow> ('b, 'c, 'r, (int \<times> 'b option) option) handling" where
  "lock_phase L mem ttl rq =
     (if \<not> truthy (rq_key rq) then m_return None
      else if \<not> isValidIdempotencyKey (the (rq_key rq)) then
        m_throw (App (ValidationError ''Invalid Idempotency-Key format. Must be 8-255 alphanumeric characters.''))
      else m_bind (on_idem (acquireIdempotencyLock L mem (rq_scope rq) (rq_body rq) ttl)) (\<lambda>lockResult.
        if isIdempotent lockResult \<and> cachedResponse lockResult \<noteq> None then m_return (cachedResponse lockResult)
        else if ic_error lockResult = Some IDEMPOTENCY_STORE_UNAVAILABLE then
          m_throw (App (ExternalServiceError ''Idempotency store unavailable. Please try again.'' EXTERNAL_SERVICE_ERROR))
        else if truthy (ic_error lockResult) then
          m_throw (App (ConflictError (the (ic_error lockResult)) IDEMPOTENCY_KEY_CONFLICT))
        else m_then (m_modify (\<lambda>s. s\<lparr>h_lockAcquired := lockAcquired lockResult\<rparr>)) (m_return None)))"

text \<open>The operation, and its answer stored under the key.\<close>

definition operate :: "js_lib \<Rightarrow> bool \<Rightarrow> idem_config \<Rightarrow> idem_request \<Rightarrow> ('c app, js_error, 'b) comp \<Rightarrow> ('b, 'c, 'r, int \<times> 'b option) handling" where
  "operate L mem cfg rq op =
     m_bind (on_app op) (\<lambda>resp.
     m_then (m_modify (\<lambda>s. s\<lparr>h_operationCompleted := True\<rparr>))
     (m_bind (m_gets h_lockAcquired) (\<lambda>held.
     m_then (if truthy (rq_key rq) \<and> held
         then on_idem (storeIdempotencyResult L mem (rq_scope rq) (rq_body rq) 200 resp cfg) else m_return ())
       (m_return (200, Some resp)))))"

definition execute ::
  "js_lib \<Rightarrow> bool \<Rightarrow> int \<Rightarrow> idem_config \<Rightarrow> idem_request \<Rightarrow> ('c app, js_error, 'b) comp \<Rightarrow> ('b, 'c, 'r, int \<times> 'b option) handling" where
  "execute L mem ttl cfg rq op =
     m_bind (lock_phase L mem ttl rq) (\<lambda>early. case early of Some reply \<Rightarrow> m_return reply | None \<Rightarrow> operate L mem cfg rq op)"

definition DistributedIdempotencyLockUnavailableError :: js_error where
  "DistributedIdempotencyLockUnavailableError = NodeError ''DISTRIBUTED_IDEMPOTENCY_LOCK_UNAVAILABLE''
     ''Distributed idempotency lock unavailable. Please retry.''"

definition next_error :: "js_error \<Rightarrow> js_error" where
  "next_error error =
     (if error = DistributedIdempotencyLockUnavailableError then
        App (ExternalServiceError ''Distributed idempotency lock unavailable. Please try again.'' EXTERNAL_SERVICE_ERROR)
      else if error = IdempotencyStoreUnavailableError then
        App (ExternalServiceError ''Idempotency store unavailable. Please try again.'' EXTERNAL_SERVICE_ERROR)
      else error)"

definition fail_phase :: "bool \<Rightarrow> idem_request \<Rightarrow> js_error \<Rightarrow> ('b, 'c, 'r, 'a) handling" where
  "fail_phase mem rq error =
     m_bind (m_gets (\<lambda>s. truthy (rq_key rq) \<and> h_lockAcquired s \<and> \<not> h_operationCompleted s)) (\<lambda>free.
     m_then (if free then on_idem (releaseIdempotencyLock mem (rq_scope rq)) else m_return ())
       (m_throw (next_error error)))"

subsection \<open>The Redis lock in front of bets\<close>

record redis_side =
  rd_conn :: link
  rd_now :: int
  rd_ttlSeconds :: int
  rd_acquireTimeoutMs :: int
  rd_token :: string
  rd_tries :: "(link \<times> int) list"
  rd_release :: "link \<times> int"

definition buildDistributedIdempotencyLockKey :: "idem_scope \<Rightarrow> string" where
  "buildDistributedIdempotencyLockKey k = ''xelma:idempotency-lock:'' @ getStoreKey k"

definition lock_timeout :: js_error where
  "lock_timeout = App (ConflictError in_progress_error IDEMPOTENCY_KEY_CONFLICT)"

text \<open>The iterations of the loop, with the link and the time of each; the loop ends at the deadline.\<close>

fun set_until :: "'r redis_api \<Rightarrow> string \<Rightarrow> string \<Rightarrow> int \<Rightarrow> int \<Rightarrow> (link \<times> int) list \<Rightarrow> ('r, js_error, unit) comp" where
  "set_until R key token ttl deadline [] = m_throw lock_timeout"
| "set_until R key token ttl deadline ((l, t) # rest) =
     (if \<not> t < deadline then m_throw lock_timeout
      else (\<lambda>r. case redis_call l (r_setnx R t key token (ttl * 1000)) r of
             (Inl e, r') \<Rightarrow> (Inl DistributedIdempotencyLockUnavailableError, r')
           | (Inr ok, r') \<Rightarrow> if ok then (Inr (), r') else set_until R key token ttl deadline rest r'))"

definition acquireDistributedIdempotencyLock :: "'r redis_api \<Rightarrow> redis_side \<Rightarrow> idem_scope \<Rightarrow> ('r, js_error, unit) comp" where
  "acquireDistributedIdempotencyLock R rd k =
     (if rd_conn rd = Unreachable then m_throw DistributedIdempotencyLockUnavailableError
      else set_until R (buildDistributedIdempotencyLockKey k) (rd_token rd) (rd_ttlSeconds rd)
        (rd_now rd + rd_acquireTimeoutMs rd) (rd_tries rd))"

definition releaseDistributedIdempotencyLock :: "'r redis_api \<Rightarrow> redis_side \<Rightarrow> idem_scope \<Rightarrow> 'r \<Rightarrow> 'r" where
  "releaseDistributedIdempotencyLock R rd k r =
     snd (redis_call (fst (rd_release rd))
       (RELEASE_SCRIPT R (snd (rd_release rd)) (buildDistributedIdempotencyLockKey k) (rd_token rd)) r)"

text \<open>Which deployments skip the lock: \<open>DATA_STORE\<close> of the environment and of the configuration, and whether
  \<open>REDIS_URL\<close> is set.\<close>

definition skips_redis :: "string option \<Rightarrow> string \<Rightarrow> bool \<Rightarrow> bool" where
  "skips_redis envStore cfgStore redisConfigured =
     (let isPostgres = (envStore = Some ''postgres'' \<or> cfgStore = ''postgres'');
          isMemory = (\<not> isPostgres \<and> (cfgStore = ''memory'' \<or> envStore = Some ''memory''))
      in isMemory \<or> \<not> redisConfigured)"

definition withDistributedIdempotencyLock ::
  "'r redis_api \<Rightarrow> redis_side \<Rightarrow> bool \<Rightarrow> idem_scope \<Rightarrow> ('b, 'c, 'r, 'a) handling \<Rightarrow> ('b, 'c, 'r, 'a) handling" where
  "withDistributedIdempotencyLock R rd skip k fn =
     (if skip then fn
      else m_then (m_zoom h_redis h_redis_update (acquireDistributedIdempotencyLock R rd k))
        (\<lambda>s. case fn s of (r, s') \<Rightarrow> (r, s'\<lparr>h_redis := releaseDistributedIdempotencyLock R rd k (h_redis s')\<rparr>)))"

subsection \<open>Bets\<close>

datatype bet_input = UpDownInput string rat PredictionSide | PrecisionInput string rat rat

record bet_response =
  br_message :: string
  br_state :: string
  br_betId :: string
  br_status :: BetStatus
  br_txHash :: "string option"

record 'c bet_env =
  be_store :: data_store
  be_arith :: arith
  be_client :: "'c xelma_client"
  be_stub :: bool
  be_now :: int
  be_roundId :: "string option"

definition placeBetRoute :: "'c bet_env \<Rightarrow> bet_input \<Rightarrow> ('c app, js_error, bet_result) comp" where
  "placeBetRoute env input =
     (case input of
        UpDownInput address amount side \<Rightarrow>
          recordUpDownBet (be_store env) (be_arith env) (be_client env) (be_stub env) (be_now env) address amount side (be_roundId env)
      | PrecisionInput address amount price \<Rightarrow>
          recordPrecisionBet (be_store env) (be_arith env) (be_client env) (be_stub env) (be_now env) address amount price (be_roundId env))"

definition toBetResponseData :: "bet_input \<Rightarrow> bet_result \<Rightarrow> bet_response" where
  "toBetResponseData input result =
     (let stub = (bt_state result = ''stub'');
          label = (case input of PrecisionInput _ _ _ \<Rightarrow> ''Precision bet'' | _ \<Rightarrow> ''Bet'')
      in \<lparr>br_message = (if stub then label @ '' recorded (stub)'' else label @ '' placed on-chain''),
          br_state = bt_state result, br_betId = bt_betId result, br_status = bt_status result,
          br_txHash = (if truthy (bt_txHash result) then bt_txHash result else None)\<rparr>)"

definition bet_operation :: "'c bet_env \<Rightarrow> bet_input \<Rightarrow> ('c app, js_error, bet_response) comp" where
  "bet_operation env input =
     m_bind (placeBetRoute env input) (\<lambda>result.
     m_then (emit (InvalidateNamespace ''bets''))
     (m_then (emit (InvalidateNamespace ''rounds''))
     (m_then (emit (InvalidateNamespace ''leaderboard''))
     (m_then (emit (InvalidateNamespace ''stats''))
       (m_return (toBetResponseData input result))))))"

definition IDEMPOTENCY_TTL_HOURS :: int where
  "IDEMPOTENCY_TTL_HOURS = 24"

definition executeBet ::
  "js_lib \<Rightarrow> bool \<Rightarrow> 'r redis_api \<Rightarrow> redis_side \<Rightarrow> bool \<Rightarrow> 'c bet_env \<Rightarrow> idem_request \<Rightarrow> bet_input \<Rightarrow>
   (bet_response, 'c, 'r, int \<times> bet_response option) handling" where
  "executeBet L mem R rd skip env rq input =
     m_catch
       (let run = execute L mem IDEMPOTENCY_TTL_HOURS \<lparr>ttlMinutes = None, ttlHours = Some IDEMPOTENCY_TTL_HOURS\<rparr> rq
              (bet_operation env input)
        in if truthy (rq_key rq) then withDistributedIdempotencyLock R rd skip (rq_scope rq) run else run)
       (fail_phase mem rq)"

subsection \<open>Predictions\<close>

record prediction_view =
  pv_id :: string
  pv_roundId :: string
  pv_userId :: string
  pv_amount :: rat
  pv_side :: "PredictionSide option"
  pv_priceRange :: json
  pv_createdAt :: int

definition buildSubmitPredictionResponse :: "arith \<Rightarrow> prediction_row \<Rightarrow> prediction_view" where
  "buildSubmitPredictionResponse E p = \<lparr>pv_id = p_id p, pv_roundId = p_roundId p, pv_userId = p_userId p,
     pv_amount = serializeMoney E (Some (p_amount p)), pv_side = p_side p, pv_priceRange = p_priceRange p,
     pv_createdAt = p_createdAt p\<rparr>"

definition prediction_operation ::
  "arith \<Rightarrow> 'c xelma_client \<Rightarrow> int \<Rightarrow> string \<Rightarrow> string \<Rightarrow> rat \<Rightarrow> PredictionSide option \<Rightarrow> UserPriceRange option \<Rightarrow>
   ('c app, js_error, prediction_view) comp" where
  "prediction_operation E cl now userId roundId amount side priceRange =
     m_bind (submitPrediction E cl now userId roundId amount side priceRange) (\<lambda>p.
       m_return (buildSubmitPredictionResponse E p))"

definition submitRoute ::
  "js_lib \<Rightarrow> bool \<Rightarrow> idem_request \<Rightarrow> ('c app, js_error, prediction_view) comp \<Rightarrow>
   (prediction_view, 'c, 'r, int \<times> prediction_view option) handling" where
  "submitRoute L mem rq op =
     m_catch (execute L mem 24 \<lparr>ttlMinutes = None, ttlHours = None\<rparr> rq op) (fail_phase mem rq)"

subsection \<open>A request whose key is taken\<close>

lemma answer_cases:
  "answer h rec = (if requestHash rec = h then fresh\<lparr>isIdempotent := True, cachedResponse := Some (toCachedResponse rec)\<rparr>
     else refused reused_error)"
  by (simp add: answer_def)

lemmas result_defs = refused_def fresh_def taken_def in_progress_error_def reused_error_def IDEMPOTENCY_STORE_UNAVAILABLE_def truthy_def

lemma lock_phase_calm:
  assumes "calm mem (rq_scope rq) P d (h_idem s)" and "truthy (rq_key rq)" and "lock_phase L mem ttl rq s = (r, s')"
  shows "\<exists>w. s' = s\<lparr>h_idem := w\<rparr> \<and> calm mem (rq_scope rq) P d w" and "r \<noteq> Inr None"
    and "r = Inr (Some reply) \<Longrightarrow> \<exists>rec. P rec \<and> responseStatus rec \<noteq> 102 \<and> requestHash rec = hashRequestBody L (rq_body rq) \<and>
      reply = toCachedResponse rec"
proof -
  obtain a w where a: "acquireIdempotencyLock L mem (rq_scope rq) (rq_body rq) ttl (h_idem s) = (Inr a, w)"
    "calm mem (rq_scope rq) P d w" "turned_away P (hashRequestBody L (rq_body rq)) a"
    using calm_acquire [OF assms(1)] by blast
  have "(\<exists>w. s' = s\<lparr>h_idem := w\<rparr> \<and> calm mem (rq_scope rq) P d w) \<and> r \<noteq> Inr None \<and>
    (\<forall>reply. r = Inr (Some reply) \<longrightarrow> (\<exists>rec. P rec \<and> responseStatus rec \<noteq> 102 \<and>
      requestHash rec = hashRequestBody L (rq_body rq) \<and> reply = toCachedResponse rec))"
  proof (cases "isValidIdempotencyKey (the (rq_key rq))")
    case False
    with assms show ?thesis by (auto simp: lock_phase_def m_throw_def intro!: exI [of _ "h_idem s"])
  next
    case True
    with assms(2,3) a show ?thesis unfolding turned_away_def
      by (elim disjE exE conjE)
        (auto simp: lock_phase_def on_idem_def m_zoom_def m_bind_def m_throw_def m_return_def answer_cases result_defs
          toCachedResponse_def split: if_splits)
  qed
  then show "\<exists>w. s' = s\<lparr>h_idem := w\<rparr> \<and> calm mem (rq_scope rq) P d w" "r \<noteq> Inr None"
    "r = Inr (Some reply) \<Longrightarrow> \<exists>rec. P rec \<and> responseStatus rec \<noteq> 102 \<and> requestHash rec = hashRequestBody L (rq_body rq) \<and>
      reply = toCachedResponse rec" by blast+
qed

text \<open>What such a request leaves behind.\<close>

definition replayed ::
  "js_lib \<Rightarrow> bool \<Rightarrow> idem_request \<Rightarrow> ('b idem_record \<Rightarrow> bool) \<Rightarrow> int \<Rightarrow> ('b, 'c, 'r) handler \<Rightarrow> js_error + (int \<times> 'b option) \<Rightarrow>
   ('b, 'c, 'r) handler \<Rightarrow> bool" where
  "replayed L mem rq P d s r s' \<longleftrightarrow> h_app s' = h_app s \<and> calm mem (rq_scope rq) P d (h_idem s') \<and>
     \<not> h_lockAcquired s' \<and> \<not> h_operationCompleted s' \<and>
     (\<forall>reply. r = Inr reply \<longrightarrow> (\<exists>rec. P rec \<and> responseStatus rec \<noteq> 102 \<and>
        requestHash rec = hashRequestBody L (rq_body rq) \<and> reply = toCachedResponse rec))"

lemma execute_calm:
  assumes "calm mem (rq_scope rq) P d (h_idem s)" and "truthy (rq_key rq)" and "\<not> h_lockAcquired s" and "\<not> h_operationCompleted s"
  shows "case execute L mem ttl cfg rq op s of (r, s') \<Rightarrow> replayed L mem rq P d s r s'"
proof -
  obtain r s' where lp: "lock_phase L mem ttl rq s = (r, s')" by fastforce
  note * = lock_phase_calm [OF assms(1,2) lp]
  from *(1) obtain w where s': "s' = s\<lparr>h_idem := w\<rparr>" "calm mem (rq_scope rq) P d w" by blast
  show ?thesis
  proof (cases r)
    case (Inl e)
    with lp s' assms show ?thesis by (simp add: execute_def m_bind_def replayed_def)
  next
    case (Inr early)
    with *(2) obtain reply where "early = Some reply" by auto
    with Inr lp s' assms *(3) [of reply] show ?thesis
      by (simp add: execute_def m_bind_def m_return_def replayed_def del: split_paired_All)
  qed
qed

lemma replayed_redis: "replayed L mem rq P d (s\<lparr>h_redis := x\<rparr>) r s' \<Longrightarrow> replayed L mem rq P d s r (s'\<lparr>h_redis := y\<rparr>)"
  by (simp add: replayed_def)

lemma fail_replayed:
  assumes "case m s of (r, s') \<Rightarrow> replayed L mem rq P d s r s'"
  shows "case m_catch m (fail_phase mem rq) s of (r, s') \<Rightarrow> replayed L mem rq P d s r s'"
  using assms by (auto simp: m_catch_def fail_phase_def m_bind_def m_gets_def m_then_def m_return_def m_throw_def replayed_def
      split: prod.splits sum.splits)

lemma redis_replayed:
  assumes "\<And>x. case fn (s\<lparr>h_redis := x\<rparr>) of (r, s') \<Rightarrow> replayed L mem rq P d (s\<lparr>h_redis := x\<rparr>) r s'"
    and "calm mem (rq_scope rq) P d (h_idem s)" and "\<not> h_lockAcquired s" and "\<not> h_operationCompleted s"
  shows "case withDistributedIdempotencyLock R rd skip k fn s of (r, s') \<Rightarrow> replayed L mem rq P d s r s'"
proof (cases skip)
  case True
  with assms(1) [of "h_redis s"] show ?thesis by (simp add: withDistributedIdempotencyLock_def)
next
  case False
  obtain a x where a: "acquireDistributedIdempotencyLock R rd k (h_redis s) = (a, x)" by fastforce
  obtain r s' where fn: "fn (s\<lparr>h_redis := x\<rparr>) = (r, s')" by fastforce
  have "replayed L mem rq P d (s\<lparr>h_redis := x\<rparr>) r s'" using assms(1) [of x] fn by simp
  from replayed_redis [OF this] False a fn assms(2,3,4) show ?thesis
    by (cases a) (auto simp: withDistributedIdempotencyLock_def m_then_def m_bind_def m_zoom_def replayed_def)
qed

subsection \<open>A request that takes its key\<close>

text \<open>Records that live until \<open>d\<close>, and a world in which only the owner of scope \<open>k\<close> releases it.\<close>

definition until :: "int \<Rightarrow> 'b idem_record \<Rightarrow> bool" where
  "until d rec \<longleftrightarrow> d \<le> expiresAt rec"

definition quiet :: "bool \<Rightarrow> idem_scope \<Rightarrow> int \<Rightarrow> int \<Rightarrow> 'b idem_world \<Rightarrow> bool" where
  "quiet mem k t0 d w \<longleftrightarrow> scoped k \<and> store_inv mem (iw_store w) \<and> t0 \<le> iw_clock w \<and> iw_clock w \<le> d \<and>
     (\<forall>g\<in>set (iw_gaps w). t0 \<le> g_now g \<and> g_now g \<le> d \<and> list_all (spares k (until d) d) (g_steps g))"

lemma quiet_calm: "quiet mem k t0 d w \<Longrightarrow> calm mem k (until d) d w \<longleftrightarrow> keeps mem k (until d) (iw_store w)"
  by (auto simp: quiet_def calm_def until_def)

lemma quiet_pause [preserve_intros]: "preserves (quiet mem k t0 d) (pause mem)"
proof (rule preservesI)
  fix w assume q: "quiet mem k t0 d w"
  have "store_inv mem (iw_store (snd (pause mem w)))" using preservesD [OF inv_world [of mem], of w] q by (simp add: quiet_def)
  with q show "quiet mem k t0 d (snd (pause mem w))" by (auto simp: quiet_def pause_def split: list.splits)
qed

lemma quiet_db_call: "preserves (store_inv False) f \<Longrightarrow> preserves (quiet False k t0 d) (db_call f)"
  unfolding db_call_def
  by (intro preserve_intros) (auto simp: preserves_def m_zoom_def quiet_def split: prod.split)

lemma quiet_poll_db [preserve_intros]: "preserves (quiet False k t0 d) (poll_db k' h n)"
proof (induction n)
  case 0
  then show ?case unfolding poll_db.simps by (rule preserves_return)
next
  case (Suc n)
  then show ?case unfolding poll_db.simps by (intro preserve_intros quiet_db_call)
qed

lemma quiet_insert_lock [preserve_intros]: "preserves (quiet False k t0 d) (insert_lock k' h ex)"
  unfolding insert_lock_def
  by (intro preserve_intros quiet_db_call) (auto split: js_error.split intro!: preserve_intros)

lemma quiet_pass [preserve_intros]: "preserves (quiet False k t0 d) (acquire_pass k' h ex)"
  unfolding acquire_pass_def by (intro preserve_intros quiet_db_call)

lemma quiet_memory [preserve_intros]: "preserves (quiet True k t0 d) (getMemoryRecord k')"
proof (rule preservesI)
  fix w assume q: "quiet True k t0 d w"
  then have "store_inv True (mem_delete k' (iw_store w))"
    using st.inv_remove [of True "iw_store w" k'] by (simp add: quiet_def st_remove_def)
  with q show "quiet True k t0 d (snd (getMemoryRecord k' w))" by (simp add: getMemoryRecord_def quiet_def split: option.split)
qed

lemma quiet_poll_mem [preserve_intros]: "preserves (quiet True k t0 d) (poll_mem k' h n)"
proof (induction n)
  case 0
  then show ?case unfolding poll_mem.simps by (rule preserves_return)
next
  case (Suc n)
  then show ?case unfolding poll_mem.simps by (intro preserve_intros)
qed

text \<open>A call that does not take the lock hands out a response or an error.\<close>

definition settles :: "'b check_result \<Rightarrow> bool" where
  "settles r \<longleftrightarrow> isIdempotent r \<and> (cachedResponse r \<noteq> None \<or> truthy (ic_error r)) \<and> \<not> lockAcquired r"

lemma settles_refused [simp]: "settles (refused in_progress_error)" "settles (refused IDEMPOTENCY_STORE_UNAVAILABLE)"
  by (simp_all add: settles_def result_defs)

lemma settles_answer [simp]: "settles (answer h rec)"
  by (simp add: settles_def answer_cases result_defs)

lemma poll_db_settles: "poll_db k h n w = (Inr r, w') \<Longrightarrow> settles r"
  by (induction n arbitrary: w) (auto simp: m_bind_def m_return_def split: prod.splits sum.splits option.splits if_splits)

lemma poll_mem_settles: "poll_mem k h n w = (Inr r, w') \<Longrightarrow> settles r"
  by (induction n arbitrary: w)
    (auto simp: m_then_def m_bind_def m_return_def split: prod.splits sum.splits option.splits if_splits)

lemma insert_takes:
  assumes "insert_lock k h ex w = (Inr (Some r), w')" and "d \<le> ex"
    and "store_inv False (iw_store w')"
  shows "r = taken \<and> keeps False k (until d) (iw_store w')"
proof -
  obtain up w1 where p: "pause False w = (Inr up, w1)" by (cases "iw_gaps w") (auto simp: pause_def)
  have up: "up" using assms(1) p
    by (auto simp: insert_lock_def db_call_def m_catch_def m_then_def m_bind_def m_return_def m_throw_def split: if_splits)
  have none: "lookup False k (iw_store w1) = None"
  proof (rule ccontr)
    assume "lookup False k (iw_store w1) \<noteq> None"
    then have "\<exists>r\<in>set (dbRows (iw_store w1)). ik_scope r = k" by (auto simp: lookup_def dest: find_Some_set)
    with assms(1) p up show False
      by (auto simp: insert_lock_def db_call_def m_catch_def m_then_def m_bind_def m_zoom_def m_return_def db_create_def)
  qed
  with assms(1) p up db_create_absent [OF none] have "r = taken" and w': "iw_store w' = st_put False k (lock_record h ex) (iw_store w1)"
    by (auto simp: insert_lock_def db_call_def m_catch_def m_then_def m_bind_def m_zoom_def m_return_def)
  moreover have "lookup False k (iw_store w') = Some (lock_record h ex)"
    unfolding w' by (simp add: st_put_def lookup_upsert)
  ultimately show ?thesis using assms(2,3) by (simp add: keeps_def until_def lock_record_def)
qed

definition outcome :: "bool \<Rightarrow> idem_scope \<Rightarrow> int \<Rightarrow> 'b check_result \<Rightarrow> 'b idem_world \<Rightarrow> bool" where
  "outcome mem k d r w \<longleftrightarrow> settles r \<or> r = taken \<and> keeps mem k (until d) (iw_store w)"

lemma pass_takes:
  assumes q: "quiet False k t0 d w" and "acquire_pass k h ex w = (Inr (Some r), w')" and "d \<le> ex"
  shows "outcome False k d r w'"
proof -
  have inv: "store_inv False (iw_store w')" using preservesD [OF quiet_pass q, of k h ex] assms(2) by (simp add: quiet_def)
  have insert: "outcome False k d r w'" if "insert_lock k h ex v = (Inr (Some r), w')" for v
    using insert_takes [OF that assms(3) inv] by (simp add: outcome_def)
  from assms(2) show ?thesis
    by (auto simp: acquire_pass_def m_catch_def m_then_def m_bind_def m_return_def m_gets_def dest!: insert poll_db_settles
        split: prod.splits sum.splits option.splits if_splits) (auto simp: outcome_def)
qed

lemma acquire_db_takes:
  "quiet False k t0 d w \<Longrightarrow> acquire_db k h ttl n w = (Inr r, w') \<Longrightarrow> d \<le> t0 + ttl * 60 * 60 * 1000 \<Longrightarrow>
   outcome False k d r w' \<and> quiet False k t0 d w'"
proof (induction n arbitrary: w)
  case 0
  then show ?case by (simp add: m_throw_def)
next
  case (Suc n)
  let ?ex = "iw_clock w + ttl * 60 * 60 * 1000"
  have ex: "d \<le> ?ex" using Suc.prems(1,3) by (simp add: quiet_def)
  obtain a w1 where pass: "acquire_pass k h ?ex w = (a, w1)" by fastforce
  have q1: "quiet False k t0 d w1" using preservesD [OF quiet_pass Suc.prems(1), of k h ?ex] pass by simp
  from pass_progress [OF _ pass] Suc.prems(1) obtain x where x: "a = Inr x" by (auto simp: quiet_def)
  show ?case
  proof (cases x)
    case None
    with Suc.IH [OF q1 _ Suc.prems(3)] Suc.prems(2) pass x show ?thesis by (simp add: m_bind_def m_gets_def)
  next
    case (Some res)
    with pass_takes [OF Suc.prems(1) _ ex, of h res w1] Suc.prems(2) pass x q1 show ?thesis
      by (simp add: m_bind_def m_gets_def m_return_def)
  qed
qed

lemma acquire_takes:
  assumes q: "quiet mem k t0 d w" and run: "acquireIdempotencyLock L mem k body ttl w = (Inr r, w')"
    and d: "d \<le> t0 + ttl * 60 * 60 * 1000"
  shows "outcome mem k d r w' \<and> quiet mem k t0 d w'"
proof (cases mem)
  case False
  then have "acquire_db k (hashRequestBody L body) ttl (Suc (length (iw_gaps w))) w = (Inr r, w')"
    using run by (simp add: acquireIdempotencyLock_def Let_def m_bind_def m_gets_def del: acquire_db.simps)
  from acquire_db_takes [OF _ this d] q False show ?thesis by simp
next
  case True
  let ?h = "hashRequestBody L body" and ?ex = "iw_clock w + ttl * 60 * 60 * 1000"
  have "\<exists>x w1. getMemoryRecord k w = (Inr x, w1)" by (simp add: getMemoryRecord_def split: option.split)
  then obtain x w1 where g: "getMemoryRecord k w = (Inr x, w1)" by blast
  have q1: "quiet True k t0 d w1" using preservesD [OF quiet_memory, of k t0 d w k] q True g by simp
  show ?thesis
  proof (cases x)
    case None
    have "quiet True k t0 d (w1\<lparr>iw_store := st_put True k (lock_record ?h ?ex) (iw_store w1)\<rparr>)"
      using q1 st.inv_put [of True "iw_store w1"] by (simp add: quiet_def)
    moreover have "lookup True k (st_put True k (lock_record ?h ?ex) (iw_store w1)) = Some (lock_record ?h ?ex)"
      using q1 by (simp add: st.look_put quiet_def)
    moreover have "d \<le> ?ex" using q d by (simp add: quiet_def)
    ultimately show ?thesis using run True g None
      by (auto simp: acquireIdempotencyLock_def Let_def acquire_mem_def m_bind_def m_gets_def m_then_def m_modify_def m_return_def
          st_put_def outcome_def keeps_def until_def lock_record_def quiet_def)
  next
    case (Some rec)
    have "quiet True k t0 d w'" if "poll_mem k ?h 20 w1 = (Inr r, w')"
      using preservesD [OF quiet_poll_mem q1, of k ?h 20] that by simp
    with run True g Some q1 show ?thesis
      by (auto simp: acquireIdempotencyLock_def Let_def acquire_mem_def m_bind_def m_gets_def m_return_def outcome_def
          dest: poll_mem_settles split: if_splits)
  qed
qed

lemma lock_phase_takes:
  assumes "quiet mem (rq_scope rq) t0 d (h_idem s)" and "truthy (rq_key rq)" and "d \<le> t0 + ttl * 60 * 60 * 1000"
    and "lock_phase L mem ttl rq s = (Inr None, s')"
  shows "h_lockAcquired s' \<and> h_app s' = h_app s \<and> calm mem (rq_scope rq) (until d) d (h_idem s') \<and>
    quiet mem (rq_scope rq) t0 d (h_idem s') \<and> h_operationCompleted s' = h_operationCompleted s"
proof -
  obtain a w where a: "acquireIdempotencyLock L mem (rq_scope rq) (rq_body rq) ttl (h_idem s) = (a, w)" by fastforce
  obtain r where r: "a = Inr r"
    using assms(2,4) a by (cases a) (auto simp: lock_phase_def on_idem_def m_zoom_def m_bind_def m_throw_def split: if_splits)
  from acquire_takes [OF assms(1) _ assms(3), of L "rq_body rq" r w] a r
  have o: "outcome mem (rq_scope rq) d r w" "quiet mem (rq_scope rq) t0 d w" by auto
  show ?thesis
  proof (cases "settles r")
    case True
    with assms(2,4) a r show ?thesis
      by (auto simp: settles_def lock_phase_def on_idem_def m_zoom_def m_bind_def m_throw_def m_return_def split: if_splits)
  next
    case False
    with o have t: "r = taken" "keeps mem (rq_scope rq) (until d) (iw_store w)" by (auto simp: outcome_def)
    with assms(2,4) a r o(2) quiet_calm [OF o(2)] show ?thesis
      by (auto simp: lock_phase_def on_idem_def m_zoom_def m_bind_def m_throw_def m_return_def m_then_def m_modify_def result_defs
          split: if_splits)
  qed
qed

text \<open>Storing the result keeps the record, whether or not the store answers.\<close>

lemma store_keeps:
  assumes "calm mem k (until d) d w" and "quiet mem k t0 d w" and "d \<le> t0 + ttl_minutes cfg * 60 * 1000"
    and "storeIdempotencyResult L mem k body status resp cfg w = (r, w')"
  shows "calm mem k (until d) d w'"
proof (cases mem)
  case True
  with assms st.look_put [of True "iw_store w" k k] st.inv_put [of True "iw_store w" k] show ?thesis
    by (auto simp: storeIdempotencyResult_def Let_def m_bind_def m_gets_def m_modify_def calm_def keeps_def quiet_def until_def st_put_def)
next
  case False
  let ?rec = "\<lparr>requestHash = hashRequestBody L body, responseStatus = status, responseBody = Some resp,
      expiresAt = iw_clock w + ttl_minutes cfg * 60 * 1000\<rparr>"
  obtain up w1 where p: "pause False w = (Inr up, w1)" "calm False k (until d) d w1"
    using calm_pause [OF assms(1)] False by auto
  have "keeps False k (until d) (st_put False k ?rec (iw_store w1))"
    using p(2) assms(2,3) by (auto simp: calm_def keeps_def st.look_put st.inv_put until_def quiet_def)
  then show ?thesis using assms(4) False p
    by (cases up) (auto simp: storeIdempotencyResult_def Let_def m_bind_def m_gets_def m_catch_def m_throw_def db_call_def m_zoom_def
        st_put_def calm_def split: prod.splits sum.splits)
qed

lemma operate_completes:
  assumes "calm mem (rq_scope rq) (until d) d (h_idem s)" and "quiet mem (rq_scope rq) t0 d (h_idem s)" and "h_lockAcquired s"
    and "d \<le> t0 + ttl_minutes cfg * 60 * 1000" and "operate L mem cfg rq op s = (r, s')"
  shows "calm mem (rq_scope rq) (until d) d (h_idem s') \<and> h_lockAcquired s'"
proof -
  obtain a x where a: "op (h_app s) = (a, x)" by fastforce
  show ?thesis
  proof (cases a)
    case (Inl e)
    with a assms show ?thesis by (auto simp: operate_def on_app_def m_zoom_def m_bind_def)
  next
    case (Inr resp)
    obtain b w where b: "storeIdempotencyResult L mem (rq_scope rq) (rq_body rq) 200 resp cfg (h_idem s) = (b, w)" by fastforce
    from store_keeps [OF assms(1,2,4) b] a b Inr assms(1,3,5) show ?thesis
      by (cases b) (auto simp: operate_def on_app_def on_idem_def m_zoom_def m_bind_def m_then_def m_modify_def m_gets_def m_return_def
          split: if_splits)
  qed
qed

lemma execute_completes:
  assumes q: "quiet mem (rq_scope rq) t0 d (h_idem s)" and key: "truthy (rq_key rq)" and "\<not> h_operationCompleted s"
    and "d \<le> t0 + ttl * 60 * 60 * 1000" and "d \<le> t0 + ttl_minutes cfg * 60 * 1000"
    and run: "execute L mem ttl cfg rq op s = (r, s')" and done': "h_operationCompleted s'"
  shows "calm mem (rq_scope rq) (until d) d (h_idem s')"
proof -
  obtain a s1 where lp: "lock_phase L mem ttl rq s = (a, s1)" by fastforce
  have flag: "h_operationCompleted s1 = h_operationCompleted s"
    using lp by (auto simp: lock_phase_def on_idem_def m_zoom_def m_bind_def m_throw_def m_return_def m_then_def m_modify_def
        split: if_splits prod.splits sum.splits)
  have a: "a = Inr None"
    using run lp flag assms(3) done' by (auto simp: execute_def m_bind_def m_return_def split: sum.splits option.splits)
  from lock_phase_takes [OF q key assms(4), of L s1] lp a operate_completes [of mem rq d s1 t0 cfg L op r s'] run assms(5)
  show ?thesis by (simp add: execute_def m_bind_def)
qed

lemma fail_phase_completed [simp]: "h_operationCompleted (snd (fail_phase mem rq e v)) = h_operationCompleted v"
  by (simp add: fail_phase_def on_idem_def m_zoom_def m_bind_def m_gets_def m_then_def m_return_def m_throw_def
      split: prod.split sum.split)

lemma fail_phase_after [simp]: "h_operationCompleted v \<Longrightarrow> snd (fail_phase mem rq e v) = v"
  by (simp add: fail_phase_def m_bind_def m_gets_def m_then_def m_return_def m_throw_def)

lemma executeBet_completes:
  assumes q: "quiet mem (rq_scope rq) t0 d (h_idem s)" and key: "truthy (rq_key rq)" and "\<not> h_operationCompleted s"
    and d: "d \<le> t0 + IDEMPOTENCY_TTL_HOURS * 60 * 60 * 1000"
    and run: "executeBet L mem R rd skip env rq input s = (r, s')" and comp: "h_operationCompleted s'"
  shows "calm mem (rq_scope rq) (until d) d (h_idem s')"
proof -
  let ?run = "execute L mem IDEMPOTENCY_TTL_HOURS \<lparr>ttlMinutes = None, ttlHours = Some IDEMPOTENCY_TTL_HOURS\<rparr> rq (bet_operation env input)"
  have ttl: "d \<le> t0 + ttl_minutes \<lparr>ttlMinutes = None, ttlHours = Some IDEMPOTENCY_TTL_HOURS\<rparr> * 60 * 1000"
    using d by (simp add: ttl_minutes_def)
  have inner: "calm mem (rq_scope rq) (until d) d (h_idem v')" if "?run (s\<lparr>h_redis := x\<rparr>) = (a, v')" "h_operationCompleted v'" for x a v'
    by (rule execute_completes [OF _ key _ d ttl that]) (use q assms(3) in simp_all)
  define m where "m = withDistributedIdempotencyLock R rd skip (rq_scope rq) ?run"
  have m: "calm mem (rq_scope rq) (until d) d (h_idem v')" if "m s = (a, v')" "h_operationCompleted v'" for a v'
  proof (cases skip)
    case True
    with that inner [of "h_redis s" a v'] show ?thesis by (simp add: m_def withDistributedIdempotencyLock_def)
  next
    case False
    obtain b x where b: "acquireDistributedIdempotencyLock R rd (rq_scope rq) (h_redis s) = (b, x)" by fastforce
    obtain c v where c: "?run (s\<lparr>h_redis := x\<rparr>) = (c, v)" by fastforce
    with that b inner [of x c v] False assms(3) show ?thesis
      by (cases b) (auto simp: m_def withDistributedIdempotencyLock_def m_then_def m_bind_def m_zoom_def)
  qed
  obtain a v where a: "m s = (a, v)" by fastforce
  have whole: "(r, s') = m_catch m (fail_phase mem rq) s" using run key by (simp add: executeBet_def Let_def m_def)
  have v: "h_operationCompleted v"
    using whole a comp by (cases a) (auto simp: m_catch_def dest: arg_cong [of _ _ "\<lambda>p. h_operationCompleted (snd p)"])
  have "s' = v" using whole a v by (cases a) (auto simp: m_catch_def dest: arg_cong [of _ _ snd])
  with m [OF a v] show ?thesis by simp
qed

subsection \<open>Properties\<close>

text \<open>C24. A bet request whose idempotency key is taken does nothing: as long as the record of the key lives,
  whatever other requests do between its steps (short of the owner releasing the key), and however the
  database and Redis behave, the request leaves the books and the chain alone, keeps the record, and answers
  only with the stored response of a request with the same body; everything else is an error.\<close>

theorem bet_key_respected:
  assumes "calm mem (rq_scope rq) P d (h_idem s)" and "truthy (rq_key rq)"
    and "\<not> h_lockAcquired s" and "\<not> h_operationCompleted s"
  shows "case executeBet L mem R rd skip env rq input s of (r, s') \<Rightarrow>
    h_app s' = h_app s \<and> calm mem (rq_scope rq) P d (h_idem s') \<and>
    (\<forall>reply. r = Inr reply \<longrightarrow> (\<exists>rec. P rec \<and> responseStatus rec \<noteq> 102 \<and>
       requestHash rec = hashRequestBody L (rq_body rq) \<and> reply = toCachedResponse rec))"
proof -
  let ?run = "execute L mem IDEMPOTENCY_TTL_HOURS \<lparr>ttlMinutes = None, ttlHours = Some IDEMPOTENCY_TTL_HOURS\<rparr> rq (bet_operation env input)"
  have run: "case ?run (s\<lparr>h_redis := x\<rparr>) of (r, s') \<Rightarrow> replayed L mem rq P d (s\<lparr>h_redis := x\<rparr>) r s'" for x
    by (rule execute_calm) (use assms in simp_all)
  have "case executeBet L mem R rd skip env rq input s of (r, s') \<Rightarrow> replayed L mem rq P d s r s'"
    unfolding executeBet_def Let_def using assms(2)
    by (intro fail_replayed) (simp add: redis_replayed [OF run assms(1,3,4)])
  then show ?thesis by (simp add: replayed_def case_prod_unfold del: split_paired_All)
qed

text \<open>C7. A bet is placed at most once per idempotency key.  When a bet request with a key has recorded its bet,
  even if storing the answer failed afterwards, no later request with that key changes the books or calls the
  chain for 24 hours, whatever its body and whatever other requests, the database and Redis do.\<close>

theorem bet_at_most_once:
  assumes "quiet mem (rq_scope rq) t0 d (h_idem s)" and "d \<le> t0 + IDEMPOTENCY_TTL_HOURS * 60 * 60 * 1000"
    and "truthy (rq_key rq)" and "\<not> h_operationCompleted s"
    and "executeBet L mem R rd skip env rq input s = (r, s1)" and "h_operationCompleted s1"
    and "quiet mem (rq_scope rq) t0 d (h_idem s2)" and "iw_store (h_idem s2) = iw_store (h_idem s1)"
    and "rq_scope rq2 = rq_scope rq" and "truthy (rq_key rq2)" and "\<not> h_lockAcquired s2" and "\<not> h_operationCompleted s2"
  shows "h_app (snd (executeBet L2 mem R rd2 skip env2 rq2 input2 s2)) = h_app s2"
proof -
  have "calm mem (rq_scope rq) (until d) d (h_idem s1)" by (rule executeBet_completes [OF assms(1,3,4,2,5,6)])
  then have "keeps mem (rq_scope rq) (until d) (iw_store (h_idem s2))" using assms(8) by (simp add: calm_def)
  then have calm: "calm mem (rq_scope rq2) (until d) d (h_idem s2)" using quiet_calm [OF assms(7)] assms(9) by simp
  let ?run = "execute L2 mem IDEMPOTENCY_TTL_HOURS \<lparr>ttlMinutes = None, ttlHours = Some IDEMPOTENCY_TTL_HOURS\<rparr> rq2 (bet_operation env2 input2)"
  have run: "case ?run (s2\<lparr>h_redis := x\<rparr>) of (r, s') \<Rightarrow> replayed L2 mem rq2 (until d) d (s2\<lparr>h_redis := x\<rparr>) r s'" for x
    by (rule execute_calm) (use assms calm in simp_all)
  have "case executeBet L2 mem R rd2 skip env2 rq2 input2 s2 of (r, s') \<Rightarrow> replayed L2 mem rq2 (until d) d s2 r s'"
    unfolding executeBet_def Let_def using assms(10)
    by (intro fail_replayed) (simp add: redis_replayed [OF run calm assms(11,12)])
  then show ?thesis by (simp add: replayed_def case_prod_unfold)
qed

subsection \<open>Witnesses\<close>

definition demo_request :: idem_request where
  "demo_request = \<lparr>rq_user = ''u1'', rq_endpoint = ''/api/bets/up-down'', rq_key = Some ''key-0001'',
     rq_body = VObj [(''side'', VStr ''UP'')]\<rparr>"

definition demo_side :: redis_side where
  "demo_side = \<lparr>rd_conn = Works, rd_now = 0, rd_ttlSeconds = 30, rd_acquireTimeoutMs = 10000, rd_token = ''t'',
     rd_tries = [(Works, 0)], rd_release = (Works, 5)\<rparr>"

definition demo_env :: "unit bet_env" where
  "demo_env = \<lparr>be_store = Memory, be_arith = js_arith, be_client = lossy_client, be_stub = True, be_now = 1, be_roundId = None\<rparr>"

definition demo_handler :: "'b idem_store \<Rightarrow> int \<Rightarrow> ('b, unit, string \<Rightarrow> (string \<times> int) option) handler" where
  "demo_handler st now = \<lparr>h_idem = \<lparr>iw_store = st, iw_gaps = [], iw_clock = now\<rparr>, h_app = blank_app (),
     h_redis = (\<lambda>k. None), h_lockAcquired = False, h_operationCompleted = False\<rparr>"

lemma demo_scope: "rq_scope demo_request = (''u1'', ''/api/bets/up-down'', ''key-0001'')" "truthy (rq_key demo_request)"
  by (simp_all add: demo_request_def rq_scope_def truthy_def)

lemma demo_handler_sel [simp]:
  "h_idem (demo_handler st now) = \<lparr>iw_store = st, iw_gaps = [], iw_clock = now\<rparr>"
  "\<not> h_lockAcquired (demo_handler st now)" "\<not> h_operationCompleted (demo_handler st now)"
  by (simp_all add: demo_handler_def)

lemma demo_bet_recorded: "\<exists>resp x. bet_operation demo_env (UpDownInput ''G1'' 5 UP) (blank_app ()) = (Inr resp, x)"
proof -
  let ?body = "record_body js_arith True 1 UP_DOWN BM_UP_DOWN ''G1'' 5 (Some UP) None None
      (on_soroban (placeBet js_arith lossy_client 1 ''G1'' 5 (toChainSide UP)))"
  obtain r s' where run: "?body (blank_app ()) = (r, s')" by fastforce
  have "\<exists>b st h. r = Inr (Some b, st, h)"
    by (cases rule: record_body_cases [OF wf_blank_app run]) (simp_all add: resolveRoundId_def truthy_def m_gets_def)
  then show ?thesis using run
    by (auto simp: bet_operation_def placeBetRoute_def demo_env_def recordUpDownBet_def m_bind_def m_then_def tx_commit report_bet_eq
        emit_eq m_return_def)
qed

lemma demo_key_valid: "isValidIdempotencyKey (the (rq_key demo_request))"
  by (simp add: demo_request_def isValidIdempotencyKey_def less_eq_char_def)

lemma demo_redis: "\<exists>r. acquireDistributedIdempotencyLock map_redis demo_side k (\<lambda>k. None) = (Inr (), r)"
  by (simp add: acquireDistributedIdempotencyLock_def demo_side_def redis_call_def map_redis_def live_def)

lemma demo_bet_completed:
  "h_operationCompleted (snd (executeBet demo_lib True map_redis demo_side False demo_env demo_request (UpDownInput ''G1'' 5 UP)
     (demo_handler empty_store 0)))"
proof -
  let ?h = "hashRequestBody demo_lib (rq_body demo_request)"
  obtain resp x where op: "bet_operation demo_env (UpDownInput ''G1'' 5 UP) (blank_app ()) = (Inr resp, x)"
    using demo_bet_recorded by blast
  obtain r where r: "acquireDistributedIdempotencyLock map_redis demo_side (rq_scope demo_request) (\<lambda>k. None) = (Inr (), r)"
    using demo_redis by blast
  have "live_rec 0 (lookup True (rq_scope demo_request) (empty_store :: bet_response idem_store)) = None"
    "store_inv True (empty_store :: bet_response idem_store)"
    by (simp_all add: empty_store_def lookup_def mem_get_def live_rec_def store_inv_def)
  moreover have "scoped (rq_scope demo_request)" by (simp add: demo_scope scoped_def)
  ultimately obtain st where acq: "acquireIdempotencyLock demo_lib True (rq_scope demo_request) (rq_body demo_request) 24 (idle empty_store 0) =
      (Inr taken, idle (st :: bet_response idem_store) 0)"
    using acquire_idle [of True "empty_store :: bet_response idem_store" "rq_scope demo_request" demo_lib "rq_body demo_request" 24 0]
    by simp
  show ?thesis using op r acq
    by (simp add: executeBet_def Let_def demo_scope(2) demo_key_valid withDistributedIdempotencyLock_def execute_def lock_phase_def
        operate_def on_idem_def on_app_def m_zoom_def m_catch_def m_then_def m_bind_def m_return_def m_modify_def m_gets_def
        IDEMPOTENCY_TTL_HOURS_def store_idle demo_handler_def taken_def fresh_def truthy_def)
qed

theorem bet_at_most_once_witness:
  "let s1 = snd (executeBet demo_lib True map_redis demo_side False demo_env demo_request (UpDownInput ''G1'' 5 UP) (demo_handler empty_store 0));
       s2 = demo_handler (iw_store (h_idem s1)) 1000
   in h_app (snd (executeBet demo_lib True map_redis demo_side False demo_env demo_request (UpDownInput ''G1'' 9 DOWN) s2)) = h_app s2"
proof -
  let ?run = "executeBet demo_lib True map_redis demo_side False demo_env demo_request (UpDownInput ''G1'' 5 UP) (demo_handler empty_store 0)"
  let ?s2 = "demo_handler (iw_store (h_idem (snd ?run))) 1000"
  have k: "scoped (rq_scope demo_request)" by (simp add: demo_scope scoped_def)
  have q: "quiet True (rq_scope demo_request) 0 2000 (h_idem (demo_handler empty_store 0))"
    using k by (simp add: quiet_def empty_store_def store_inv_def)
  have d: "(2000 :: int) \<le> 0 + IDEMPOTENCY_TTL_HOURS * 60 * 60 * 1000" by (simp add: IDEMPOTENCY_TTL_HOURS_def)
  have run: "?run = (fst ?run, snd ?run)" by simp
  have "calm True (rq_scope demo_request) (until 2000) 2000 (h_idem (snd ?run))"
    by (rule executeBet_completes [OF q demo_scope(2) _ d run demo_bet_completed]) simp
  then have q2: "quiet True (rq_scope demo_request) 0 2000 (h_idem ?s2)" using k by (simp add: quiet_def calm_def keeps_def)
  have "h_app (snd (executeBet demo_lib True map_redis demo_side False demo_env demo_request (UpDownInput ''G1'' 9 DOWN) ?s2)) = h_app ?s2"
    by (rule bet_at_most_once [OF q d demo_scope(2) _ run demo_bet_completed q2 _ refl demo_scope(2)]) simp_all
  then show ?thesis by (simp only: Let_def)
qed

theorem bet_key_respected_witness:
  "let st = mem_set (rq_scope demo_request) (lock_record [] 5000) empty_store
   in h_app (snd (executeBet demo_lib True map_redis demo_side False demo_env demo_request (UpDownInput ''G1'' 5 UP) (demo_handler st 10)))
      = blank_app ()"
proof -
  let ?st = "mem_set (rq_scope demo_request) (lock_record [] 5000) empty_store :: bet_response idem_store"
  have "calm True (rq_scope demo_request) (until 5000) 5000 (h_idem (demo_handler ?st 10))"
    by (simp add: calm_def keeps_def until_def lock_record_def demo_scope scoped_def store_inv_def empty_store_def lookup_def
        mem_get_def mem_set_def)
  from bet_key_respected [OF this demo_scope(2), of demo_lib map_redis demo_side False demo_env "UpDownInput ''G1'' 5 UP"]
  show ?thesis by (simp add: case_prod_unfold Let_def) (simp add: demo_handler_def)
qed

end
