(* ===== verification/Tournament.thy ===== *)
theory Tournament
  imports Schema "HOL-Library.Multiset"
begin

text \<open>
  Tournaments (\<open>src/src/services/tournament.service.ts\<close>, \<open>src/src/types/tournament.types.ts\<close>).

  A tournament is created, joined, locked, and settled or cancelled.  Joining takes a row lock inside its
  transaction; locking, cancelling and settling read the status first and write it later, so each of them is
  split into the check and the commit, between which other handlers may run.  The order of participant ids
  (\<open>localeCompare\<close>) is a parameter.
\<close>

subsection \<open>The lifecycle\<close>

fun TOURNAMENT_LIFECYCLE_TRANSITIONS :: "TournamentStatus \<Rightarrow> TournamentStatus list" where
  "TOURNAMENT_LIFECYCLE_TRANSITIONS TS_UPCOMING = []"
| "TOURNAMENT_LIFECYCLE_TRANSITIONS TS_ACTIVE = [TS_UPCOMING]"
| "TOURNAMENT_LIFECYCLE_TRANSITIONS TS_COMPLETED = [TS_ACTIVE]"
| "TOURNAMENT_LIFECYCLE_TRANSITIONS TS_CANCELLED = [TS_UPCOMING, TS_ACTIVE]"

definition isLegalTournamentTransition :: "TournamentStatus \<Rightarrow> TournamentStatus \<Rightarrow> bool" where
  "isLegalTournamentTransition from to \<longleftrightarrow> from \<in> set (TOURNAMENT_LIFECYCLE_TRANSITIONS to)"

fun tournament_status_name :: "TournamentStatus \<Rightarrow> string" where
  "tournament_status_name TS_UPCOMING = ''UPCOMING''"
| "tournament_status_name TS_ACTIVE = ''ACTIVE''"
| "tournament_status_name TS_COMPLETED = ''COMPLETED''"
| "tournament_status_name TS_CANCELLED = ''CANCELLED''"

definition transitionTournament :: "string \<Rightarrow> TournamentStatus \<Rightarrow> ('c app, js_error, tournament_row) comp" where
  "transitionTournament tid to =
     m_bind (t_find tournaments (\<lambda>t. t_id t = tid)) (\<lambda>found.
       case found of
         None \<Rightarrow> m_throw (App (NotFoundError ''Tournament not found''))
       | Some current \<Rightarrow>
           if \<not> isLegalTournamentTransition (t_status current) to then
             m_then (emit (Metric ''tournament_transition_failures_total''))
               (m_throw (App (TournamentInvalidStateError (tournament_status_name (t_status current)) (tournament_status_name to))))
           else m_return current)"

definition set_status :: "string \<Rightarrow> TournamentStatus \<Rightarrow> ('c app, js_error, tournament_row) comp" where
  "set_status tid to = t_update P2025 tournaments tournaments_update (\<lambda>t. t_id t = tid) (\<lambda>t. t\<lparr>t_status := to\<rparr>)"

definition lockTournament :: "string \<Rightarrow> ('c app, js_error, string) comp" where
  "lockTournament tid = m_then (transitionTournament tid TS_ACTIVE) (m_bind (set_status tid TS_ACTIVE) (\<lambda>t. m_return (t_id t)))"

definition cancelTournament :: "string \<Rightarrow> ('c app, js_error, string) comp" where
  "cancelTournament tid =
     m_then (transitionTournament tid TS_CANCELLED) (m_bind (set_status tid TS_CANCELLED) (\<lambda>t. m_return (t_id t)))"

subsection \<open>Creating and joining\<close>

record tournament_input =
  ti_name :: string
  ti_description :: string
  ti_mode :: GameMode
  ti_entryFee :: rat
  ti_prizePool :: rat
  ti_maxParticipants :: int
  ti_startTime :: int
  ti_endTime :: int
  ti_rounds :: int

definition new_tournament :: "arith \<Rightarrow> int \<Rightarrow> tournament_input \<Rightarrow> string \<Rightarrow> tournament_row" where
  "new_tournament E now inp i = \<lparr>t_id = i, t_name = ti_name inp, t_description = ti_description inp, t_mode = ti_mode inp,
     t_status = TS_UPCOMING, entryFee = col E (toDecimal (ti_entryFee inp)), prizePool = col E (toDecimal (ti_prizePool inp)),
     maxParticipants = ti_maxParticipants inp, currentParticipants = 0, t_startTime = ti_startTime inp,
     t_endTime = ti_endTime inp, t_rounds = ti_rounds inp, t_createdAt = now\<rparr>"

definition createTournament :: "arith \<Rightarrow> int \<Rightarrow> tournament_input \<Rightarrow> ('c app, js_error, tournament_row) comp" where
  "createTournament E now inp =
     (if ti_maxParticipants inp < 1 then m_throw (App (ValidationError ''maxParticipants must be at least 1''))
      else if ti_rounds inp < 1 then m_throw (App (ValidationError ''rounds must be at least 1''))
      else if ti_endTime inp \<le> ti_startTime inp then m_throw (App (ValidationError ''endTime must be after startTime''))
      else t_create tournaments tournaments_update (new_tournament E now inp))"

definition assertJoinable :: "TournamentStatus \<Rightarrow> ('c app, js_error, unit) comp" where
  "assertJoinable st =
     (if st = TS_COMPLETED \<or> st = TS_CANCELLED then
        m_throw (App (ValidationError
          (if st = TS_CANCELLED then ''Tournament is cancelled''
           else ''Cannot join a '' @ tournament_status_name st @ '' tournament; registration is closed.'')))
      else m_return ())"

definition new_participant :: "int \<Rightarrow> string \<Rightarrow> string \<Rightarrow> string \<Rightarrow> participant_row" where
  "new_participant now tid userId i = \<lparr>tp_id = i, tp_tournamentId = tid, tp_userId = userId, joinedAt = now\<rparr>"

definition join_body :: "int \<Rightarrow> string \<Rightarrow> string \<Rightarrow> ('c app, js_error, tournament_row) comp" where
  "join_body now userId tid =
     m_bind (t_find tournaments (\<lambda>t. t_id t = tid)) (\<lambda>found.
       case found of
         None \<Rightarrow> m_throw (App (NotFoundError ''Tournament not found''))
       | Some t \<Rightarrow>
           m_then (assertJoinable (t_status t))
           (if currentParticipants t \<ge> maxParticipants t then m_throw (App (ConflictError ''Tournament is full'' CONFLICT))
            else m_bind (t_find participants (\<lambda>p. tp_tournamentId p = tid \<and> tp_userId p = userId)) (\<lambda>existing.
              if existing \<noteq> None then m_throw (App (ConflictError ''Already joined this tournament'' CONFLICT))
              else m_then (t_create participants participants_update (new_participant now tid userId))
                (t_update P2025 tournaments tournaments_update (\<lambda>t. t_id t = tid)
                  (\<lambda>t. t\<lparr>currentParticipants := currentParticipants t + 1\<rparr>)))))"

definition joinTournament :: "data_store \<Rightarrow> int \<Rightarrow> string \<Rightarrow> string \<Rightarrow> ('c app, js_error, int) comp" where
  "joinTournament ds now userId tid =
     m_bind (t_find tournaments (\<lambda>t. t_id t = tid)) (\<lambda>found.
       case found of
         None \<Rightarrow> m_throw (App (NotFoundError ''Tournament not found''))
       | Some t \<Rightarrow> m_then (assertJoinable (t_status t))
           (m_bind (tx ds (join_body now userId tid)) (\<lambda>updated. m_return (currentParticipants updated))))"

subsection \<open>Standings and allocations\<close>

record standing =
  sg_tournamentId :: string
  sg_participantId :: string
  sg_userId :: string
  sg_rank :: nat
  sg_totalEarnings :: rat
  sg_totalWins :: int

definition compareTournamentStandings :: "arith \<Rightarrow> (string \<Rightarrow> string \<Rightarrow> int) \<Rightarrow> standing \<Rightarrow> standing \<Rightarrow> rat" where
  "compareTournamentStandings E localeCompare a b =
     (let earn = toNum E (sg_totalEarnings b) - toNum E (sg_totalEarnings a);
          won = sg_totalWins b - sg_totalWins a
      in if earn \<noteq> 0 then earn else if won \<noteq> 0 then of_int won
         else of_int (localeCompare (sg_participantId a) (sg_participantId b)))"

text \<open>\<open>Array.prototype.sort\<close> with a comparator: a stable sort.\<close>

fun insert_by :: "('a \<Rightarrow> 'a \<Rightarrow> rat) \<Rightarrow> 'a \<Rightarrow> 'a list \<Rightarrow> 'a list" where
  "insert_by cmp x [] = [x]"
| "insert_by cmp x (y # ys) = (if cmp x y \<le> 0 then x # y # ys else y # insert_by cmp x ys)"

definition sort_by :: "('a \<Rightarrow> 'a \<Rightarrow> rat) \<Rightarrow> 'a list \<Rightarrow> 'a list" where
  "sort_by cmp xs = foldr (insert_by cmp) xs []"

definition standing_of :: "arith \<Rightarrow> string \<Rightarrow> stats_row option \<Rightarrow> participant_row \<Rightarrow> standing" where
  "standing_of E tid stats p = \<lparr>sg_tournamentId = tid, sg_participantId = tp_id p, sg_userId = tp_userId p, sg_rank = 0,
     sg_totalEarnings = serializeMoney E (Some (case stats of None \<Rightarrow> 0 | Some s \<Rightarrow> totalEarnings s)),
     sg_totalWins = (case stats of None \<Rightarrow> 0 | Some s \<Rightarrow> correctPredictions s)\<rparr>"

definition ranked :: "arith \<Rightarrow> (string \<Rightarrow> string \<Rightarrow> int) \<Rightarrow> string \<Rightarrow> 'z db_scheme \<Rightarrow> standing list" where
  "ranked E localeCompare tid s =
     (let standingByUser = foldl (\<lambda>m p. AList.update (tp_userId p)
            (standing_of E tid (c_findUnique (\<lambda>r. s_userId r = tp_userId p) (userStats s)) p) m) []
            (filtered (\<lambda>p. tp_tournamentId p = tid) (participants s));
          ordered = sort_by (compareTournamentStandings E localeCompare) (map snd standingByUser)
      in map (\<lambda>(i, g). g\<lparr>sg_rank := i + 1\<rparr>) (enumerate 0 ordered))"

definition tallyStandings :: "arith \<Rightarrow> (string \<Rightarrow> string \<Rightarrow> int) \<Rightarrow> string \<Rightarrow> ('c app, js_error, standing list) comp" where
  "tallyStandings E localeCompare tid =
     m_bind (t_find tournaments (\<lambda>t. t_id t = tid)) (\<lambda>found.
       case found of
         None \<Rightarrow> m_throw (App (NotFoundError ''Tournament not found''))
       | Some t \<Rightarrow> m_gets (ranked E localeCompare tid))"

record allocation =
  al_rank :: nat
  al_userId :: string
  al_allocation :: rat

definition prize_weights :: "rat list" where
  "prize_weights = [5 / 10, 3 / 10, 2 / 10]"

text \<open>The body of \<open>winners.forEach\<close>; \<open>n\<close> is the number of winners.  The quotients of the weights that
  are used, 0.5, 0.3 and 0.625, are exact in decimal.\<close>

fun allocate :: "arith \<Rightarrow> rat \<Rightarrow> nat \<Rightarrow> nat \<Rightarrow> rat \<Rightarrow> standing list \<Rightarrow> allocation list" where
  "allocate E pool n i allocated [] = []"
| "allocate E pool n i allocated (g # gs) =
     (let weight = prize_weights ! i / sum_list (take n prize_weights);
          share = (if i = n - 1 then decSub E pool allocated else decMul E pool weight);
          amount = (if share < 0 then 0 else share)
      in \<lparr>al_rank = sg_rank g, al_userId = sg_userId g, al_allocation = toFix E 8 amount\<rparr> #
         allocate E pool n (Suc i) (decAdd E allocated amount) gs)"

definition computeAllocations :: "arith \<Rightarrow> rat \<Rightarrow> standing list \<Rightarrow> allocation list" where
  "computeAllocations E prize standings =
     (let pool = toDecimal prize; winners = take 3 standings
      in if pool \<le> 0 \<or> standings = [] then [] else allocate E pool (length winners) 0 (toDecimal 0) winners)"

subsection \<open>Settling\<close>

definition pay_allocation :: "arith \<Rightarrow> rat \<Rightarrow> allocation \<Rightarrow> ('c app, js_error, rat) comp" where
  "pay_allocation E totalPaid a =
     m_then (t_update P2025 users users_update (\<lambda>u. u_id u = al_userId a)
       (\<lambda>u. u\<lparr>virtualBalance := increment E (virtualBalance u) (toNumber E (Some (al_allocation a))), wins := wins u + 1\<rparr>))
     (m_then (t_create transactions transactions_update (\<lambda>i. \<lparr>tr_id = i, tr_userId = al_userId a, tr_amount = col E (al_allocation a),
         tr_type = ''WIN'', tr_description = ''Tournament payout (rank '' @ show_nat (al_rank a) @ '')''\<rparr>))
       (m_return (decAdd E totalPaid (al_allocation a))))"

definition settle_commit :: "arith \<Rightarrow> string \<Rightarrow> allocation list \<Rightarrow> ('c app, js_error, rat) comp" where
  "settle_commit E tid allocations =
     m_then (set_status tid TS_COMPLETED) (m_foldl (pay_allocation E) (toDecimal 0) allocations)"

text \<open>Everything before the transaction.\<close>

definition settle_prepare :: "arith \<Rightarrow> (string \<Rightarrow> string \<Rightarrow> int) \<Rightarrow> string \<Rightarrow> ('c app, js_error, allocation list) comp" where
  "settle_prepare E localeCompare tid =
     m_bind (transitionTournament tid TS_COMPLETED) (\<lambda>current.
     m_bind (tallyStandings E localeCompare tid) (\<lambda>standings.
       m_return (computeAllocations E (prizePool current) standings)))"

record payout_result =
  po_totalPaid :: rat
  po_winnersCount :: nat
  po_allocations :: "allocation list"

definition settleTournament :: "data_store \<Rightarrow> arith \<Rightarrow> (string \<Rightarrow> string \<Rightarrow> int) \<Rightarrow> string \<Rightarrow> ('c app, js_error, payout_result) comp" where
  "settleTournament ds E localeCompare tid =
     m_bind (settle_prepare E localeCompare tid) (\<lambda>allocations.
     m_bind (tx ds (settle_commit E tid allocations)) (\<lambda>totalPaid.
       m_return \<lparr>po_totalPaid = toFix E 8 totalPaid, po_winnersCount = length allocations, po_allocations = allocations\<rparr>))"


subsection \<open>Any interleaving of handlers\<close>

text \<open>
  A step is a handler, or the part of one that runs after its checks: \<open>T_join_tx\<close> is the transaction of
  a join whose outer check ran earlier, \<open>T_write\<close> the status write of a lock or cancel and
  \<open>T_settle_tx\<close> the transaction of a settlement, with checks that may be arbitrarily old.
\<close>

datatype tournament_op =
    T_create int tournament_input
  | T_join data_store int string string
  | T_join_tx data_store int string string
  | T_lock string
  | T_cancel string
  | T_write string TournamentStatus
  | T_settle data_store string
  | T_settle_tx data_store string "allocation list"

fun tournament_step :: "arith \<Rightarrow> (string \<Rightarrow> string \<Rightarrow> int) \<Rightarrow> 'c app \<Rightarrow> tournament_op \<Rightarrow> 'c app" where
  "tournament_step E lc s (T_create now inp) = snd (createTournament E now inp s)"
| "tournament_step E lc s (T_join ds now u tid) = snd (joinTournament ds now u tid s)"
| "tournament_step E lc s (T_join_tx ds now u tid) = snd (tx ds (join_body now u tid) s)"
| "tournament_step E lc s (T_lock tid) = snd (lockTournament tid s)"
| "tournament_step E lc s (T_cancel tid) = snd (cancelTournament tid s)"
| "tournament_step E lc s (T_write tid st) = snd (set_status tid st s)"
| "tournament_step E lc s (T_settle ds tid) = snd (settleTournament ds E lc tid s)"
| "tournament_step E lc s (T_settle_tx ds tid al) = snd (tx ds (settle_commit E tid al) s)"

text \<open>The roster of every tournament: the participant rows that name it.\<close>

definition roster :: "string \<Rightarrow> 'z db_scheme \<Rightarrow> participant_row list" where
  "roster tid s = filtered (\<lambda>p. tp_tournamentId p = tid) (participants s)"

definition roster_of :: "'z db_scheme \<Rightarrow> string \<Rightarrow> tournament_row \<Rightarrow> bool" where
  "roster_of s tid t \<longleftrightarrow>
     int (length (roster tid s)) = currentParticipants t \<and> currentParticipants t \<le> maxParticipants t \<and>
     distinct (map tp_userId (roster tid s))"

definition rosters_ok :: "'z db_scheme \<Rightarrow> bool" where
  "rosters_ok s \<longleftrightarrow>
     (\<forall>tid t. peek tid (tournaments s) = Some t \<longrightarrow> roster_of s tid t) \<and>
     (\<forall>tid. peek tid (tournaments s) = None \<longrightarrow> roster tid s = [])"

lemma rosters_okD: "rosters_ok s \<Longrightarrow> peek tid (tournaments s) = Some t \<Longrightarrow> roster_of s tid t"
  by (simp add: rosters_ok_def)

lemma roster_frame [simp]:
  "roster tid (users_update f s) = roster tid s" "roster tid (transactions_update g s) = roster tid s"
  "roster tid (tournaments_update h s) = roster tid s"
  "roster tid (effects_update e a) = roster tid a" "roster tid (rollback_db a b) = roster tid a"
  by (simp_all add: roster_def rollback_db_def)

lemma rosters_frame [simp]:
  "rosters_ok (users_update f s) = rosters_ok s" "rosters_ok (transactions_update g s) = rosters_ok s"
  "rosters_ok (effects_update e a) = rosters_ok a" "rosters_ok (rollback_db a b) = rosters_ok a"
  by (simp_all add: rosters_ok_def roster_of_def) (simp add: rollback_db_def)

abbreviation tournaments_ok :: "'c app \<Rightarrow> bool" where
  "tournaments_ok s \<equiv> wf_db s \<and> rosters_ok s"

lemma filtered_create:
  assumes "wf_t idf c"
  shows "filtered P (snd (c_create mk c)) =
     filtered P c @ (let r = mk (generateId c (idCalls c)) in if P r then [r] else [])"
proof -
  let ?i = "generateId c (idCalls c)"
  have "AList.update k v al = al @ [(k, v)]" if "map_of al k = None" for k v and al :: "(string \<times> 'a) list"
    using that by (induction al) (auto split: if_splits)
  from this [of "rows c" ?i "mk ?i"] wf_t_fresh [OF assms] show ?thesis
    by (simp add: filtered_def c_create_def c_set_def Let_def peek_def)
qed

lemma length_create: "wf_t idf c \<Longrightarrow> length (rows (snd (c_create mk c))) = Suc (length (rows c))"
  using arg_cong [OF filtered_create [of idf c "\<lambda>_. True" mk], of length] by (simp add: filtered_def Let_def)

text \<open>A write that keeps the counters keeps the rosters.\<close>

lemma preserves_tournament_write:
  assumes "\<And>t. t_id (f t) = t_id t \<and> currentParticipants (f t) = currentParticipants t \<and>
    maxParticipants (f t) = maxParticipants t"
  shows "preserves tournaments_ok (t_update P2025 tournaments tournaments_update (\<lambda>t. t_id t = tid) f)"
proof (rule preservesI, elim conjE, intro conjI)
  fix s :: "'c app" assume s: "wf_db s" "rosters_ok s"
  let ?m = "t_update P2025 tournaments tournaments_update (\<lambda>t. t_id t = tid) f"
  show "wf_db (snd (?m s))" using s(1) assms by (intro preservesD [OF tournaments.preserves_update]) auto
  show "rosters_ok (snd (?m s))"
    using s assms by (auto simp: tournaments.update_id rosters_ok_def roster_of_def split: option.splits)
qed

lemma preserves_set_status: "preserves tournaments_ok (set_status tid st)"
  unfolding set_status_def by (rule preserves_tournament_write) simp

lemma preserves_tournaments_tx: "preserves tournaments_ok m \<Longrightarrow> preserves tournaments_ok (tx ds m)"
  unfolding tx_def by (rule preserves_transaction) simp_all

lemma preserves_pay: "preserves tournaments_ok (pay_allocation E tot a)"
proof -
  have u: "preserves tournaments_ok (t_update P2025 users users_update P f)" if "\<And>r. u_id (f r) = u_id r" for P f
  proof (rule preservesI)
    fix s :: "'c app" assume s: "wf_db s \<and> rosters_ok s"
    moreover from that s have "wf_db (snd (t_update P2025 users users_update P f s))"
      by (intro preservesD [OF users.preserves_update]) auto
    ultimately show "tournaments_ok (snd (t_update P2025 users users_update P f s))"
      by (auto simp: t_update_def split: option.splits)
  qed
  have c: "preserves tournaments_ok (t_create transactions transactions_update mk)" if "\<And>i. tr_id (mk i) = i" for mk
    by (rule preservesI) (simp add: transactions.create_eq transactions.create_wf that)
  show ?thesis unfolding pay_allocation_def by (intro preserve_intros u c) simp_all
qed

lemma preserves_settle_commit: "preserves tournaments_ok (settle_commit E tid al)"
  unfolding settle_commit_def by (intro preserve_intros preserves_set_status preserves_pay)

lemma preserves_transition: "preserves tournaments_ok (transitionTournament tid to)"
  unfolding transitionTournament_def
  by (intro preserve_intros) (simp_all add: preserves_def emit_eq)

lemma preserves_createTournament: "preserves tournaments_ok (createTournament E now inp)"
proof (rule preservesI, elim conjE)
  fix s :: "'c app" assume s: "wf_db s" "rosters_ok s"
  have fresh: "peek (generateId (tournaments s) (idCalls (tournaments s))) (tournaments s) = None"
    by (rule wf_t_fresh [OF tournaments.tbl_wf [OF s(1)]])
  with s(2) have "roster (generateId (tournaments s) (idCalls (tournaments s))) s = []"
    by (simp add: rosters_ok_def)
  with s show "tournaments_ok (snd (createTournament E now inp s))"
    by (auto simp: createTournament_def m_throw_def tournaments.create_eq tournaments.create_wf new_tournament_def
        rosters_ok_def roster_of_def peek_c_create)
qed

lemma already_joined:
  "c_findUnique (\<lambda>p. tp_tournamentId p = tid \<and> tp_userId p = u) (participants s) = None \<longleftrightarrow>
   u \<notin> tp_userId ` set (roster tid s)"
proof -
  have "c_findUnique P c = None \<longleftrightarrow> filtered P c = []" for P and c :: "participant_row collection"
    by (cases "filtered P c") (simp_all add: c_findUnique_def)
  then show ?thesis by (auto simp: roster_def filtered_def filter_empty_conv)
qed

definition joined :: "int \<Rightarrow> string \<Rightarrow> string \<Rightarrow> tournament_row \<Rightarrow> 'c app \<Rightarrow> 'c app" where
  "joined now u tid t s =
     s\<lparr>participants := snd (c_create (new_participant now tid u) (participants s)),
       tournaments := c_set tid (t\<lparr>currentParticipants := currentParticipants t + 1\<rparr>) (tournaments s)\<rparr>"

text \<open>A join either leaves everything as it was, or the tournament was open, had room and did not list the
  user, and exactly one row and one unit of the counter are added.\<close>

lemma join_cases:
  assumes "wf_db s"
  obtains (refused) e where "join_body now u tid s = (Inl e, s)"
  | (joins) t where "join_body now u tid s = (Inr (t\<lparr>currentParticipants := currentParticipants t + 1\<rparr>), joined now u tid t s)"
      "peek tid (tournaments s) = Some t" "t_status t \<in> {TS_UPCOMING, TS_ACTIVE}"
      "currentParticipants t < maxParticipants t" "u \<notin> tp_userId ` set (roster tid s)"
proof (cases "peek tid (tournaments s)")
  case None
  note start = tournaments.find_id [OF assms]
  have "join_body now u tid s = (Inl (App (NotFoundError ''Tournament not found'')), s)"
    unfolding join_body_def by (simp add: m_bind_def start None m_throw_def)
  then show ?thesis by (rule refused)
next
  case (Some t)
  note start = tournaments.find_id [OF assms]
  show ?thesis
  proof (cases "t_status t \<in> {TS_UPCOMING, TS_ACTIVE} \<and> currentParticipants t < maxParticipants t \<and>
      u \<notin> tp_userId ` set (roster tid s)")
    case True
    then have find: "t_find participants (\<lambda>p. tp_tournamentId p = tid \<and> tp_userId p = u) s = (Inr None, s)"
      by (simp add: t_find_def m_gets_def already_joined)
    have wf: "wf_db (participants_update (\<lambda>_. snd (c_create (new_participant now tid u) (participants s))) s)"
      by (rule participants.create_wf [OF assms]) (simp add: new_participant_def)
    have "join_body now u tid s =
        (Inr (t\<lparr>currentParticipants := currentParticipants t + 1\<rparr>), joined now u tid t s)"
      using True unfolding join_body_def joined_def
      by (auto simp: start Some assertJoinable_def m_then_def m_bind_def find m_return_def
          participants.create_eq tournaments.update_id [OF wf])
    with Some True show ?thesis by (intro joins) auto
  next
    case False
    have find: "t_find participants P s = (Inr (c_findUnique P (participants s)), s)" for P
      by (simp add: t_find_def m_gets_def)
    have "\<exists>e. join_body now u tid s = (Inl e, s)"
      using False unfolding join_body_def
      by (cases "t_status t") (auto simp: start Some assertJoinable_def m_then_def m_bind_def m_throw_def
          m_return_def find already_joined not_less)
    then show ?thesis using refused by blast
  qed
qed

lemma joined_ok:
  assumes s: "wf_db s" "rosters_ok s" and t: "peek tid (tournaments s) = Some t"
    and room: "currentParticipants t < maxParticipants t" and new: "u \<notin> tp_userId ` set (roster tid s)"
  shows "tournaments_ok (joined now u tid t s)"
proof
  let ?p = "participants_update (\<lambda>_. snd (c_create (new_participant now tid u) (participants s))) s"
  have p: "wf_db ?p" by (rule participants.create_wf [OF s(1)]) (simp add: new_participant_def)
  from tournaments.set_wf [OF p, of tid t "t\<lparr>currentParticipants := currentParticipants t + 1\<rparr>"] t tournaments.peek_id [OF s(1) t]
  show "wf_db (joined now u tid t s)" by (simp add: joined_def)
  have r: "roster k (joined now u tid t s) = roster k s @
      (if k = tid then [new_participant now tid u (generateId (participants s) (idCalls (participants s)))] else [])" for k
    using participants.tbl_wf [OF s(1)]
    by (auto simp: roster_def joined_def filtered_create new_participant_def Let_def)
  show "rosters_ok (joined now u tid t s)"
    using rosters_okD [OF s(2) t] s(2) room new
    by (auto simp: rosters_ok_def roster_of_def r, auto simp: joined_def new_participant_def split: if_splits)
qed

lemma preserves_join_body: "preserves tournaments_ok (join_body now u tid)"
proof (rule preservesI, elim conjE)
  fix s :: "'c app" assume s: "wf_db s" "rosters_ok s"
  from s(1) show "tournaments_ok (snd (join_body now u tid s))"
  proof (cases rule: join_cases [where now = now and u = u and tid = tid])
    case (joins t)
    with joined_ok [OF s] show ?thesis by simp
  qed (simp_all add: s)
qed

lemmas preserves_tournament_parts = preserves_createTournament preserves_join_body preserves_transition
  preserves_set_status preserves_settle_commit preserves_tournaments_tx

lemma preserves_assertJoinable: "preserves I (assertJoinable st)"
  unfolding assertJoinable_def by (intro preserve_intros)

lemma tournament_step_ok: "tournaments_ok s \<Longrightarrow> tournaments_ok (tournament_step E lc s x)"
proof -
  note prv = preserve_intros preserves_tournament_parts preserves_assertJoinable
  assume s: "tournaments_ok s"
  have join: "preserves tournaments_ok (joinTournament ds now u tid)" for ds now u tid
    unfolding joinTournament_def by (intro prv)
  have lock: "preserves tournaments_ok (lockTournament tid)" "preserves tournaments_ok (cancelTournament tid)" for tid
    unfolding lockTournament_def cancelTournament_def by (intro prv)+
  have settle: "preserves tournaments_ok (settleTournament ds E lc tid)" for ds tid
    unfolding settleTournament_def settle_prepare_def tallyStandings_def by (intro prv)
  show ?thesis
    by (cases x) (use s preservesD [OF join s] preservesD [OF settle s] preservesD [OF lock(1) s]
        preservesD [OF lock(2) s] preservesD [OF preserves_createTournament s] preservesD [OF preserves_set_status s]
        preservesD [OF preserves_tournaments_tx [OF preserves_join_body] s]
        preservesD [OF preserves_tournaments_tx [OF preserves_settle_commit] s] in simp_all)
qed

lemma tournament_run_ok: "tournaments_ok s \<Longrightarrow> tournaments_ok (foldl (tournament_step E lc) s ops)"
proof (induction ops arbitrary: s)
  case (Cons x ops)
  from Cons.IH [OF tournament_step_ok [OF Cons.prems]] show ?case by simp
qed simp

subsection \<open>The standings list the roster\<close>

lemma mset_insert_by: "mset (insert_by cmp x ys) = add_mset x (mset ys)"
  by (induction ys) auto

lemma mset_sort_by [simp]: "mset (sort_by cmp xs) = mset xs"
  unfolding sort_by_def by (induction xs) (auto simp: mset_insert_by)

lemma set_sort_by [simp]: "set (sort_by cmp xs) = set xs"
  by (metis mset_sort_by set_mset_mset)

lemma ranked_users: "sg_userId ` set (ranked E lc tid s) = tp_userId ` set (roster tid s)"
proof -
  let ?put = "\<lambda>m p. AList.update (tp_userId p)
    (standing_of E tid (c_findUnique (\<lambda>r. s_userId r = tp_userId p) (userStats s)) p) m"
  have keyed: "\<forall>(k, g) \<in> set (foldl ?put m ps). sg_userId g = k" if "\<forall>(k, g) \<in> set m. sg_userId g = k" for m ps
    using that
  proof (induction ps arbitrary: m)
    case (Cons p ps)
    have "\<forall>(k, g) \<in> set (?put m p). sg_userId g = k"
      using Cons.prems by (auto simp: standing_of_def dest!: set_AList_update)
    from Cons.IH [OF this] show ?case by simp
  qed simp
  have keys: "fst ` set (foldl ?put m ps) = fst ` set m \<union> tp_userId ` set ps" for m ps
    by (induction ps arbitrary: m) (auto simp: dom_update)
  let ?al = "foldl ?put [] (roster tid s)"
  have "sg_userId ` snd ` set ?al = fst ` set ?al"
    using keyed [of "[]" "roster tid s"] by (force simp: image_iff)
  with keys [of "[]" "roster tid s"] have "sg_userId ` snd ` set ?al = tp_userId ` set (roster tid s)" by simp
  moreover have "sg_userId ` (\<lambda>(i, g). g\<lparr>sg_rank := i + 1\<rparr>) ` set (enumerate 0 xs) = sg_userId ` set xs"
    for xs :: "standing list"
  proof -
    have "map (sg_userId \<circ> (\<lambda>(i, g). g\<lparr>sg_rank := i + 1\<rparr>)) (enumerate 0 xs) = map sg_userId xs"
      by (rule nth_equalityI) (auto simp: nth_enumerate_eq)
    from arg_cong [OF this, of set] show ?thesis by (simp only: set_map image_comp)
  qed
  ultimately show ?thesis unfolding ranked_def Let_def roster_def by (simp only: set_map set_sort_by)
qed

subsection \<open>The allocations share out the pool\<close>

lemma allocate_users: "map al_userId (allocate E pool n i acc gs) = map sg_userId gs"
  by (induction gs arbitrary: i acc) (simp_all add: Let_def)

lemma allocation_users: "al_userId ` set (computeAllocations E pool st) \<subseteq> sg_userId ` set st"
proof -
  have "al_userId ` set (allocate E pool n 0 0 (take 3 st)) = sg_userId ` set (take 3 st)" for n
    using allocate_users [of E pool n 0 0 "take 3 st"] by (metis image_set)
  then show ?thesis
    using set_take_subset [of 3 st] by (simp add: computeAllocations_def Let_def toDecimal_def image_mono)
qed

text \<open>One, two and three winners: the amounts are non-negative, have eight decimals and add up to the pool
  up to half a unit of the eighth decimal each and the errors of the decimal operations.\<close>

definition shares_pool :: "rat \<Rightarrow> rat list \<Rightarrow> bool" where
  "shares_pool pool as \<longleftrightarrow>
     (\<forall>a \<in> set as. 0 \<le> a \<and> on_grid a \<and> a \<le> pool + 2 * unit_err * pool + 1 / (2 * 10 ^ 8)) \<and>
     \<bar>sum_list as - pool\<bar> \<le> of_nat (length as) / (2 * 10 ^ 8) + 4 * unit_err * pool"

context decimal_arith
begin

lemma toFix_nonneg:
  assumes "0 \<le> x"
  shows "0 \<le> toFix E p x"
proof -
  obtain n :: int where n: "toFix E p x = of_int n / 10 ^ p" using toFix_grid by blast
  have "x - 1 / (2 * 10 ^ p) \<le> toFix E p x" using toFix_err [of p x] by linarith
  moreover have "(1 :: rat) / (2 * 10 ^ p) < 1 / 10 ^ p" by (simp add: field_simps)
  ultimately have "- 1 / 10 ^ p < (of_int n :: rat) / 10 ^ p" using assms n by linarith
  then have "- 1 < (of_int n :: rat)" by (simp add: field_simps)
  then show ?thesis by (simp add: n)
qed

lemma toFix_on_grid [simp]: "on_grid (toFix E 8 x)"
  using toFix_grid [of 8 x] by (auto intro: on_gridI)

lemma shares_poolI:
  assumes "\<And>x. x \<in> set xs \<Longrightarrow> 0 \<le> x \<and> x \<le> pool + 2 * unit_err * pool"
    and "\<bar>sum_list xs - pool\<bar> \<le> 4 * unit_err * pool"
  shows "shares_pool pool (map (toFix E 8) xs)"
proof -
  have "\<bar>sum_list (map (toFix E 8) xs) - sum_list xs\<bar> \<le> of_nat (length xs) / (2 * 10 ^ 8)"
  proof (induction xs)
    case (Cons x xs)
    then show ?case
      using toFix_err [of 8 x] by (simp only: list.map sum_list.Cons length_Cons of_nat_Suc add_divide_distrib)
  qed simp
  with assms(2) have "\<bar>sum_list (map (toFix E 8) xs) - pool\<bar> \<le> of_nat (length xs) / (2 * 10 ^ 8) + 4 * unit_err * pool"
    by linarith
  moreover have "0 \<le> toFix E 8 x \<and> toFix E 8 x \<le> pool + 2 * unit_err * pool + 1 / (2 * 10 ^ 8)" if "x \<in> set xs" for x
    using assms(1) [OF that] toFix_err [of 8 x] toFix_nonneg [of x 8] by linarith
  ultimately show ?thesis by (auto simp: shares_pool_def)
qed

lemma dround_within:
  assumes "0 \<le> x" and "x \<le> pool"
  shows "0 \<le> dround E x \<and> \<bar>dround E x - x\<bar> \<le> unit_err * pool"
proof -
  have "unit_err * x \<le> unit_err * pool" using assms by (intro mult_left_mono) (auto simp: unit_err_def)
  with dround_err [of x] assms dround_nonneg [of x] show ?thesis by simp
qed

lemma allocate_shares:
  assumes "0 < pool" and "gs \<noteq> []" and "length gs \<le> 3"
  shows "shares_pool pool (map al_allocation (allocate E pool (length gs) 0 0 gs))"
proof -
  define e where "e = unit_err * pool"
  have e: "0 \<le> e" "100 * e \<le> pool" using assms(1) by (auto simp: e_def unit_err_def)
  note d = dround_within [of _ pool, folded e_def]
  have sh: "shares_pool pool (map (toFix E 8) xs)"
    if "\<And>x. x \<in> set xs \<Longrightarrow> 0 \<le> x \<and> x \<le> pool + 2 * e" "\<bar>sum_list xs - pool\<bar> \<le> 4 * e" for xs
    using shares_poolI [of xs pool] that by (simp add: e_def mult.assoc)
  consider g where "gs = [g]" | g h where "gs = [g, h]" | g h k where "gs = [g, h, k]"
    using assms(2,3) by (cases gs; cases "tl gs"; cases "tl (tl gs)") auto
  then show ?thesis
  proof cases
    case 1
    define x where "x = dround E pool"
    have x: "0 \<le> x" "\<bar>x - pool\<bar> \<le> e" using d [of pool] assms(1) by (auto simp: x_def)
    with e have "shares_pool pool (map (toFix E 8) [x])" by (intro sh) auto
    with x show ?thesis by (simp add: 1 Let_def decimal_defs x_def)
  next
    case 2
    define x where "x = dround E (pool * (5 / 8))"
    define y where "y = dround E x"
    define z where "z = dround E (pool - y)"
    have x: "0 \<le> x" "\<bar>x - pool * (5 / 8)\<bar> \<le> e" using d [of "pool * (5 / 8)"] assms(1) by (auto simp: x_def)
    have y: "0 \<le> y" "\<bar>y - x\<bar> \<le> e" using d [of x] x e by (auto simp: y_def)
    have z: "0 \<le> z" "\<bar>z - (pool - y)\<bar> \<le> e" using d [of "pool - y"] x y e by (auto simp: z_def)
    have "shares_pool pool (map (toFix E 8) [x, z])" using x y z e by (intro sh) auto
    with x z show ?thesis by (simp add: 2 Let_def decimal_defs prize_weights_def x_def y_def z_def)
  next
    case 3
    define x where "x = dround E (pool * (1 / 2))"
    define y where "y = dround E (pool * (3 / 10))"
    define a where "a = dround E x"
    define b where "b = dround E (a + y)"
    define z where "z = dround E (pool - b)"
    have x: "0 \<le> x" "\<bar>x - pool * (1 / 2)\<bar> \<le> e" using d [of "pool * (1 / 2)"] assms(1) by (auto simp: x_def)
    have y: "0 \<le> y" "\<bar>y - pool * (3 / 10)\<bar> \<le> e" using d [of "pool * (3 / 10)"] assms(1) by (auto simp: y_def)
    have a: "0 \<le> a" "\<bar>a - x\<bar> \<le> e" using d [of x] x e by (auto simp: a_def)
    have b: "0 \<le> b" "\<bar>b - (a + y)\<bar> \<le> e" using d [of "a + y"] x y a e by (auto simp: b_def)
    have z: "0 \<le> z" "\<bar>z - (pool - b)\<bar> \<le> e" using d [of "pool - b"] x y a b e by (auto simp: z_def)
    have "shares_pool pool (map (toFix E 8) [x, y, z])" using x y a b z e by (intro sh) auto
    with x y z show ?thesis by (simp add: 3 Let_def decimal_defs prize_weights_def x_def y_def a_def b_def z_def numeral_3_eq_3)
  qed
qed

lemma computeAllocations_shares:
  "0 < pool \<Longrightarrow> st \<noteq> [] \<Longrightarrow> shares_pool pool (map al_allocation (computeAllocations E pool st))"
  using allocate_shares [of pool "take 3 st"] by (auto simp: computeAllocations_def Let_def toDecimal_def)

end

subsection \<open>What a settlement does\<close>

definition paid_to :: "allocation list \<Rightarrow> string \<Rightarrow> rat" where
  "paid_to al u = (\<Sum>a\<leftarrow>filter (\<lambda>a. al_userId a = u) al. al_allocation a)"

definition payable :: "allocation list \<Rightarrow> bool" where
  "payable al \<longleftrightarrow> (\<forall>a \<in> set al. 0 \<le> al_allocation a \<and> on_grid (al_allocation a) \<and> al_allocation a \<le> 2 * 10 ^ 7)"

definition solvent :: "'c app \<Rightarrow> bool" where
  "solvent s \<longleftrightarrow> (\<forall>u r. peek u (users s) = Some r \<longrightarrow> 0 \<le> virtualBalance r \<and> on_grid (virtualBalance r))"

definition balance :: "'c app \<Rightarrow> string \<Rightarrow> rat option" where
  "balance s u = map_option virtualBalance (peek u (users s))"

text \<open>\<open>s'\<close> is \<open>s\<close> after the payments \<open>al\<close>.\<close>

definition paid_out :: "allocation list \<Rightarrow> 'c app \<Rightarrow> 'c app \<Rightarrow> bool" where
  "paid_out al s s' \<longleftrightarrow>
     wf_db s' \<and> solvent s' \<and> tournaments s' = tournaments s \<and> participants s' = participants s \<and> effects s' = effects s \<and>
     (\<forall>u. balance s' u = map_option (\<lambda>b. b + paid_to al u) (balance s u)) \<and>
     length (rows (transactions s')) = length (rows (transactions s)) + length al"

lemma pay_one:
  assumes "wf_db s" "solvent s" "payable [a]" "balance s (al_userId a) \<noteq> None"
  shows "\<exists>s'. pay_allocation js_arith tot a s = (Inr (decAdd js_arith tot (al_allocation a)), s') \<and> paid_out [a] s s'"
proof -
  obtain u where u: "peek (al_userId a) (users s) = Some u" using assms(4) by (auto simp: balance_def)
  let ?u = "u\<lparr>virtualBalance := increment js_arith (virtualBalance u) (toNumber js_arith (Some (al_allocation a))), wins := wins u + 1\<rparr>"
  let ?s1 = "users_update (\<lambda>_. c_set (al_userId a) ?u (users s)) s"
  let ?tr = "\<lambda>i. \<lparr>tr_id = i, tr_userId = al_userId a, tr_amount = col js_arith (al_allocation a),
         tr_type = ''WIN'', tr_description = ''Tournament payout (rank '' @ show_nat (al_rank a) @ '')''\<rparr>"
  let ?s2 = "transactions_update (\<lambda>_. snd (c_create ?tr (transactions s))) ?s1"
  have s1: "wf_db ?s1" using users.peek_id [OF assms(1) u] by (intro users.set_wf [OF assms(1) u]) simp
  then have s2: "wf_db ?s2" using transactions.create_wf [OF s1, of ?tr] by simp
  have bal: "virtualBalance ?u = virtualBalance u + al_allocation a"
    using assms(2,3) u
    by (simp add: toNumber_def js.increment_shift js.toNum_nonneg js.col_toNum solvent_def payable_def)
  have "solvent ?s2" using assms(2,3) u bal by (auto simp: solvent_def payable_def)
  moreover have "balance ?s2 k = map_option (\<lambda>b. b + paid_to [a] k) (balance s k)" for k
    using u bal by (auto simp: balance_def paid_to_def option.map_comp comp_def)
  moreover have "length (rows (snd (c_create ?tr (transactions s)))) = length (rows (transactions s)) + 1"
    by (simp add: length_create [OF transactions.tbl_wf [OF assms(1)]])
  ultimately have "paid_out [a] s ?s2" using s2 by (simp add: paid_out_def)
  moreover have "pay_allocation js_arith tot a s = (Inr (decAdd js_arith tot (al_allocation a)), ?s2)"
    using assms(1) u by (simp add: pay_allocation_def m_then_def m_bind_def users.update_id transactions.create_eq m_return_def)
  ultimately show ?thesis by blast
qed

lemma paid_out_trans:
  assumes "paid_out al s s1" and "paid_out bl s1 s2"
  shows "paid_out (al @ bl) s s2"
  using assms by (auto simp: paid_out_def paid_to_def option.map_comp comp_def add.assoc)

lemma pay_all:
  assumes "wf_db s" "solvent s" "payable al" "\<forall>a \<in> set al. balance s (al_userId a) \<noteq> None"
  shows "\<exists>s'. m_foldl (pay_allocation js_arith) tot al s = (Inr (foldl (decAdd js_arith) tot (map al_allocation al)), s') \<and>
    paid_out al s s'"
  using assms
proof (induction al arbitrary: s tot)
  case Nil
  then show ?case by (simp add: m_return_def paid_out_def paid_to_def option.map_ident)
next
  case (Cons a al)
  from Cons.prems have "payable [a]" "payable al" "balance s (al_userId a) \<noteq> None" by (auto simp: payable_def)
  with pay_one [OF Cons.prems(1,2)] obtain s1
    where s1: "pay_allocation js_arith tot a s = (Inr (decAdd js_arith tot (al_allocation a)), s1)" "paid_out [a] s s1"
    by blast
  with Cons.prems \<open>payable al\<close> have "wf_db s1" "solvent s1" "\<forall>a \<in> set al. balance s1 (al_userId a) \<noteq> None"
    by (auto simp: paid_out_def)
  from Cons.IH [OF this(1,2) \<open>payable al\<close> this(3)] obtain s2
    where "m_foldl (pay_allocation js_arith) (decAdd js_arith tot (al_allocation a)) al s1 =
        (Inr (foldl (decAdd js_arith) (decAdd js_arith tot (al_allocation a)) (map al_allocation al)), s2)" "paid_out al s1 s2"
    by blast
  with s1 paid_out_trans [of "[a]" s s1 al s2] show ?case by (auto simp: m_bind_def)
qed

text \<open>The transaction of a settlement, from any state in which the tournament and the winners exist: it does
  not look at the status.\<close>

lemma settle_commit_pays:
  assumes "wf_db s" "solvent s" "payable al" "\<forall>a \<in> set al. balance s (al_userId a) \<noteq> None"
    and "peek tid (tournaments s) = Some t"
  shows "\<exists>s'. tx ds (settle_commit js_arith tid al) s = (Inr (foldl (decAdd js_arith) 0 (map al_allocation al)), s') \<and>
    paid_out al (tournaments_update (\<lambda>_. c_set tid (t\<lparr>t_status := TS_COMPLETED\<rparr>) (tournaments s)) s) s'"
proof -
  let ?s = "tournaments_update (\<lambda>_. c_set tid (t\<lparr>t_status := TS_COMPLETED\<rparr>) (tournaments s)) s"
  have "set_status tid TS_COMPLETED s = (Inr (t\<lparr>t_status := TS_COMPLETED\<rparr>), ?s)"
    using assms(1,5) by (simp add: set_status_def tournaments.update_id)
  moreover have "wf_db ?s" using tournaments.peek_id [OF assms(1,5)] by (intro tournaments.set_wf [OF assms(1,5)]) simp
  moreover have "solvent ?s" "\<forall>a \<in> set al. balance ?s (al_userId a) \<noteq> None"
    using assms(2,4) by (auto simp: solvent_def balance_def)
  ultimately show ?thesis
    using pay_all [of ?s al 0] assms(3)
    by (auto simp: settle_commit_def m_then_def m_bind_def toDecimal_def intro!: tx_commit)
qed

lemma settle_prepare_active:
  assumes "wf_db s" and "peek tid (tournaments s) = Some t" and "t_status t = TS_ACTIVE"
  shows "settle_prepare E lc tid s = (Inr (computeAllocations E (prizePool t) (ranked E lc tid s)), s)"
  using assms
  by (simp add: settle_prepare_def transitionTournament_def tallyStandings_def isLegalTournamentTransition_def m_bind_def
      tournaments.find_id m_gets_def m_return_def)

lemma settle_refused:
  assumes "wf_db s" and "peek tid (tournaments s) = Some t" and "t_status t \<noteq> TS_ACTIVE"
  shows "settleTournament ds E lc tid s =
    (Inl (App (TournamentInvalidStateError (tournament_status_name (t_status t)) ''COMPLETED'')),
     s\<lparr>effects := effects s @ [Metric ''tournament_transition_failures_total'']\<rparr>)"
  using assms
  by (simp add: settleTournament_def settle_prepare_def transitionTournament_def isLegalTournamentTransition_def m_bind_def
      tournaments.find_id m_throw_def m_then_def emit_eq)

definition settleable_tournament :: "string \<Rightarrow> tournament_row \<Rightarrow> 'c app \<Rightarrow> bool" where
  "settleable_tournament tid t s \<longleftrightarrow>
     wf_db s \<and> solvent s \<and> peek tid (tournaments s) = Some t \<and> t_status t = TS_ACTIVE \<and> prizePool t \<le> 10 ^ 7 \<and>
     (\<forall>p \<in> set (roster tid s). balance s (tp_userId p) \<noteq> None)"

lemma allocations_payable:
  assumes "pool \<le> 10 ^ 7"
  shows "payable (computeAllocations js_arith pool st)"
proof (cases "0 < pool \<and> st \<noteq> []")
  case True
  with js.computeAllocations_shares [of pool st]
  have "\<forall>a \<in> set (computeAllocations js_arith pool st). 0 \<le> al_allocation a \<and> on_grid (al_allocation a) \<and>
      al_allocation a \<le> pool + 2 * unit_err * pool + 1 / (2 * 10 ^ 8)"
    by (simp add: shares_pool_def)
  moreover have "pool + 2 * unit_err * pool + 1 / (2 * 10 ^ 8) \<le> 2 * 10 ^ 7" using assms by (simp add: unit_err_def)
  ultimately show ?thesis unfolding payable_def by (meson order_trans)
qed (auto simp: computeAllocations_def payable_def toDecimal_def not_less)

lemma winners_exist:
  assumes "settleable_tournament tid t s"
  shows "\<forall>a \<in> set (computeAllocations E pool (ranked E lc tid s)). balance s (al_userId a) \<noteq> None"
proof
  fix a assume "a \<in> set (computeAllocations E pool (ranked E lc tid s))"
  with allocation_users [of E pool "ranked E lc tid s"] ranked_users [of E lc tid s]
  have "al_userId a \<in> tp_userId ` set (roster tid s)" by blast
  with assms show "balance s (al_userId a) \<noteq> None" by (auto simp: settleable_tournament_def)
qed

text \<open>C27. Settling an ACTIVE tournament whose participants exist, with a prize of at most ten million, succeeds:
  the tournament is COMPLETED, every user's balance grows by exactly the amounts allocated to them, one
  transaction row is written per allocation, and the answer reports those allocations.  Settling it again
  is refused as an illegal transition and moves no money.\<close>

theorem tournament_settlement:
  fixes lc :: "string \<Rightarrow> string \<Rightarrow> int"
  assumes "settleable_tournament tid t s"
  defines "al \<equiv> computeAllocations js_arith (prizePool t) (ranked js_arith lc tid s)"
  shows "\<exists>r s' s''.
    settleTournament ds js_arith lc tid s = (Inr r, s') \<and> po_allocations r = al \<and> po_winnersCount r = length al \<and>
    peek tid (tournaments s') = Some (t\<lparr>t_status := TS_COMPLETED\<rparr>) \<and>
    (\<forall>u. balance s' u = map_option (\<lambda>b. b + paid_to al u) (balance s u)) \<and>
    length (rows (transactions s')) = length (rows (transactions s)) + length al \<and>
    settleTournament ds js_arith lc tid s' = (Inl (App (TournamentInvalidStateError ''COMPLETED'' ''COMPLETED'')), s'') \<and>
    users s'' = users s' \<and> transactions s'' = transactions s'"
proof -
  from assms(1) have s: "wf_db s" "solvent s" "peek tid (tournaments s) = Some t" "t_status t = TS_ACTIVE" "prizePool t \<le> 10 ^ 7"
    by (auto simp: settleable_tournament_def)
  have al: "payable al" "\<forall>a \<in> set al. balance s (al_userId a) \<noteq> None"
    unfolding al_def using allocations_payable [OF s(5)] winners_exist [OF assms(1)] by auto
  from settle_commit_pays [OF s(1,2) al s(3)] obtain s'
    where s': "tx ds (settle_commit js_arith tid al) s = (Inr (foldl (decAdd js_arith) 0 (map al_allocation al)), s')"
      "paid_out al (tournaments_update (\<lambda>_. c_set tid (t\<lparr>t_status := TS_COMPLETED\<rparr>) (tournaments s)) s) s'"
    by blast
  from s'(2) have t': "wf_db s'" "peek tid (tournaments s') = Some (t\<lparr>t_status := TS_COMPLETED\<rparr>)" by (auto simp: paid_out_def)
  have "settleTournament ds js_arith lc tid s = (Inr \<lparr>po_totalPaid = toFix js_arith 8 (foldl (decAdd js_arith) 0 (map al_allocation al)),
      po_winnersCount = length al, po_allocations = al\<rparr>, s')"
    using s' settle_prepare_active [OF s(1,3,4)] by (simp add: settleTournament_def m_bind_def m_return_def al_def)
  with s'(2) t' settle_refused [OF t'] show ?thesis by (auto simp: paid_out_def balance_def)
qed

text \<open>The status check of a settlement runs outside its transaction.  Two settlements of one tournament that
  both pass the check before either writes both succeed, and every winner is paid twice.\<close>

theorem settlement_race_pays_twice:
  fixes lc :: "string \<Rightarrow> string \<Rightarrow> int"
  assumes "settleable_tournament tid t s"
  defines "al \<equiv> computeAllocations js_arith (prizePool t) (ranked js_arith lc tid s)"
  shows "settle_prepare js_arith lc tid s = (Inr al, s) \<and>
    (\<exists>x s1 s2. tx ds (settle_commit js_arith tid al) s = (Inr x, s1) \<and> tx ds (settle_commit js_arith tid al) s1 = (Inr x, s2) \<and>
      (\<forall>u. balance s2 u = map_option (\<lambda>b. b + 2 * paid_to al u) (balance s u)))"
proof -
  from assms(1) have s: "wf_db s" "solvent s" "peek tid (tournaments s) = Some t" "t_status t = TS_ACTIVE" "prizePool t \<le> 10 ^ 7"
    by (auto simp: settleable_tournament_def)
  have al: "payable al" "\<forall>a \<in> set al. balance s (al_userId a) \<noteq> None"
    unfolding al_def using allocations_payable [OF s(5)] winners_exist [OF assms(1)] by auto
  let ?x = "foldl (decAdd js_arith) 0 (map al_allocation al)"
  from settle_commit_pays [OF s(1,2) al s(3)] obtain s1
    where s1: "tx ds (settle_commit js_arith tid al) s = (Inr ?x, s1)"
      "paid_out al (tournaments_update (\<lambda>_. c_set tid (t\<lparr>t_status := TS_COMPLETED\<rparr>) (tournaments s)) s) s1"
    by blast
  then have "wf_db s1" "solvent s1" "\<forall>a \<in> set al. balance s1 (al_userId a) \<noteq> None"
      "peek tid (tournaments s1) = Some (t\<lparr>t_status := TS_COMPLETED\<rparr>)"
    using al(2) by (auto simp: paid_out_def balance_def)
  from settle_commit_pays [OF this(1,2) al(1) this(3,4)] obtain s2
    where s2: "tx ds (settle_commit js_arith tid al) s1 = (Inr ?x, s2)"
      "\<forall>u. balance s2 u = map_option (\<lambda>b. b + paid_to al u) (balance s1 u)"
    by (auto simp: paid_out_def balance_def)
  from s1(2) have "\<forall>u. balance s1 u = map_option (\<lambda>b. b + paid_to al u) (balance s u)"
    by (auto simp: paid_out_def balance_def)
  with s2(2) have "\<forall>u. balance s2 u = map_option (\<lambda>b. b + 2 * paid_to al u) (balance s u)"
    by (simp add: option.map_comp comp_def add.assoc)
  with s1(1) s2(1) settle_prepare_active [OF s(1,3,4)] show ?thesis unfolding al_def by blast
qed


lemma dround_exact:
  assumes "0 < x" and "exp_of 10 x = e" and "x * 10 powi (19 - e) = of_int n"
  shows "dround js_arith x = x"
proof -
  have "(10 :: rat) powi (19 - e) \<noteq> 0" by simp
  with assms have "of_int n / 10 powi (19 - e) = x" by (metis nonzero_mult_div_cancel_right)
  with assms show ?thesis by (simp add: js_arith_def sig_round_def)
qed

lemma small_sums:
  "dround js_arith (3 / 200000000) = 3 / 200000000" "dround js_arith (9 / 1000000000) = 9 / 1000000000"
  "dround js_arith (3 / 125000000) = 3 / 125000000" "dround js_arith (3 / 500000000) = 3 / 500000000"
  using dround_exact [of "3 / 200000000" "-8" "15 * 10 ^ 18"] dround_exact [of "9 / 1000000000" "-9" "9 * 10 ^ 19"]
    dround_exact [of "3 / 125000000" "-8" "24 * 10 ^ 18"] dround_exact [of "3 / 500000000" "-9" "6 * 10 ^ 19"]
  by (simp_all add: exp_of_def exp_up.simps exp_down.simps power_int_def)

lemma small_fixes:
  "toFix js_arith 8 (3 / 200000000) = 2 / 10 ^ 8" "toFix js_arith 8 (9 / 1000000000) = 1 / 10 ^ 8"
  "toFix js_arith 8 (3 / 500000000) = 1 / 10 ^ 8"
  by (simp_all add: js_arith_def fix_round_def round_def floor_eq_iff)

text \<open>The amounts are rounded to eight decimals one by one, so their sum can miss the pool: three units of the
  eighth decimal are paid out as four.\<close>

lemma allocations_exceed_pool:
  "map al_allocation (computeAllocations js_arith (3 / 10 ^ 8) [g, h, k]) = [2 / 10 ^ 8, 1 / 10 ^ 8, 1 / 10 ^ 8]"
  by (simp add: computeAllocations_def Let_def decimal_defs prize_weights_def numeral_3_eq_3 numeral_2_eq_2
      small_sums small_fixes)


definition demo_standing :: "string \<Rightarrow> nat \<Rightarrow> standing" where
  "demo_standing u n = \<lparr>sg_tournamentId = ''t1'', sg_participantId = ''p'' @ u, sg_userId = u, sg_rank = n,
     sg_totalEarnings = 0, sg_totalWins = 0\<rparr>"


definition demo_tournament :: tournament_row where
  "demo_tournament = \<lparr>t_id = ''t1'', t_name = ''Cup'', t_description = ''Weekly'', t_mode = UP_DOWN, t_status = TS_ACTIVE,
     entryFee = 10, prizePool = 5000, maxParticipants = 2, currentParticipants = 2, t_startTime = 0, t_endTime = 100,
     t_rounds = 5, t_createdAt = 0\<rparr>"

definition demo_member :: "string \<Rightarrow> string \<Rightarrow> participant_row" where
  "demo_member i u = \<lparr>tp_id = i, tp_tournamentId = ''t1'', tp_userId = u, joinedAt = 0\<rparr>"

definition demo_player :: "string \<Rightarrow> user_row" where
  "demo_player u = \<lparr>u_id = u, walletAddress = u, virtualBalance = 0, wins = 0, streak = 0,
     u_role = UR_USER, lastLoginAt = None\<rparr>"

definition demo_cup :: "unit app" where
  "demo_cup = (blank_app ())\<lparr>tournaments := table_of t_id [demo_tournament],
     participants := table_of tp_id [demo_member ''p1'' ''u1'', demo_member ''p2'' ''u2''],
     users := table_of u_id [demo_player ''u1'', demo_player ''u2'']\<rparr>"

lemmas demo_cup_eval = demo_cup_def demo_tournament_def demo_member_def demo_player_def blank_app_def table_of_eval

lemma demo_cup_wf: "wf_db demo_cup"
  by (simp add: wf_db_def demo_cup_def blank_app_def wf_table_of demo_tournament_def demo_member_def demo_player_def)

lemma demo_cup_peek: "peek k (tournaments demo_cup) = (if k = ''t1'' then Some demo_tournament else None)"
  by (simp add: demo_cup_eval)

lemma demo_cup_roster: "roster k demo_cup = (if k = ''t1'' then [demo_member ''p1'' ''u1'', demo_member ''p2'' ''u2''] else [])"
  by (simp add: roster_def filtered_def demo_cup_eval)

lemma demo_cup_settleable: "settleable_tournament ''t1'' demo_tournament demo_cup"
proof -
  have "solvent demo_cup" by (simp add: solvent_def demo_cup_eval)
  moreover have "balance demo_cup ''u1'' \<noteq> None" "balance demo_cup ''u2'' \<noteq> None" by (simp_all add: balance_def demo_cup_eval)
  moreover have "t_status demo_tournament = TS_ACTIVE" "prizePool demo_tournament = 5000" by (simp_all add: demo_tournament_def)
  ultimately show ?thesis
    by (simp add: settleable_tournament_def demo_cup_wf demo_cup_roster demo_cup_peek demo_member_def)
qed

lemma demo_cup_rosters: "rosters_ok demo_cup"
  by (simp add: rosters_ok_def roster_of_def demo_cup_roster demo_cup_peek demo_member_def) (simp add: demo_tournament_def)

theorem tournament_settlement_witness:
  "\<exists>r s'. settleTournament Postgres js_arith (\<lambda>_ _. 0) ''t1'' demo_cup = (Inr r, s') \<and>
     peek ''t1'' (tournaments s') = Some (demo_tournament\<lparr>t_status := TS_COMPLETED\<rparr>)"
  using tournament_settlement [OF demo_cup_settleable, of Postgres "\<lambda>_ _. 0"] by blast

theorem settlement_race_pays_twice_witness:
  "\<exists>al x s1 s2. tx Postgres (settle_commit js_arith ''t1'' al) demo_cup = (Inr x, s1) \<and>
     tx Postgres (settle_commit js_arith ''t1'' al) s1 = (Inr x, s2)"
  using settlement_race_pays_twice [OF demo_cup_settleable, where ds = Postgres and lc = "\<lambda>_ _. 0"] by blast


end
