(* ===== verification/PayoutReconciliation.thy ===== *)
theory PayoutReconciliation
  imports Bets
begin

text \<open>
  The payout worker (\<open>src/src/services/payout-reconciliation.service.ts\<close>, class
  \<open>PayoutReconciliationService\<close>).

  A run queues a PENDING claim for every wallet that may hold unclaimed winnings, and then works off the stuck
  claims.  The counters the source updates in place are a value that the operations pass on; nothing throws
  between an update of a counter and the end of an operation, except where a \<open>catch\<close> counts the error.
  The order in which the database lists user ids is the parameter \<open>collate\<close>.
\<close>

subsection \<open>Configuration and counters\<close>

record PayoutReconciliationConfig =
  pendingAgeMs :: int
  submittedAgeMs :: int
  pr_batchSize :: nat
  maxAutoAttempts :: int

definition DEFAULT_CONFIG :: PayoutReconciliationConfig where
  "DEFAULT_CONFIG = \<lparr>pendingAgeMs = 60 * 1000, submittedAgeMs = 60 * 1000, pr_batchSize = 50, maxAutoAttempts = 5\<rparr>"

record PayoutReconciliationResult =
  pr_checked :: nat
  pr_submitted :: nat
  pr_confirmed :: nat
  pr_noPending :: nat
  pr_failed :: nat
  pr_flagged :: nat
  pr_errors :: nat
  pr_swept :: nat
  pr_noop :: nat

definition zero_result :: PayoutReconciliationResult where
  "zero_result = \<lparr>pr_checked = 0, pr_submitted = 0, pr_confirmed = 0, pr_noPending = 0, pr_failed = 0,
     pr_flagged = 0, pr_errors = 0, pr_swept = 0, pr_noop = 0\<rparr>"

record PayoutSweepResult =
  sw_swept :: nat
  sw_skippedOpen :: nat
  sw_skippedAlreadySwept :: nat

subsection \<open>Queueing candidates\<close>

fun insert_id :: "(string \<Rightarrow> string \<Rightarrow> bool) \<Rightarrow> string \<Rightarrow> string list \<Rightarrow> string list" where
  "insert_id collate x [] = [x]"
| "insert_id collate x (y # ys) = (if collate x y then x # y # ys else y # insert_id collate x ys)"

text \<open>\<open>groupBy userId\<close> over the resolved bets with the latest resolution, in the order of the ids.\<close>

definition resolved_groups :: "(string \<Rightarrow> string \<Rightarrow> bool) \<Rightarrow> nat \<Rightarrow> 'z db_scheme \<Rightarrow> (string \<times> int option) list" where
  "resolved_groups collate n s =
     (let bs = filtered (\<lambda>b. b_status b = BS_RESOLVED) (bets s);
          ids = foldr (insert_id collate) (remdups (map b_userId bs)) []
      in take n (map (\<lambda>u.
           (u, let ts = List.map_filter b_resolvedAt (filter (\<lambda>b. b_userId b = u) bs)
               in if ts = [] then None else Some (foldl max (hd ts) (tl ts)))) ids))"

definition queued_claim :: "int \<Rightarrow> string \<Rightarrow> string \<Rightarrow> string \<Rightarrow> claim_row" where
  "queued_claim now uid address i = \<lparr>c_id = i, c_userId = Some uid, c_walletAddress = address, c_amount = None,
     c_status = CS_PENDING, c_txHash = None, c_attempts = 0, c_lastError = None, claimedAt = None,
     c_createdAt = now, c_updatedAt = now\<rparr>"

definition latest_confirmed :: "string \<Rightarrow> 'z db_scheme \<Rightarrow> claim_row option" where
  "latest_confirmed address s =
     c_findFirst (\<lambda>c. c_walletAddress c = address \<and> c_status c = CS_CONFIRMED) (Some (c_createdAt, True)) (claims s)"

fun sweep_groups ::
  "nat \<Rightarrow> int \<Rightarrow> (string \<times> int option) list \<Rightarrow> PayoutSweepResult \<Rightarrow> ('c app, js_error, PayoutSweepResult) comp" where
  "sweep_groups batchSize now [] result = m_return result"
| "sweep_groups batchSize now ((uid, latestSettledAt) # groups) result =
     (if uid = [] then sweep_groups batchSize now groups result
      else m_bind (t_find users (\<lambda>u. u_id u = uid)) (\<lambda>user.
        case user of
          None \<Rightarrow> sweep_groups batchSize now groups result
        | Some u \<Rightarrow>
            if walletAddress u = [] then sweep_groups batchSize now groups result
            else m_bind (m_gets (\<lambda>s. c_findFirst (open_claim (walletAddress u)) None (claims s))) (\<lambda>openClaim.
              if openClaim \<noteq> None
              then sweep_groups batchSize now groups (result\<lparr>sw_skippedOpen := sw_skippedOpen result + 1\<rparr>)
              else m_bind (m_gets (latest_confirmed (walletAddress u))) (\<lambda>latestConfirmed.
                if (case (latestSettledAt, latestConfirmed) of
                      (Some t, Some c) \<Rightarrow> t \<le> c_createdAt c | _ \<Rightarrow> False)
                then sweep_groups batchSize now groups
                  (result\<lparr>sw_skippedAlreadySwept := sw_skippedAlreadySwept result + 1\<rparr>)
                else if batchSize \<le> sw_swept result then m_return result
                else m_then (t_create claims claims_update (queued_claim now (u_id u) (walletAddress u)))
                  (sweep_groups batchSize now groups (result\<lparr>sw_swept := sw_swept result + 1\<rparr>))))))"

definition sweepUnclaimedWinnings ::
  "(string \<Rightarrow> string \<Rightarrow> bool) \<Rightarrow> PayoutReconciliationConfig \<Rightarrow> int \<Rightarrow> ('c app, js_error, PayoutSweepResult) comp" where
  "sweepUnclaimedWinnings collate cfg now =
     m_bind (m_gets (resolved_groups collate (pr_batchSize cfg * 2))) (\<lambda>groups.
       sweep_groups (pr_batchSize cfg) now groups \<lparr>sw_swept = 0, sw_skippedOpen = 0, sw_skippedAlreadySwept = 0\<rparr>)"

subsection \<open>Guarded transitions of a claim\<close>

text \<open>\<open>claim.updateMany\<close> on the row's id and a set of statuses; a count of zero is a no-op.\<close>

definition guarded_update ::
  "int \<Rightarrow> string \<Rightarrow> ClaimStatus set \<Rightarrow> (claim_row \<Rightarrow> claim_row) \<Rightarrow> ('c app, js_error, nat) comp" where
  "guarded_update now cid from f =
     t_updateMany claims claims_update (\<lambda>c. c_id c = cid \<and> c_status c \<in> from) (\<lambda>c. (f c)\<lparr>c_updatedAt := now\<rparr>)"

datatype confirm_outcome = Confirmed | NoPending

definition markConfirmed ::
  "int \<Rightarrow> claim_row \<Rightarrow> PayoutReconciliationResult \<Rightarrow> confirm_outcome \<Rightarrow> ('c app, js_error, PayoutReconciliationResult) comp" where
  "markConfirmed now row result outcome =
     m_bind (guarded_update now (c_id row) {CS_PENDING, CS_SUBMITTED, CS_FAILED}
       (\<lambda>c. c\<lparr>c_status := CS_CONFIRMED,
          c_amount := (if outcome = NoPending then Some 0
            else case c_amount row of None \<Rightarrow> c_amount c | Some a \<Rightarrow> Some a),
          c_lastError := None, claimedAt := Some now\<rparr>)) (\<lambda>count.
     if count = 0 then m_return (result\<lparr>pr_noop := pr_noop result + 1\<rparr>)
     else m_then (emit (Metric ''payout_claims_resolved_total''))
       (m_return (if outcome = NoPending then result\<lparr>pr_noPending := pr_noPending result + 1\<rparr>
                  else result\<lparr>pr_confirmed := pr_confirmed result + 1\<rparr>)))"

definition recordFailedAttempt ::
  "int \<Rightarrow> PayoutReconciliationConfig \<Rightarrow> claim_row \<Rightarrow> PayoutReconciliationResult \<Rightarrow> string \<Rightarrow>
   ('c app, js_error, PayoutReconciliationResult) comp" where
  "recordFailedAttempt now cfg row result reason =
     (let attempts = c_attempts row + 1;
          willFlag = maxAutoAttempts cfg \<le> attempts;
          nextStatus = (if willFlag then CS_NEEDS_MANUAL_REVIEW else CS_FAILED)
      in m_bind (guarded_update now (c_id row) {c_status row}
           (\<lambda>c. c\<lparr>c_status := nextStatus, c_attempts := c_attempts c + 1, c_lastError := Some (take 1000 reason)\<rparr>)) (\<lambda>count.
         if count = 0 then m_return (result\<lparr>pr_noop := pr_noop result + 1\<rparr>)
         else if willFlag then m_then (emit (Metric ''payout_claims_flagged_total''))
           (m_return (result\<lparr>pr_flagged := pr_flagged result + 1\<rparr>))
         else m_return (result\<lparr>pr_failed := pr_failed result + 1\<rparr>)))"

definition flagForReview ::
  "int \<Rightarrow> claim_row \<Rightarrow> PayoutReconciliationResult \<Rightarrow> string \<Rightarrow> ('c app, js_error, PayoutReconciliationResult) comp" where
  "flagForReview now row result msg =
     m_bind (guarded_update now (c_id row) {c_status row}
       (\<lambda>c. c\<lparr>c_status := CS_NEEDS_MANUAL_REVIEW, c_attempts := c_attempts c + 1, c_lastError := Some (take 1000 msg)\<rparr>)) (\<lambda>count.
     if count = 0 then m_return (result\<lparr>pr_noop := pr_noop result + 1\<rparr>)
     else m_then (emit (Metric ''payout_claims_flagged_total'')) (m_return (result\<lparr>pr_flagged := pr_flagged result + 1\<rparr>)))"

subsection \<open>Working off one claim\<close>

definition readPendingWinnings ::
  "'c xelma_client \<Rightarrow> int \<Rightarrow> string \<Rightarrow> PayoutReconciliationResult \<Rightarrow>
   ('c app, js_error, int option \<times> PayoutReconciliationResult) comp" where
  "readPendingWinnings cl now address result =
     m_catch (m_bind (on_soroban (getPendingWinnings cl now address)) (\<lambda>n. m_return (Some n, result)))
       (\<lambda>_. m_return (None, result\<lparr>pr_errors := pr_errors result + 1\<rparr>))"

definition reconcileSubmitted ::
  "'c xelma_client \<Rightarrow> int \<Rightarrow> PayoutReconciliationConfig \<Rightarrow> claim_row \<Rightarrow> PayoutReconciliationResult \<Rightarrow>
   ('c app, js_error, PayoutReconciliationResult) comp" where
  "reconcileSubmitted cl now cfg row result =
     (if \<not> truthy (c_txHash row) then
        m_bind (readPendingWinnings cl now (c_walletAddress row) result) (\<lambda>(pending, result).
          case pending of
            None \<Rightarrow> m_return result
          | Some n \<Rightarrow>
              if n = 0 then markConfirmed now row result Confirmed
              else recordFailedAttempt now cfg row result ''Claim submission has no txHash and winnings are still pending'')
      else
        m_bind (on_soroban (getTransactionStatus cl now (the (c_txHash row)))) (\<lambda>chain.
          if ts_confirmed chain \<and> ts_successful chain then markConfirmed now row result Confirmed
          else if ts_confirmed chain then
            flagForReview now row result (case ts_error chain of None \<Rightarrow> ''Claim transaction reverted on-chain'' | Some e \<Rightarrow> e)
          else if truthy (ts_error chain) \<and> str_includes (to_lower (the (ts_error chain))) ''not found'' then
            recordFailedAttempt now cfg row result ''Claim transaction not found on-chain; retrying claim''
          else if truthy (ts_error chain) then m_return (result\<lparr>pr_errors := pr_errors result + 1\<rparr>)
          else m_return (result\<lparr>pr_noop := pr_noop result + 1\<rparr>)))"

text \<open>The \<open>try\<close> block of \<open>attemptClaim\<close>.\<close>

definition submit_claim ::
  "arith \<Rightarrow> 'c xelma_client \<Rightarrow> int \<Rightarrow> claim_row \<Rightarrow> PayoutReconciliationResult \<Rightarrow>
   ('c app, js_error, PayoutReconciliationResult) comp" where
  "submit_claim E cl now row result =
     m_bind (on_soroban (Soroban.claimWinnings E cl now (c_walletAddress row))) (\<lambda>claimed.
     m_bind (guarded_update now (c_id row) {CS_PENDING, CS_FAILED}
       (\<lambda>c. c\<lparr>c_status := CS_SUBMITTED,
          c_txHash := (case cr_txHash claimed of None \<Rightarrow> c_txHash row | Some h \<Rightarrow> Some h),
          c_amount := Some (col E (cr_amount claimed)), c_lastError := None\<rparr>)) (\<lambda>count.
     if count = 0 then m_return (result\<lparr>pr_noop := pr_noop result + 1\<rparr>)
     else m_then (emit (Metric ''payout_claims_submitted_total''))
       (m_then (emit (Audit ''CLAIM_ACCEPTED'' (c_walletAddress row)))
         (m_return (result\<lparr>pr_submitted := pr_submitted result + 1\<rparr>)))))"

definition attemptClaim ::
  "arith \<Rightarrow> 'c xelma_client \<Rightarrow> int \<Rightarrow> PayoutReconciliationConfig \<Rightarrow> claim_row \<Rightarrow> PayoutReconciliationResult \<Rightarrow>
   ('c app, js_error, PayoutReconciliationResult) comp" where
  "attemptClaim E cl now cfg row result =
     m_bind (readPendingWinnings cl now (c_walletAddress row) result) (\<lambda>(pending, result).
       case pending of
         None \<Rightarrow> m_return result
       | Some n \<Rightarrow>
           if n = 0 then markConfirmed now row result NoPending
           else
             m_bind (m_gets (\<lambda>s. c_findFirst (\<lambda>c. c_walletAddress c = c_walletAddress row \<and> c_status c = CS_SUBMITTED \<and>
                 c_id c \<noteq> c_id row) None (claims s))) (\<lambda>inFlight.
               if inFlight \<noteq> None then m_return (result\<lparr>pr_noop := pr_noop result + 1\<rparr>)
               else m_catch (submit_claim E cl now row result)
                 (\<lambda>error. recordFailedAttempt now cfg row result (''Claim submission failed: '' @ message_of error))))"

subsection \<open>A pass over the stuck claims\<close>

definition is_stuck :: "PayoutReconciliationConfig \<Rightarrow> int \<Rightarrow> claim_row \<Rightarrow> bool" where
  "is_stuck cfg now c \<longleftrightarrow>
     c_status c = CS_SUBMITTED \<and> c_updatedAt c < now - submittedAgeMs cfg \<or>
     c_status c \<in> {CS_PENDING, CS_FAILED} \<and> c_updatedAt c < now - pendingAgeMs cfg"

definition process_claim ::
  "arith \<Rightarrow> 'c xelma_client \<Rightarrow> int \<Rightarrow> PayoutReconciliationConfig \<Rightarrow> PayoutReconciliationResult \<Rightarrow> claim_row \<Rightarrow>
   ('c app, js_error, PayoutReconciliationResult) comp" where
  "process_claim E cl now cfg r0 row =
     (let result = r0\<lparr>pr_checked := pr_checked r0 + 1\<rparr>
      in m_catch
           (if c_status row = CS_SUBMITTED then reconcileSubmitted cl now cfg row result
            else attemptClaim E cl now cfg row result)
           (\<lambda>_. m_return (result\<lparr>pr_errors := pr_errors result + 1\<rparr>)))"

text \<open>The counts by status, in the order of the object literal.\<close>

definition claim_summary :: "'z db_scheme \<Rightarrow> (ClaimStatus \<times> nat) list" where
  "claim_summary s =
     foldl (\<lambda>summary (st, n). AList.update st n summary)
       [(CS_PENDING, 0), (CS_SUBMITTED, 0), (CS_CONFIRMED, 0), (CS_FAILED, 0), (CS_NEEDS_MANUAL_REVIEW, 0)]
       (c_groupBy c_status (claims s))"

definition recordOpenClaimGauges :: "('c app, js_error, unit) comp" where
  "recordOpenClaimGauges =
     m_bind (m_gets claim_summary) (\<lambda>summary. m_forEach summary (\<lambda>_. emit (Metric ''payout_claims_in_flight'')))"

definition reconcilePendingPayouts ::
  "arith \<Rightarrow> 'c xelma_client \<Rightarrow> PayoutReconciliationConfig \<Rightarrow> int \<Rightarrow> ('c app, js_error, PayoutReconciliationResult) comp" where
  "reconcilePendingPayouts E cl cfg now =
     m_bind (m_gets (\<lambda>s. c_findMany (is_stuck cfg now) (Some (c_createdAt, False)) 0 (Some (pr_batchSize cfg)) (claims s))) (\<lambda>rs.
       if rs = [] then m_return zero_result
       else m_bind (m_foldl (process_claim E cl now cfg) zero_result rs) (\<lambda>result.
         m_then recordOpenClaimGauges (m_return result)))"

definition run_payouts ::
  "(string \<Rightarrow> string \<Rightarrow> bool) \<Rightarrow> arith \<Rightarrow> 'c xelma_client \<Rightarrow> PayoutReconciliationConfig \<Rightarrow> int \<Rightarrow>
   ('c app, js_error, PayoutReconciliationResult) comp" where
  "run_payouts collate E cl cfg now =
     m_bind (sweepUnclaimedWinnings collate cfg now) (\<lambda>sweep.
     m_bind (reconcilePendingPayouts E cl cfg now) (\<lambda>result.
       m_then recordOpenClaimGauges (m_return (result\<lparr>pr_swept := sw_swept sweep\<rparr>))))"

subsection \<open>The life of a claim\<close>

definition claim_status :: "'z db_scheme \<Rightarrow> string \<Rightarrow> ClaimStatus option" where
  "claim_status s k = map_option c_status (peek k (claims s))"

abbreviation open_states :: "ClaimStatus set" where
  "open_states \<equiv> {CS_PENDING, CS_SUBMITTED, CS_FAILED}"

text \<open>Where a claim can get to: nothing returns to PENDING, and CONFIRMED and NEEDS\_MANUAL\_REVIEW are final.\<close>

definition claim_edge :: "ClaimStatus \<Rightarrow> ClaimStatus \<Rightarrow> bool" where
  "claim_edge a b \<longleftrightarrow> a \<in> open_states \<and> b \<noteq> CS_PENDING"

definition one_open :: "'z db_scheme \<Rightarrow> bool" where
  "one_open s \<longleftrightarrow> (\<forall>w k k' c c'. peek k (claims s) = Some c \<longrightarrow> peek k' (claims s) = Some c' \<longrightarrow>
     open_claim w c \<longrightarrow> open_claim w c' \<longrightarrow> k = k')"

text \<open>Claim ids are generated and never empty.\<close>

definition claim_ids :: "'z db_scheme \<Rightarrow> bool" where
  "claim_ids s \<longleftrightarrow> peek [] (claims s) = None \<and> (\<forall>n. generateId (claims s) n \<noteq> [])"

definition claims_from :: "'c app \<Rightarrow> 'c app \<Rightarrow> bool" where
  "claims_from s0 s \<longleftrightarrow> wf_db s \<and> one_open s \<and> claim_ids s \<and>
     (\<forall>k a. claim_status s0 k = Some a \<longrightarrow> (\<exists>b. claim_status s k = Some b \<and> (b = a \<or> claim_edge a b)))"

lemma claims_from_frame [simp]:
  "claims_from s0 (effects_update f s) = claims_from s0 s" "claims_from s0 (soroban_update g s) = claims_from s0 s"
  by (simp_all add: claims_from_def one_open_def claim_status_def claim_ids_def)

lemma claims_from_refl: "wf_db s \<Longrightarrow> one_open s \<Longrightarrow> claim_ids s \<Longrightarrow> claims_from s s"
  by (simp add: claims_from_def)

lemma preserves_claims_emit [preserve_intros]: "preserves (claims_from s0) (emit e)"
  by (simp add: preserves_def emit_eq)

lemma preserves_claims_soroban [preserve_intros]: "preserves (claims_from s0) (on_soroban m)"
  unfolding on_soroban_def by (rule preserves_zoom) simp

text \<open>A write under the guard: the row was open, keeps its wallet, and does not become PENDING.\<close>

lemma claims_from_set:
  assumes "claims_from s0 s" and "peek k (claims s) = Some c" and "c_status c \<in> open_states"
    and "c_id c' = k" and "c_walletAddress c' = c_walletAddress c" and "c_status c' \<noteq> CS_PENDING"
  shows "claims_from s0 (claims_update (\<lambda>_. c_set k c' (claims s)) s)"
proof -
  let ?s = "claims_update (\<lambda>_. c_set k c' (claims s)) s"
  from assms(1) have s: "wf_db s" "one_open s" "claim_ids s" by (auto simp: claims_from_def)
  have "open_claim w c" if "open_claim w c'" for w using that assms(3,5) by (auto simp: open_claim_def)
  then have "one_open ?s" using s(2) assms(2) by (auto simp: one_open_def split: if_splits)
  moreover have "wf_db ?s" by (rule claims.set_wf [OF s(1) assms(2,4)])
  moreover have "claim_ids ?s" using s(3) assms(2) by (auto simp: claim_ids_def)
  moreover have "\<exists>b. claim_status ?s j = Some b \<and> (b = a \<or> claim_edge a b)" if a: "claim_status s0 j = Some a" for j a
  proof -
    from assms(1) a obtain b where b: "claim_status s j = Some b" "b = a \<or> claim_edge a b"
      by (auto simp: claims_from_def)
    show ?thesis
    proof (cases "j = k")
      case True
      with b assms(2,3,6) show ?thesis by (auto simp: claim_status_def claim_edge_def)
    next
      case False
      with b show ?thesis by (auto simp: claim_status_def)
    qed
  qed
  ultimately show ?thesis by (simp add: claims_from_def)
qed

lemma preserves_claim_write [preserve_intros]:
  fixes s0 :: "'c app"
  assumes "\<And>c. c_id (f c) = c_id c \<and> c_walletAddress (f c) = c_walletAddress c \<and> c_status (f c) \<noteq> CS_PENDING"
    and "from \<subseteq> open_states"
  shows "preserves (claims_from s0) (t_updateMany claims claims_update (\<lambda>c. c_id c = k \<and> c_status c \<in> from) f)"
proof (rule preservesI)
  fix s :: "'c app" assume s: "claims_from s0 s"
  then have wf: "wf_db s" by (simp add: claims_from_def)
  have "claims_from s0 (claims_update (\<lambda>_. c_set k (f c) (claims s)) s)"
    if "peek k (claims s) = Some c" "c_status c \<in> from" for c
    using that assms claims.peek_id [OF wf that(1)] by (intro claims_from_set [OF s that(1)]) auto
  with s show "claims_from s0 (snd (t_updateMany claims claims_update (\<lambda>c. c_id c = k \<and> c_status c \<in> from) f s))"
    by (auto simp: claims.updateMany_id wf assms(1) split: option.split)
qed

lemma preserves_guarded [preserve_intros]:
  "(\<And>c. c_id (f c) = c_id c \<and> c_walletAddress (f c) = c_walletAddress c \<and> c_status (f c) \<noteq> CS_PENDING) \<Longrightarrow>
   from \<subseteq> open_states \<Longrightarrow> preserves (claims_from s0) (guarded_update now k from f)"
  unfolding guarded_update_def by (rule preserves_claim_write) simp_all

lemma preserves_markConfirmed [preserve_intros]: "preserves (claims_from s0) (markConfirmed now row result oc)"
  unfolding markConfirmed_def by (intro preserve_intros) auto

lemma preserves_recordFailedAttempt [preserve_intros]:
  "c_status row \<in> open_states \<Longrightarrow> preserves (claims_from s0) (recordFailedAttempt now cfg row result reason)"
  unfolding recordFailedAttempt_def Let_def by (intro preserve_intros) auto

lemma preserves_flagForReview [preserve_intros]:
  "c_status row \<in> open_states \<Longrightarrow> preserves (claims_from s0) (flagForReview now row result msg)"
  unfolding flagForReview_def by (intro preserve_intros) auto

lemma preserves_submit_claim [preserve_intros]: "preserves (claims_from s0) (submit_claim E cl now row result)"
  unfolding submit_claim_def by (intro preserve_intros) auto

lemma preserves_process:
  assumes "c_status row \<in> open_states"
  shows "preserves (claims_from s0) (process_claim E cl now cfg result row)"
  unfolding process_claim_def reconcileSubmitted_def attemptClaim_def readPendingWinnings_def
  by (intro preserve_intros assms)

text \<open>A new open claim for a wallet that has none.\<close>

lemma claims_from_create:
  assumes "claims_from s0 s" and "\<And>i. c_id (mk i) = i" and "\<And>i. c_walletAddress (mk i) = w"
    and "c_findFirst (open_claim w) ord (claims s) = None"
  shows "claims_from s0 (claims_update (\<lambda>_. snd (c_create mk (claims s))) s)"
proof -
  let ?s = "claims_update (\<lambda>_. snd (c_create mk (claims s))) s" and ?i = "generateId (claims s) (idCalls (claims s))"
  from assms(1) have s: "wf_db s" "one_open s" "claim_ids s" by (auto simp: claims_from_def)
  have fresh: "peek ?i (claims s) = None" by (rule wf_t_fresh [OF claims.tbl_wf [OF s(1)]])
  have "filtered (open_claim w) (claims s) = []"
  proof (cases ord)
    case None
    with assms(4) show ?thesis by (auto simp: c_findFirst_def split: list.splits)
  next
    case (Some x)
    obtain key desc where "x = (key, desc)" by (cases x)
    with Some assms(4) have "sortRows key desc (filtered (open_claim w) (claims s)) = []"
      by (auto simp: c_findFirst_def split: list.splits)
    then show ?thesis by (metis length_0_conv length_sort sortRows_def)
  qed
  then have no: "\<not> open_claim w c" if "peek k (claims s) = Some c" for k c
    using filtered_memI [OF that, of "open_claim w"] by auto
  have "open_claim w' (mk ?i) \<Longrightarrow> w' = w" for w' using assms(3) by (auto simp: open_claim_def)
  then have "one_open ?s" using s(2) no by (auto simp: one_open_def peek_c_create split: if_splits)
  moreover have "wf_db ?s" by (rule claims.create_wf [OF s(1) assms(2)])
  moreover have "claim_ids ?s" 
  proof -
    have "generateId (snd (c_create mk (claims s))) = generateId (claims s)" by (simp add: c_create_def Let_def)
    moreover from s(3) have "[] \<noteq> ?i" "peek [] (claims s) = None" by (auto simp: claim_ids_def dest: sym)
    ultimately show ?thesis using s(3) by (simp add: claim_ids_def peek_c_create)
  qed
  moreover have "claim_status ?s k = claim_status s k" if "claim_status s k \<noteq> None" for k
    using that fresh by (auto simp: claim_status_def peek_c_create)
  ultimately show ?thesis
    using assms(1) unfolding claims_from_def by (metis option.distinct(1))
qed

lemma sweep_claims: "claims_from s0 s \<Longrightarrow> claims_from s0 (snd (sweep_groups n now gs result s))"
proof (induction gs arbitrary: s result)
  case (Cons g gs)
  obtain uid t where g: "g = (uid, t)" by (cases g)
  have queue: "claims_from s0 (claims_update (\<lambda>_. snd (c_create (queued_claim now u w) (claims s))) s)"
    if "c_findFirst (open_claim w) None (claims s) = None" for u w
    by (rule claims_from_create [OF Cons.prems _ _ that]) (simp_all add: queued_claim_def)
  show ?case
    using Cons.prems queue unfolding g
    by (auto simp: m_bind_def m_then_def t_find_def m_gets_def m_return_def claims.create_eq
        intro!: Cons.IH split: option.split)
qed (simp add: m_return_def)

subsection \<open>The worker, the endpoint and their interleavings\<close>

text \<open>\<open>Work\<close> is the work on one claim that was read earlier, with whatever it was like then; \<open>Claim\<close> is the
  claim endpoint of \<open>Bets\<close>.\<close>

datatype payout_op =
    Run PayoutReconciliationConfig
  | Sweep PayoutReconciliationConfig
  | Work PayoutReconciliationConfig claim_row
  | Claim bool string

fun payout_step ::
  "(string \<Rightarrow> string \<Rightarrow> bool) \<Rightarrow> arith \<Rightarrow> 'c xelma_client \<Rightarrow> 'c app \<Rightarrow> int \<times> payout_op \<Rightarrow> 'c app" where
  "payout_step collate E cl s (now, Run cfg) = snd (run_payouts collate E cl cfg now s)"
| "payout_step collate E cl s (now, Sweep cfg) = snd (sweepUnclaimedWinnings collate cfg now s)"
| "payout_step collate E cl s (now, Work cfg row) =
     (if c_status row \<in> open_states then snd (process_claim E cl now cfg zero_result row s) else s)"
| "payout_step collate E cl s (now, Claim stub address) = snd (Bets.claimWinnings E cl stub now address s)"

lemma preserves_sweep [preserve_intros]: "preserves (claims_from s0) (sweepUnclaimedWinnings collate cfg now)"
  by (auto simp: preserves_def sweepUnclaimedWinnings_def m_bind_def m_gets_def sweep_claims)

lemma stuck_rows:
  assumes "row \<in> set (c_findMany (is_stuck cfg now) ord 0 tk c)"
  shows "c_status row \<in> open_states \<and> is_stuck cfg now row"
proof -
  have "row \<in> set (filtered (is_stuck cfg now) c)"
    using assms by (auto simp: c_findMany_def sortRows_def Let_def dest!: in_set_takeD split: option.splits prod.splits)
  then show ?thesis by (auto simp: filtered_def is_stuck_def)
qed

lemma preserves_foldl_set: "(\<And>b x. x \<in> set xs \<Longrightarrow> preserves I (f b x)) \<Longrightarrow> preserves I (m_foldl f b xs)"
  by (induction xs arbitrary: b) (simp_all add: preserves_return preserves_bind)

lemma preserves_gauges [preserve_intros]: "preserves (claims_from s0) recordOpenClaimGauges"
  unfolding recordOpenClaimGauges_def by (intro preserve_intros)

lemma preserves_pass [preserve_intros]: "preserves (claims_from s0) (reconcilePendingPayouts E cl cfg now)"
proof (rule preservesI)
  fix s assume s: "claims_from s0 s"
  let ?rs = "c_findMany (is_stuck cfg now) (Some (c_createdAt, False)) 0 (Some (pr_batchSize cfg)) (claims s)"
  have "preserves (claims_from s0) (m_foldl (process_claim E cl now cfg) zero_result ?rs)"
    by (intro preserves_foldl_set preserves_process) (use stuck_rows in blast)
  then have "preserves (claims_from s0) (if ?rs = [] then m_return zero_result
      else m_bind (m_foldl (process_claim E cl now cfg) zero_result ?rs) (\<lambda>result.
         m_then recordOpenClaimGauges (m_return result)))"
    by (intro preserves_if preserves_return preserves_bind preserves_then preserves_gauges)
  from preservesD [OF this s] show "claims_from s0 (snd (reconcilePendingPayouts E cl cfg now s))"
    by (simp add: reconcilePendingPayouts_def m_bind_def [of "m_gets _"] m_gets_def)
qed

lemma preserves_claim_updates [preserve_intros]:
  "truthy existing \<Longrightarrow> preserves (claims_from s0) (recordClaimSubmission E now w result existing)"
  "truthy existing \<Longrightarrow> preserves (claims_from s0) (recordClaimFailure now w err existing)"
  unfolding recordClaimSubmission_def recordClaimFailure_def Let_def
  by (simp_all only: if_True, (intro preserve_intros; auto)+)

text \<open>The endpoint: an open claim is updated in place, and only without one a row is added.\<close>

lemma claim_on_chain_from:
  assumes s: "claims_from s0 s" and existing: "truthy existing \<or> c_findFirst (open_claim w) ord (claims s) = None"
  shows "claims_from s0 (snd (claim_on_chain E cl now w existing s))"
proof (cases "truthy existing")
  case True
  then have "preserves (claims_from s0) (claim_on_chain E cl now w existing)"
    unfolding claim_on_chain_def by (intro preserve_intros)
  with s show ?thesis by (rule preservesD [rotated])
next
  case False
  obtain r so where call: "on_soroban (Soroban.claimWinnings E cl now w) s = (r, s\<lparr>soroban := so\<rparr>)"
    using on_soroban_frame by blast
  have add: "claims_from s0 (claims_update (\<lambda>_. snd (c_create (new_claim now w st h a n e) (claims s))) (s\<lparr>soroban := so\<rparr>))" for st h a n e
    using claims_from_create [of s0 "s\<lparr>soroban := so\<rparr>" "new_claim now w st h a n e" w ord] s existing False
    by (simp add: new_claim_def)
  show ?thesis
    using add False
    by (cases r) (simp_all add: claim_on_chain_def m_catch_def m_bind_def m_then_def call recordClaimSubmission_def
        recordClaimFailure_def claims.create_eq m_return_def m_throw_def emit_eq Let_def)
qed

lemma findFirst_SomeD:
  assumes "wf_t idf c" and "c_findFirst P ord c = Some r"
  shows "P r \<and> peek (idf r) c = Some r"
proof -
  have "r \<in> set (filtered P c)"
  proof (cases ord)
    case None
    with assms(2) show ?thesis by (auto simp: c_findFirst_def split: list.splits)
  next
    case (Some x)
    obtain key desc where x: "x = (key, desc)" by (cases x)
    with Some assms(2) have "r \<in> set (sortRows key desc (filtered P c))"
      by (auto simp: c_findFirst_def split: list.splits)
    then show ?thesis by (simp add: sortRows_def)
  qed
  with assms(1) filtered_memD [of c r P] show ?thesis by (auto simp: wf_t_def)
qed

lemma claimWinnings_from:
  assumes s: "claims_from s0 s"
  shows "claims_from s0 (snd (Bets.claimWinnings E cl stub now w s))"
proof -
  let ?find = "c_findFirst (open_claim w) (Some (c_createdAt, False)) (claims s)"
  have wf: "wf_t c_id (claims s)" and ids: "claim_ids s" using s claims.tbl_wf by (auto simp: claims_from_def)
  have "truthy (Some (c_id c))" if "?find = Some c" for c
    using findFirst_SomeD [OF wf that] ids by (auto simp: truthy_def claim_ids_def)
  then have "claims_from s0 (snd (claim_on_chain E cl now w (map_option c_id ?find) s))"
    by (intro claim_on_chain_from [OF s, where ord = "Some (c_createdAt, False)"]) (cases ?find; simp)
  with s show ?thesis
    by (auto simp: Bets.claimWinnings_def m_bind_def m_gets_def m_return_def m_then_def emit_eq
        split: option.split sum.split prod.split)
qed

lemma payout_step_from: "claims_from s0 s \<Longrightarrow> claims_from s0 (payout_step collate E cl s (now, x))"
proof (cases x)
  case (Run cfg)
  have "preserves (claims_from s0) (run_payouts collate E cl cfg now)"
    unfolding run_payouts_def by (intro preserve_intros)
  then show "claims_from s0 s \<Longrightarrow> ?thesis" by (simp add: Run preservesD)
qed (auto simp: claimWinnings_from preservesD [OF preserves_sweep] preservesD [OF preserves_process])

definition claims_ok :: "'c app \<Rightarrow> bool" where
  "claims_ok s \<longleftrightarrow> wf_db s \<and> one_open s \<and> claim_ids s"

interpretation claim_machine: lifecycle "payout_step collate E cl" claims_ok claim_status claim_edge
proof (unfold_locales, goal_cases)
  case (1 s x)
  then show ?case
    using payout_step_from [OF claims_from_refl, of s collate E cl "fst x" "snd x"] by (auto simp: claims_ok_def claims_from_def)
next
  case (2 s k a x)
  then show ?case
    using payout_step_from [OF claims_from_refl, of s collate E cl "fst x" "snd x"] by (auto simp: claims_ok_def claims_from_def)
qed


definition demo_claim :: "ClaimStatus \<Rightarrow> claim_row" where
  "demo_claim st = (queued_claim 0 ''u1'' ''G'' ''c1'')\<lparr>c_status := st\<rparr>"

definition demo_claims :: "ClaimStatus \<Rightarrow> unit app" where
  "demo_claims st = (blank_app ())\<lparr>claims := table_of c_id [demo_claim st]\<rparr>"

lemma demo_claims_wf: "wf_db (demo_claims st)" "peek ''c1'' (claims (demo_claims st)) = Some (demo_claim st)"
  by (simp_all add: wf_db_def demo_claims_def blank_app_def wf_table_of demo_claim_def queued_claim_def)
     (simp add: table_of_eval)

lemma demo_claims_ok: "claims_ok (demo_claims st)"
  using demo_claims_wf(1) [of st]
  by (auto simp: claims_ok_def one_open_def claim_ids_def demo_claims_def demo_claim_def queued_claim_def
      table_of_eval demo_gen_def split: if_splits)


subsection \<open>What the work on one claim submits and counts\<close>

definition outcomes :: "PayoutReconciliationResult \<Rightarrow> nat" where
  "outcomes r = pr_submitted r + pr_confirmed r + pr_noPending r + pr_failed r + pr_flagged r + pr_errors r + pr_noop r"

definition counts_one :: "PayoutReconciliationResult \<Rightarrow> PayoutReconciliationResult \<Rightarrow> bool" where
  "counts_one r r' \<longleftrightarrow> outcomes r' = outcomes r + 1 \<and> pr_checked r' = pr_checked r"

text \<open>Every result of a computation that starts with counter \<open>r\<close> counts exactly one outcome.\<close>

definition one_outcome :: "PayoutReconciliationResult \<Rightarrow> ('s, 'e, PayoutReconciliationResult) comp \<Rightarrow> bool" where
  "one_outcome r m \<longleftrightarrow> (\<forall>s r' s'. m s = (Inr r', s') \<longrightarrow> counts_one r r')"

lemma one_outcome_intros:
  "counts_one r r' \<Longrightarrow> one_outcome r (m_return r')" "one_outcome r (m_throw e)"
  "(\<And>a. one_outcome r (f a)) \<Longrightarrow> one_outcome r (m_bind first f)"
  "one_outcome r n \<Longrightarrow> one_outcome r (m_then before n)"
  "one_outcome r m \<Longrightarrow> (\<And>e. one_outcome r (h e)) \<Longrightarrow> one_outcome r (m_catch m h)"
  "(b \<Longrightarrow> one_outcome r m1) \<Longrightarrow> (\<not> b \<Longrightarrow> one_outcome r m2) \<Longrightarrow> one_outcome r (if b then m1 else m2)"
  by (auto simp: one_outcome_def m_return_def m_throw_def m_catch_def split: sum.splits prod.splits elim!: m_bindE m_thenE)

lemma counts_simps:
  "counts_one r (r\<lparr>pr_noop := pr_noop r + 1\<rparr>)" "counts_one r (r\<lparr>pr_errors := pr_errors r + 1\<rparr>)"
  "counts_one r (r\<lparr>pr_failed := pr_failed r + 1\<rparr>)" "counts_one r (r\<lparr>pr_flagged := pr_flagged r + 1\<rparr>)"
  "counts_one r (r\<lparr>pr_submitted := pr_submitted r + 1\<rparr>)" "counts_one r (r\<lparr>pr_confirmed := pr_confirmed r + 1\<rparr>)"
  "counts_one r (r\<lparr>pr_noPending := pr_noPending r + 1\<rparr>)"
  by (simp_all add: counts_one_def outcomes_def)

lemma counts_if: "(b \<Longrightarrow> counts_one r x) \<Longrightarrow> (\<not> b \<Longrightarrow> counts_one r y) \<Longrightarrow> counts_one r (if b then x else y)"
  by simp

lemmas outcome_rules = one_outcome_intros counts_simps counts_if

lemma markConfirmed_outcome: "one_outcome r (markConfirmed now row r oc)"
  unfolding markConfirmed_def by (intro outcome_rules)

lemma recordFailedAttempt_outcome: "one_outcome r (recordFailedAttempt now cfg row r reason)"
  unfolding recordFailedAttempt_def Let_def by (intro outcome_rules)

lemma flagForReview_outcome: "one_outcome r (flagForReview now row r msg)"
  unfolding flagForReview_def by (intro outcome_rules)

lemma submit_claim_outcome: "one_outcome r (submit_claim E cl now row r)"
  unfolding submit_claim_def by (intro outcome_rules)

lemmas transition_outcomes = markConfirmed_outcome recordFailedAttempt_outcome flagForReview_outcome submit_claim_outcome

text \<open>Reading the winnings counts an error exactly when it has no answer.\<close>

lemma readPendingWinnings_eq:
  "readPendingWinnings cl now w r s =
    (case getPendingWinnings cl now w (soroban s) of
       (Inr n, so) \<Rightarrow> (Inr (Some n, r), s\<lparr>soroban := so\<rparr>)
     | (Inl e, so) \<Rightarrow> (Inr (None, r\<lparr>pr_errors := pr_errors r + 1\<rparr>), s\<lparr>soroban := so\<rparr>))"
  by (simp add: readPendingWinnings_def on_soroban_def comp_defs split: prod.split sum.split)

lemma after_reading_outcome:
  assumes "\<And>n. one_outcome r (f n r)"
  shows "one_outcome r (m_bind (readPendingWinnings cl now w r) (\<lambda>(pending, result).
    case pending of None \<Rightarrow> m_return result | Some n \<Rightarrow> f n result))"
  unfolding one_outcome_def
proof (intro allI impI)
  fix s :: "'a app" and r' s'
  assume m: "m_bind (readPendingWinnings cl now w r) (\<lambda>(pending, result).
    case pending of None \<Rightarrow> m_return result | Some n \<Rightarrow> f n result) s = (Inr r', s')"
  obtain x so where x: "getPendingWinnings cl now w (soroban s) = (x, so)" by fastforce
  show "counts_one r r'"
  proof (cases x)
    case (Inl e)
    with m x have "r' = r\<lparr>pr_errors := pr_errors r + 1\<rparr>" by (simp add: m_bind_def readPendingWinnings_eq)
    then show ?thesis by (simp only: counts_simps)
  next
    case (Inr n)
    with m x have "f n r (s\<lparr>soroban := so\<rparr>) = (Inr r', s')" by (simp add: m_bind_def readPendingWinnings_eq)
    with assms show ?thesis unfolding one_outcome_def by blast
  qed
qed

lemma process_claim_outcome:
  "\<exists>r' s'. process_claim E cl now cfg r row s = (Inr r', s') \<and> outcomes r' = outcomes r + 1 \<and> pr_checked r' = pr_checked r + 1"
proof -
  let ?r = "r\<lparr>pr_checked := pr_checked r + 1\<rparr>"
  have "one_outcome ?r (process_claim E cl now cfg r row)"
    unfolding process_claim_def reconcileSubmitted_def attemptClaim_def Let_def
    by (intro outcome_rules transition_outcomes after_reading_outcome)
  moreover obtain x s' where "process_claim E cl now cfg r row s = (x, s')" by fastforce
  moreover have "\<exists>r'. fst (process_claim E cl now cfg r row s) = Inr r'"
    by (simp add: process_claim_def Let_def m_catch_def m_return_def split: prod.split sum.split)
  ultimately show ?thesis by (cases x) (auto simp: one_outcome_def counts_one_def outcomes_def)
qed

subsection \<open>The worker submits only what is owed\<close>

lemma callWithBreaker_quiet:
  assumes "\<And>s. submissions (snd (m s)) = submissions s"
  shows "submissions (snd (callWithBreaker now (withTimeout (call_options ms 1) m) s)) = submissions s"
proof (cases "callWithBreaker now (withTimeout (call_options ms 1) m) s")
  case (Pair r s')
  then show ?thesis
  proof (cases rule: callWithBreaker_cases)
    case (run b l tr s1 f g)
    have "submissions s1 = submissions s"
      using run(1) assms [of "s\<lparr>sor_limiter := l, sor_breaker := b\<rparr>"]
      by (auto simp: withTimeout_once split: prod.splits sum.splits)
    with run(2) Pair show ?thesis by simp
  qed (use Pair in simp_all)
qed

lemma getPendingWinnings_quiet: "submissions (snd (getPendingWinnings (recording cl) now w s)) = submissions s"
proof -
  have "submissions (snd (on_chain (get_pending_winnings (recording cl) w) t)) = submissions t" for t
    by (cases "sor_chain t") (auto simp: on_chain_def recording_def submissions_def comp_defs split: prod.splits)
  from callWithBreaker_quiet [of "on_chain (get_pending_winnings (recording cl) w)" now 10000 s, OF this] show ?thesis
    by (auto simp: getPendingWinnings_def querying_def comp_defs split: prod.splits sum.splits)
qed

lemma getTransactionStatus_quiet: "submissions (snd (getTransactionStatus (recording cl) now h s)) = submissions s"
proof -
  let ?m = "m_bind (on_chain (rpc_getTransaction (recording cl) h)) (\<lambda>r. m_return (read_rpc_reply r))"
  have "submissions (snd (?m t)) = submissions t" for t
    by (cases "sor_chain t") (auto simp: on_chain_def recording_def submissions_def comp_defs split: prod.splits sum.splits)
  from callWithBreaker_quiet [of ?m now 10000 s, OF this] show ?thesis
    by (auto simp: getTransactionStatus_def ensureInitialized_def comp_defs split: prod.splits sum.splits)
qed

lemma claimWinnings_submissions:
  "length (submissions (snd (Soroban.claimWinnings E (recording cl) now w s))) \<le> length (submissions s) + 2"
proof -
  let ?k = "\<lambda>(_, res). case parseClaimResult E res of Inl e \<Rightarrow> m_throw e | Inr r \<Rightarrow> m_return r"
  have "length (submissions (snd (m_bind (signAndSend (recording cl) signWithAdmin (claim_winnings w)) ?k t)))
      \<le> length (submissions t) + 1" for t
    by (rule send_then_measure) (auto simp: comp_defs split: sum.splits prod.splits)
  from mutating_measure [where n = 2, OF this] show ?thesis
    by (simp add: Soroban.claimWinnings_def MAX_RETRIES_def)
qed

text \<open>The transitions write claims and effects only.\<close>

lemma preserves_chain_guarded: "preserves (\<lambda>s. soroban s = x) (guarded_update now k from f)"
  unfolding guarded_update_def by (rule preserves_other_table) simp

lemma preserves_chain_emit: "preserves (\<lambda>s. soroban s = x) (emit e)"
  by (simp add: preserves_def emit_eq)

lemmas chain_rules = preserve_intros preserves_chain_guarded preserves_chain_emit

lemma transitions_chain:
  "soroban (snd (markConfirmed now row r oc s)) = soroban s"
  "soroban (snd (recordFailedAttempt now cfg row r reason s)) = soroban s"
  "soroban (snd (flagForReview now row r msg s)) = soroban s"
proof -
  have "preserves (\<lambda>t. soroban t = soroban s) (markConfirmed now row r oc)"
    unfolding markConfirmed_def by (intro chain_rules)
  then show "soroban (snd (markConfirmed now row r oc s)) = soroban s" by (simp add: preserves_def)
  have "preserves (\<lambda>t. soroban t = soroban s) (recordFailedAttempt now cfg row r reason)"
    unfolding recordFailedAttempt_def by (intro chain_rules)
  then show "soroban (snd (recordFailedAttempt now cfg row r reason s)) = soroban s" by (simp add: preserves_def)
  have "preserves (\<lambda>t. soroban t = soroban s) (flagForReview now row r msg)"
    unfolding flagForReview_def by (intro chain_rules)
  then show "soroban (snd (flagForReview now row r msg s)) = soroban s" by (simp add: preserves_def)
qed

lemma submit_claim_chain:
  "length (submissions (soroban (snd (submit_claim E (recording cl) now row r s)))) \<le> length (submissions (soroban s)) + 2"
proof -
  obtain x so where x: "Soroban.claimWinnings E (recording cl) now (c_walletAddress row) (soroban s) = (x, so)" by fastforce
  let ?rest = "\<lambda>claimed. m_bind (guarded_update now (c_id row) {CS_PENDING, CS_FAILED}
       (\<lambda>c. c\<lparr>c_status := CS_SUBMITTED,
          c_txHash := (case cr_txHash claimed of None \<Rightarrow> c_txHash row | Some h \<Rightarrow> Some h),
          c_amount := Some (col E (cr_amount claimed)), c_lastError := None\<rparr>)) (\<lambda>count.
     if count = 0 then m_return (r\<lparr>pr_noop := pr_noop r + 1\<rparr>)
     else m_then (emit (Metric ''payout_claims_submitted_total''))
       (m_then (emit (Audit ''CLAIM_ACCEPTED'' (c_walletAddress row)))
         (m_return (r\<lparr>pr_submitted := pr_submitted r + 1\<rparr>))))"
  have "soroban (snd (?rest claimed (s\<lparr>soroban := so\<rparr>))) = so" for claimed
    by (rule preservesD [where I = "\<lambda>t. soroban t = so"], intro chain_rules) simp
  moreover have "on_soroban (Soroban.claimWinnings E (recording cl) now (c_walletAddress row)) s = (x, s\<lparr>soroban := so\<rparr>)"
    using x by (simp add: on_soroban_def m_zoom_def)
  ultimately have "soroban (snd (submit_claim E (recording cl) now row r s)) = so"
    by (cases x) (simp_all add: submit_claim_def
        m_bind_def [of "on_soroban (Soroban.claimWinnings E (recording cl) now (c_walletAddress row))"])
  with claimWinnings_submissions [of E cl now "c_walletAddress row" "soroban s"] x show ?thesis by simp
qed

definition other_in_flight :: "claim_row \<Rightarrow> 'z db_scheme \<Rightarrow> bool" where
  "other_in_flight row s \<longleftrightarrow> (\<exists>k c. peek k (claims s) = Some c \<and> c_walletAddress c = c_walletAddress row \<and>
     c_status c = CS_SUBMITTED \<and> c_id c \<noteq> c_id row)"

lemma attemptClaim_chain:
  fixes s :: "('c \<times> contract_call list) app"
  assumes "attemptClaim E (recording cl) now cfg row r s = (x, s')"
  shows "submissions (soroban s') = submissions (soroban s) \<or>
    length (submissions (soroban s')) \<le> length (submissions (soroban s)) + 2 \<and> \<not> other_in_flight row s \<and>
    (\<exists>n so. getPendingWinnings (recording cl) now (c_walletAddress row) (soroban s) = (Inr n, so) \<and> n \<noteq> 0)"
proof -
  obtain p so where p: "getPendingWinnings (recording cl) now (c_walletAddress row) (soroban s) = (p, so)" by fastforce
  have quiet: "submissions so = submissions (soroban s)"
    using getPendingWinnings_quiet [of cl now "c_walletAddress row" "soroban s"] p by simp
  let ?s = "s\<lparr>soroban := so\<rparr>"
  let ?other = "\<lambda>c. c_walletAddress c = c_walletAddress row \<and> c_status c = CS_SUBMITTED \<and> c_id c \<noteq> c_id row"
  consider (nothing) "\<nexists>n. p = Inr n \<and> n \<noteq> 0" | (owed) n where "p = Inr n" "n \<noteq> 0" by blast
  then show ?thesis
  proof cases
    case nothing
    with p assms have "s' = ?s \<or> s' = snd (markConfirmed now row r NoPending ?s)"
      by (cases p) (auto simp: attemptClaim_def m_bind_def readPendingWinnings_eq m_return_def)
    with quiet show ?thesis by (auto simp: transitions_chain)
  next
    case (owed n)
    show ?thesis
    proof (cases "c_findFirst ?other None (claims s)")
      case (Some c)
      with owed p assms have "s' = ?s"
        by (auto simp: attemptClaim_def m_bind_def readPendingWinnings_eq m_return_def m_gets_def)
      with quiet show ?thesis by simp
    next
      case None
      then have none: "\<not> other_in_flight row s"
        using filtered_memI [of _ "claims s" _ ?other]
        by (auto simp: other_in_flight_def c_findFirst_def split: list.splits)
      obtain y t where t: "submit_claim E (recording cl) now row r ?s = (y, t)" by fastforce
      have "attemptClaim E (recording cl) now cfg row r s = m_catch (submit_claim E (recording cl) now row r)
          (\<lambda>error. recordFailedAttempt now cfg row r (''Claim submission failed: '' @ message_of error)) ?s"
        using owed p None by (simp add: attemptClaim_def m_bind_def readPendingWinnings_eq m_gets_def)
      with assms t have "s' = t \<or> (\<exists>msg. s' = snd (recordFailedAttempt now cfg row r msg t))"
        by (cases y) (auto simp: m_catch_def intro!: exI dest: arg_cong [of _ _ snd])
      then have "soroban s' = soroban t" by (auto simp: transitions_chain)
      moreover have "length (submissions (soroban t)) \<le> length (submissions (soroban s)) + 2"
        using submit_claim_chain [of E cl now row r ?s] t quiet by simp
      ultimately show ?thesis using none p owed by auto
    qed
  qed
qed

lemma reconcileSubmitted_chain:
  "submissions (soroban (snd (reconcileSubmitted (recording cl) now cfg row r s))) = submissions (soroban s)"
proof (cases "truthy (c_txHash row)")
  case False
  obtain p so where p: "getPendingWinnings (recording cl) now (c_walletAddress row) (soroban s) = (p, so)" by fastforce
  with getPendingWinnings_quiet [of cl now "c_walletAddress row" "soroban s"] have "submissions so = submissions (soroban s)" by simp
  with p False show ?thesis
    by (cases p) (simp_all add: reconcileSubmitted_def m_bind_def readPendingWinnings_eq m_return_def transitions_chain)
next
  case True
  obtain p so where p: "getTransactionStatus (recording cl) now (the (c_txHash row)) (soroban s) = (p, so)" by fastforce
  with getTransactionStatus_quiet [of cl now "the (c_txHash row)" "soroban s"] have "submissions so = submissions (soroban s)" by simp
  with p True show ?thesis
    by (cases p) (simp_all add: reconcileSubmitted_def m_bind_def on_soroban_def m_zoom_def m_return_def transitions_chain)
qed

text \<open>C31. The work on one claim never fails and counts it under exactly one outcome.  It submits nothing for a claim
  that is in flight; for another claim it submits, at most twice, only after the chain has reported winnings and when
  no other claim of the wallet is in flight.\<close>

theorem worker_submits_only_owed:
  "\<exists>r' s'. process_claim E (recording cl) now cfg r row s = (Inr r', s') \<and>
     outcomes r' = outcomes r + 1 \<and> pr_checked r' = pr_checked r + 1 \<and>
     (submissions (soroban s') = submissions (soroban s) \<or>
      length (submissions (soroban s')) \<le> length (submissions (soroban s)) + 2 \<and>
      c_status row \<noteq> CS_SUBMITTED \<and> \<not> other_in_flight row s \<and>
      (\<exists>n so. getPendingWinnings (recording cl) now (c_walletAddress row) (soroban s) = (Inr n, so) \<and> n \<noteq> 0))"
proof -
  obtain r' s' where run: "process_claim E (recording cl) now cfg r row s = (Inr r', s')" "outcomes r' = outcomes r + 1"
      "pr_checked r' = pr_checked r + 1"
    using process_claim_outcome by blast
  let ?r = "r\<lparr>pr_checked := pr_checked r + 1\<rparr>"
  have s': "s' = snd (if c_status row = CS_SUBMITTED then reconcileSubmitted (recording cl) now cfg row ?r s
      else attemptClaim E (recording cl) now cfg row ?r s)"
    using run(1) by (auto simp: process_claim_def Let_def m_catch_def m_return_def split: prod.splits sum.splits if_splits)
  obtain x t where "attemptClaim E (recording cl) now cfg row ?r s = (x, t)" by fastforce
  from attemptClaim_chain [OF this] this run s' reconcileSubmitted_chain [of cl now cfg row ?r s] show ?thesis
    by (cases "c_status row = CS_SUBMITTED") auto
qed

subsection \<open>An outage closes claims\<close>



end
