(* ===== verification/BetReconciliation.thy ===== *)
theory BetReconciliation
  imports Bets
begin

text \<open>
  The reconciliation of submitted bets (\<open>src/src/services/reconciliation.service.ts\<close>, class
  \<open>ReconciliationService\<close>): a sweep asks the chain for the transactions of bets that stayed SUBMITTED, and confirms
  or fails them, each with its outbox event in one transaction; an operator can do the same for one bet.
  The rows were read before the chain was asked, so the transactions look at the status again.
\<close>

record ReconciliationConfig =
  rc_maxAgeMs :: int
  rc_batchSize :: nat

definition DEFAULT_RECONCILIATION :: ReconciliationConfig where
  "DEFAULT_RECONCILIATION = \<lparr>rc_maxAgeMs = 5 * 60 * 1000, rc_batchSize = 50\<rparr>"

record reconciliation_detail =
  rd_betId :: string
  rd_txHash :: string
  rd_previousStatus :: BetStatus
  rd_newStatus :: BetStatus
  rd_chainStatus :: transaction_status

record ReconciliationResult =
  rc_checked :: nat
  rc_confirmed :: nat
  rc_failed :: nat
  rc_errors :: nat
  rc_details :: "reconciliation_detail list"

definition transitionToConfirmed ::
  "data_store \<Rightarrow> int \<Rightarrow> string \<Rightarrow> string \<Rightarrow> string \<Rightarrow> string option \<Rightarrow> BetMode \<Rightarrow> ('c app, js_error, unit) comp" where
  "transitionToConfirmed ds now betId txHash userId roundId mode =
     tx ds (m_bind (t_find bets (\<lambda>b. b_id b = betId)) (\<lambda>currentBet.
       case currentBet of
         None \<Rightarrow> m_return ()
       | Some b \<Rightarrow>
           if b_status b \<noteq> BS_SUBMITTED then m_return ()
           else m_then (t_update P2025 bets bets_update (\<lambda>b. b_id b = betId)
               (\<lambda>b. b\<lparr>b_status := BS_CONFIRMED, b_txHash := Some txHash, confirmedAt := Some now\<rparr>))
             (m_then (outbox_create now OE_BET_CONFIRMED betId ''bet'' (BetConfirmedPayload betId userId roundId mode txHash))
               (m_return ()))))"

definition transitionToFailed ::
  "data_store \<Rightarrow> int \<Rightarrow> string \<Rightarrow> string \<Rightarrow> string option \<Rightarrow> BetMode \<Rightarrow> string \<Rightarrow> ('c app, js_error, unit) comp" where
  "transitionToFailed ds now betId userId roundId mode reason =
     tx ds (m_bind (t_find bets (\<lambda>b. b_id b = betId)) (\<lambda>currentBet.
       case currentBet of
         None \<Rightarrow> m_return ()
       | Some b \<Rightarrow>
           if b_status b \<noteq> BS_SUBMITTED then m_return ()
           else m_then (t_update P2025 bets bets_update (\<lambda>b. b_id b = betId)
               (\<lambda>b. b\<lparr>b_status := BS_FAILED, failureReason := Some reason, failedAt := Some now\<rparr>))
             (m_then (outbox_create now OE_BET_FAILED betId ''bet'' (BetFailedPayload betId userId roundId mode reason))
               (m_return ()))))"

definition failed_on_chain :: "transaction_status \<Rightarrow> string" where
  "failed_on_chain st = (case ts_error st of None \<Rightarrow> ''Transaction failed on-chain'' | Some e \<Rightarrow> e)"

definition detail_of :: "bet_row \<Rightarrow> BetStatus \<Rightarrow> transaction_status \<Rightarrow> reconciliation_detail" where
  "detail_of bet st chain = \<lparr>rd_betId = b_id bet, rd_txHash = the (b_txHash bet), rd_previousStatus = b_status bet,
     rd_newStatus = st, rd_chainStatus = chain\<rparr>"

definition unknown_status :: "js_error \<Rightarrow> transaction_status" where
  "unknown_status e = \<lparr>ts_confirmed = False, ts_successful = False, ts_ledger = None, ts_feeCharged = None,
     ts_error = Some (message_of e)\<rparr>"

text \<open>The body of the loop of \<open>reconcileSubmittedBets\<close>.\<close>

definition reconcile_stranded ::
  "data_store \<Rightarrow> 'c xelma_client \<Rightarrow> int \<Rightarrow> ReconciliationResult \<Rightarrow> bet_row \<Rightarrow> ('c app, js_error, ReconciliationResult) comp" where
  "reconcile_stranded ds cl now r0 bet =
     (let result = r0\<lparr>rc_checked := rc_checked r0 + 1\<rparr>;
          note_detail = (\<lambda>r st chain. r\<lparr>rc_details := rc_details r @ [detail_of bet st chain]\<rparr>)
      in m_catch
        (m_bind (on_soroban (getTransactionStatus cl now (the (b_txHash bet)))) (\<lambda>chain.
          if ts_confirmed chain then
            (if ts_successful chain then
               m_then (transitionToConfirmed ds now (b_id bet) (the (b_txHash bet)) (b_userId bet) (b_roundId bet) (b_mode bet))
                 (m_return (note_detail (result\<lparr>rc_confirmed := rc_confirmed result + 1\<rparr>) BS_CONFIRMED chain))
             else
               m_then (transitionToFailed ds now (b_id bet) (b_userId bet) (b_roundId bet) (b_mode bet) (failed_on_chain chain))
                 (m_return (note_detail (result\<lparr>rc_failed := rc_failed result + 1\<rparr>) BS_FAILED chain)))
          else m_return (note_detail result (b_status bet) chain)))
        (\<lambda>e. m_return (note_detail (result\<lparr>rc_errors := rc_errors result + 1\<rparr>) (b_status bet) (unknown_status e))))"

definition no_reconciliation :: ReconciliationResult where
  "no_reconciliation = \<lparr>rc_checked = 0, rc_confirmed = 0, rc_failed = 0, rc_errors = 0, rc_details = []\<rparr>"

definition is_stranded :: "int \<Rightarrow> bet_row \<Rightarrow> bool" where
  "is_stranded cutoff b \<longleftrightarrow> b_status b = BS_SUBMITTED \<and> b_txHash b \<noteq> None \<and>
     (case submittedAt b of None \<Rightarrow> False | Some t \<Rightarrow> t < cutoff)"

definition reconcileSubmittedBets ::
  "data_store \<Rightarrow> 'c xelma_client \<Rightarrow> ReconciliationConfig \<Rightarrow> int \<Rightarrow> ('c app, js_error, ReconciliationResult) comp" where
  "reconcileSubmittedBets ds cl cfg now =
     m_bind (m_gets (\<lambda>s. c_findMany (is_stranded (now - rc_maxAgeMs cfg)) (Some (\<lambda>b. the (submittedAt b), False)) 0
         (Some (rc_batchSize cfg)) (bets s)))
       (m_foldl (reconcile_stranded ds cl now) no_reconciliation)"

definition reconcileBetById ::
  "data_store \<Rightarrow> 'c xelma_client \<Rightarrow> int \<Rightarrow> string \<Rightarrow> ('c app, js_error, ReconciliationResult) comp" where
  "reconcileBetById ds cl now betId =
     m_bind (t_find bets (\<lambda>b. b_id b = betId)) (\<lambda>found.
       case found of
         None \<Rightarrow> m_return (no_reconciliation\<lparr>rc_errors := 1\<rparr>)
       | Some bet \<Rightarrow>
           if b_status bet \<noteq> BS_SUBMITTED \<or> \<not> truthy (b_txHash bet) then m_return (no_reconciliation\<lparr>rc_errors := 1\<rparr>)
           else
             (let result = no_reconciliation\<lparr>rc_checked := 1\<rparr>
              in m_catch
                (m_bind (on_soroban (getTransactionStatus cl now (the (b_txHash bet)))) (\<lambda>chain.
                  if ts_confirmed chain \<and> ts_successful chain then
                    m_then (transitionToConfirmed ds now (b_id bet) (the (b_txHash bet)) (b_userId bet) (b_roundId bet) (b_mode bet))
                      (m_return (result\<lparr>rc_confirmed := 1, rc_details := [detail_of bet BS_CONFIRMED chain]\<rparr>))
                  else if ts_confirmed chain then
                    m_then (transitionToFailed ds now (b_id bet) (b_userId bet) (b_roundId bet) (b_mode bet) (failed_on_chain chain))
                      (m_return (result\<lparr>rc_failed := 1, rc_details := [detail_of bet BS_FAILED chain]\<rparr>))
                  else m_return (result\<lparr>rc_details := [detail_of bet (b_status bet) chain]\<rparr>)))
                (\<lambda>_. m_return (result\<lparr>rc_errors := 1\<rparr>))))"

subsection \<open>The transitions are steps of the bet machine\<close>

lemma transition_eq:
  fixes s :: "'c app"
  assumes wf: "wf_db s" and f: "\<And>b. b_id (f b) = b_id b"
  shows "tx ds (m_bind (t_find bets (\<lambda>b. b_id b = k)) (\<lambda>currentBet.
       case currentBet of None \<Rightarrow> m_return () | Some b \<Rightarrow>
         if b_status b \<noteq> BS_SUBMITTED then m_return ()
         else m_then (t_update P2025 bets bets_update (\<lambda>b. b_id b = k) f)
           (m_then (outbox_create now ty k ''bet'' p) (m_return ())))) s =
    (Inr (), snd (bet_step now k (\<lambda>b. b_status b \<noteq> BS_SUBMITTED) f ty (\<lambda>_. p) s))"
proof (rule tx_commit)
  show "m_bind (t_find bets (\<lambda>b. b_id b = k)) (\<lambda>currentBet.
       case currentBet of None \<Rightarrow> m_return () | Some b \<Rightarrow>
         if b_status b \<noteq> BS_SUBMITTED then m_return ()
         else m_then (t_update P2025 bets bets_update (\<lambda>b. b_id b = k) f)
           (m_then (outbox_create now ty k ''bet'' p) (m_return ()))) s =
    (Inr (), snd (bet_step now k (\<lambda>b. b_status b \<noteq> BS_SUBMITTED) f ty (\<lambda>_. p) s))"
  proof (cases "peek k (bets s)")
    case None
    then show ?thesis by (simp add: bet_step_eq [OF wf f] m_bind_def find_simps wf m_return_def)
  next
    case (Some b)
    let ?u = "t_update P2025 bets bets_update (\<lambda>b. b_id b = k) f"
    have "?u s = (Inr (f b), s\<lparr>bets := c_set k (f b) (bets s)\<rparr>)" by (simp add: bets.update_id [OF wf f] Some)
    then have "m_then ?u (m_then (outbox_create now ty k ''bet'' p) (m_return ())) s =
        (Inr (), logged now ty k p (s\<lparr>bets := c_set k (f b) (bets s)\<rparr>))"
      by (simp add: m_then_def [of ?u] m_bind_def then_logged m_return_def)
    with Some show ?thesis by (simp add: bet_step_eq [OF wf f] m_bind_def find_simps wf m_return_def)
  qed
qed

definition confirm_step :: "int \<Rightarrow> bet_row \<Rightarrow> ('c app, js_error, bet_row option) comp" where
  "confirm_step now bet = bet_step now (b_id bet) (\<lambda>b. b_status b \<noteq> BS_SUBMITTED)
     (\<lambda>b. b\<lparr>b_status := BS_CONFIRMED, b_txHash := Some (the (b_txHash bet)), confirmedAt := Some now\<rparr>) OE_BET_CONFIRMED
     (\<lambda>_. BetConfirmedPayload (b_id bet) (b_userId bet) (b_roundId bet) (b_mode bet) (the (b_txHash bet)))"

definition fail_step :: "int \<Rightarrow> bet_row \<Rightarrow> string \<Rightarrow> ('c app, js_error, bet_row option) comp" where
  "fail_step now bet reason = bet_step now (b_id bet) (\<lambda>b. b_status b \<noteq> BS_SUBMITTED)
     (\<lambda>b. b\<lparr>b_status := BS_FAILED, failureReason := Some reason, failedAt := Some now\<rparr>) OE_BET_FAILED
     (\<lambda>_. BetFailedPayload (b_id bet) (b_userId bet) (b_roundId bet) (b_mode bet) reason)"

lemma transition_steps:
  "wf_db s \<Longrightarrow> transitionToConfirmed ds now (b_id bet) (the (b_txHash bet)) (b_userId bet) (b_roundId bet) (b_mode bet) s =
     (Inr (), snd (confirm_step now bet s))"
  "wf_db s \<Longrightarrow> transitionToFailed ds now (b_id bet) (b_userId bet) (b_roundId bet) (b_mode bet) reason s =
     (Inr (), snd (fail_step now bet reason s))"
  unfolding transitionToConfirmed_def transitionToFailed_def confirm_step_def fail_step_def
  by (rule transition_eq; simp)+

lemma recon_updates_sound:
  assumes "resolutions_logged s"
  shows "bet_sound s (snd (confirm_step now bet s))" "bet_sound s (snd (fail_step now bet reason s))"
  unfolding confirm_step_def fail_step_def by (rule bet_step_sound [OF assms]; simp)+

lemma bet_sound_trans: "bet_sound s t \<Longrightarrow> bet_sound t u \<Longrightarrow> bet_sound s u"
  unfolding bet_sound_def by (metis bet_edge_def insertCI)

lemma bet_sound_soroban [simp]: "bet_sound s (t\<lparr>soroban := so\<rparr>) = bet_sound s t"
  by (simp add: bet_sound_def resolutions_logged_def events_of_def bet_status_def)

text \<open>What the work on one bet does, in terms of the chain's answer.\<close>

lemma reconcile_stranded_state:
  assumes "wf_db s" and "getTransactionStatus cl now (the (b_txHash bet)) (soroban s) = (x, so)"
  shows "\<exists>r'. reconcile_stranded ds cl now r bet s = (Inr r', case x of
      Inr chain \<Rightarrow> if ts_confirmed chain
        then if ts_successful chain then snd (confirm_step now bet (s\<lparr>soroban := so\<rparr>))
             else snd (fail_step now bet (failed_on_chain chain) (s\<lparr>soroban := so\<rparr>))
        else s\<lparr>soroban := so\<rparr>
    | Inl e \<Rightarrow> s\<lparr>soroban := so\<rparr>)"
proof -
  have "wf_db (s\<lparr>soroban := so\<rparr>)" using assms(1) by simp
  from transition_steps [OF this] assms(2) show ?thesis
    by (cases x) (auto simp: reconcile_stranded_def Let_def m_catch_def m_bind_def m_then_def on_soroban_def m_zoom_def m_return_def)
qed

lemma reconcile_stranded_sound:
  assumes "resolutions_logged s"
  shows "bet_sound s (snd (reconcile_stranded ds cl now r bet s))"
proof -
  obtain x so where x: "getTransactionStatus cl now (the (b_txHash bet)) (soroban s) = (x, so)" by fastforce
  have "wf_db s" using assms by (simp add: resolutions_logged_def)
  from reconcile_stranded_state [OF this x, of ds r] obtain r' where
    run: "reconcile_stranded ds cl now r bet s = (Inr r', case x of
      Inr chain \<Rightarrow> if ts_confirmed chain
        then if ts_successful chain then snd (confirm_step now bet (s\<lparr>soroban := so\<rparr>))
             else snd (fail_step now bet (failed_on_chain chain) (s\<lparr>soroban := so\<rparr>))
        else s\<lparr>soroban := so\<rparr>
    | Inl e \<Rightarrow> s\<lparr>soroban := so\<rparr>)" by blast
  have log: "resolutions_logged (s\<lparr>soroban := so\<rparr>)" and same: "bet_sound s (s\<lparr>soroban := so\<rparr>)"
    using assms bet_sound_refl by (auto simp: resolutions_logged_def events_of_def bet_status_def)
  from bet_sound_trans [OF same recon_updates_sound(1) [OF log]] bet_sound_trans [OF same recon_updates_sound(2) [OF log]] same
  show ?thesis by (auto simp: run split: sum.split)
qed

lemma pass_sound: "resolutions_logged s \<Longrightarrow> bet_sound s (snd (m_foldl (reconcile_stranded ds cl now) r rs s))"
proof (induction rs arbitrary: r s)
  case (Cons b rs)
  obtain r' t where t: "reconcile_stranded ds cl now r b s = (r', t)" by fastforce
  with reconcile_stranded_sound [OF Cons.prems, of ds cl now r b] have "bet_sound s t" by simp
  moreover from this have "resolutions_logged t" by (simp add: bet_sound_def)
  ultimately have "bet_sound s (snd (m_foldl (reconcile_stranded ds cl now) x rs t))" for x
    by (rule bet_sound_trans [OF _ Cons.IH])
  with \<open>bet_sound s t\<close> t show ?case by (cases r') (auto simp: m_bind_def)
qed (simp add: m_return_def bet_sound_refl)

lemma byId_sound:
  assumes log: "resolutions_logged s"
  shows "bet_sound s (snd (reconcileBetById ds cl now k s))"
proof (cases "\<exists>b. peek k (bets s) = Some b \<and> b_status b = BS_SUBMITTED \<and> truthy (b_txHash b)")
  case False
  have wf: "wf_db s" using log by (simp add: resolutions_logged_def)
  with False have "snd (reconcileBetById ds cl now k s) = s"
    by (auto simp: reconcileBetById_def m_bind_def find_simps m_return_def split: option.split)
  then show ?thesis by (simp add: bet_sound_refl log)
next
  case True
  then obtain b where b: "peek k (bets s) = Some b" "b_status b = BS_SUBMITTED" "truthy (b_txHash b)" by blast
  have wf: "wf_db s" using log by (simp add: resolutions_logged_def)
  obtain x so where x: "getTransactionStatus cl now (the (b_txHash b)) (soroban s) = (x, so)" by fastforce
  have wf': "wf_db (s\<lparr>soroban := so\<rparr>)" using wf by simp
  have "snd (reconcileBetById ds cl now k s) = snd (reconcile_stranded ds cl now no_reconciliation b s)"
    using reconcile_stranded_state [OF wf x, of ds no_reconciliation] b x transition_steps [OF wf', where bet = b]
    by (cases x) (auto simp: reconcileBetById_def find_simps wf Let_def m_catch_def m_bind_def m_then_def on_soroban_def
        m_zoom_def m_return_def)
  with reconcile_stranded_sound [OF log] show ?thesis by simp
qed

subsection \<open>All operations on bets together\<close>

datatype bet_life_op =
    Handle bet_op
  | SweepBets ReconciliationConfig
  | SweepOne bet_row  \<comment> \<open>the work on a bet as it was read earlier\<close>
  | ReconcileById string

fun bet_life ::
  "data_store \<Rightarrow> arith \<Rightarrow> 'c xelma_client \<Rightarrow> 'c app \<Rightarrow> int \<times> bet_life_op \<Rightarrow> 'c app" where
  "bet_life ds E cl s (now, Handle x) = bet_handler ds E cl s (now, x)"
| "bet_life ds E cl s (now, SweepBets cfg) = snd (reconcileSubmittedBets ds cl cfg now s)"
| "bet_life ds E cl s (now, SweepOne bet) = snd (reconcile_stranded ds cl now no_reconciliation bet s)"
| "bet_life ds E cl s (now, ReconcileById k) = snd (reconcileBetById ds cl now k s)"

lemma bet_life_sound:
  assumes "resolutions_logged s"
  shows "bet_sound s (bet_life ds E cl s (now, x))"
  by (cases x) (simp_all add: assms bet_handler_sound reconcile_stranded_sound byId_sound pass_sound
      reconcileSubmittedBets_def m_bind_def m_gets_def)

interpretation bet_life: lifecycle "bet_life ds E cl" resolutions_logged bet_status bet_edge
proof (unfold_locales, goal_cases)
  case (1 s x)
  then show ?case using bet_life_sound [OF 1] by (cases x) (auto simp: bet_sound_def)
next
  case (2 s k a x)
  then show ?case using bet_life_sound [OF 2(1)] by (cases x) (auto simp: bet_sound_def)
qed



lemma step_effect:
  assumes wf: "wf_db s" and f: "\<And>b. b_id (f b) = b_id b" "\<And>b. b_status (f b) = st"
    and s'_def: "s' = snd (bet_step now k (\<lambda>b. b_status b \<noteq> BS_SUBMITTED) f ty mk s)"
  shows "bet_status s' = (if bet_status s k = Some BS_SUBMITTED then (bet_status s)(k \<mapsto> st) else bet_status s)"
    and "events_of ty' j s' = events_of ty' j s + (if bet_status s k = Some BS_SUBMITTED \<and> j = k \<and> ty' = ty then 1 else 0)"
proof -
  have "wf_db (s\<lparr>bets := c_set k (f b) (bets s)\<rparr>)" if "peek k (bets s) = Some b" for b
    using bets.set_wf [OF wf that] bets.peek_id [OF wf that] f(1) by simp
  then show "events_of ty' j s' = events_of ty' j s + (if bet_status s k = Some BS_SUBMITTED \<and> j = k \<and> ty' = ty then 1 else 0)"
    unfolding s'_def bet_step_eq [OF wf f(1)]
    by (auto simp: bet_status_def [of s] events_logged split: option.split)
  show "bet_status s' = (if bet_status s k = Some BS_SUBMITTED then (bet_status s)(k \<mapsto> st) else bet_status s)"
    unfolding s'_def bet_step_eq [OF wf f(1)]
    by (auto simp: bet_status_def fun_eq_iff f(2) split: option.split)
qed


definition demo_bet :: bet_row where
  "demo_bet = submitted_bet 0 (Some ''h'') (new_bet js_arith 0 ''u1'' None BM_UP_DOWN (Some UP) 5 None ''b1'')"

definition demo_bets :: "unit app" where
  "demo_bets = (blank_app ())\<lparr>bets := table_of b_id [demo_bet]\<rparr>"

definition paid_client :: "unit xelma_client" where
  "paid_client = lossy_client\<lparr>rpc_getTransaction := \<lambda>_. m_return (RpcResult ''SUCCESS'' (Some 7) (Some 100) True)\<rparr>"

lemma paid_status:
  "fst (getTransactionStatus paid_client 10 ''h'' (soroban demo_bets)) = Inr \<lparr>ts_confirmed = True, ts_successful = True,
     ts_ledger = Some 7, ts_feeCharged = Some 100, ts_error = None\<rparr>"
  by (simp add: getTransactionStatus_def demo_bets_def blank_app_def paid_client_def ensureInitialized_def ready_soroban_def
      soroban_init_def new_soroban_def callWithBreaker_def limiter_execute_def limiter_begin_def truthy_int_def
      createConcurrencyLimiter_def cb_execute_def new_breaker_def breaker_defs unwrap_timeout_def
      withTimeout_once on_chain_def failed_call_def as_error_def comp_defs)


end
