(* ===== verification/Challenge.thy ===== *)
theory Challenge
  imports StableJson
begin

text \<open>
  Wallet challenges (\<open>src/src/utils/challenge.util.ts\<close>) and the check of their signatures
  (\<open>verifySignature\<close> of \<open>src/src/services/stellar.service.ts\<close>).

  A challenge is a text of lines \<open>key: value\<close> that names the server's domains, the wallet and a nonce; the
  server later parses the text it gets back.  Parameters: the parser of URLs (\<open>new URL(..).hostname\<close>), \<open>Date.parse\<close>
  and \<open>Number\<close> on texts that are not short decimal numerals, and of the Stellar library the address check and the
  ed25519 verification, where \<open>None\<close> is an exception.
\<close>

subsection \<open>Domains\<close>

definition DEFAULT_AUTH_DOMAIN :: string where
  "DEFAULT_AUTH_DOMAIN = ''xelma.io''"

definition DEFAULT_HOME_DOMAIN :: string where
  "DEFAULT_HOME_DOMAIN = ''xelma.io''"

record auth_env =
  env_AUTH_DOMAIN :: "string option"
  env_WEB_AUTH_DOMAIN :: "string option"
  env_HOME_DOMAIN :: "string option"
  env_CLIENT_URL :: "string option"
  env_API_BASE_URL :: "string option"
  url_hostname :: "string \<Rightarrow> string option"  \<comment> \<open>\<open>new URL(t).hostname\<close>, \<open>None\<close> when it throws\<close>

definition url_domain :: "auth_env \<Rightarrow> string \<Rightarrow> string option \<Rightarrow> string option" where
  "url_domain env dflt v =
     (if truthy v then map_option (\<lambda>h. if h = [] then dflt else h) (url_hostname env (the v)) else None)"

definition getAuthDomain :: "auth_env \<Rightarrow> string" where
  "getAuthDomain env =
     (if truthy (env_AUTH_DOMAIN env) then trim (the (env_AUTH_DOMAIN env))
      else if truthy (env_WEB_AUTH_DOMAIN env) then trim (the (env_WEB_AUTH_DOMAIN env))
      else case url_domain env DEFAULT_AUTH_DOMAIN (env_CLIENT_URL env) of Some h \<Rightarrow> h
        | None \<Rightarrow> (case url_domain env DEFAULT_AUTH_DOMAIN (env_API_BASE_URL env) of Some h \<Rightarrow> h
          | None \<Rightarrow> DEFAULT_AUTH_DOMAIN))"

definition getHomeDomain :: "auth_env \<Rightarrow> string" where
  "getHomeDomain env =
     (if truthy (env_HOME_DOMAIN env) then trim (the (env_HOME_DOMAIN env))
      else if truthy (env_AUTH_DOMAIN env) then trim (the (env_AUTH_DOMAIN env))
      else if truthy (env_WEB_AUTH_DOMAIN env) then trim (the (env_WEB_AUTH_DOMAIN env))
      else case url_domain env DEFAULT_HOME_DOMAIN (env_CLIENT_URL env) of Some h \<Rightarrow> h
        | None \<Rightarrow> (case url_domain env DEFAULT_HOME_DOMAIN (env_API_BASE_URL env) of Some h \<Rightarrow> h
          | None \<Rightarrow> DEFAULT_HOME_DOMAIN))"

subsection \<open>Dates as text\<close>

text \<open>\<open>new Date(ms).toISOString()\<close>: the proleptic Gregorian calendar, with the year counted from March.\<close>

definition pad :: "nat \<Rightarrow> int \<Rightarrow> string" where
  "pad w n = (let t = show_nat (nat n) in replicate (w - length t) (CHR ''0'') @ t)"

definition civil :: "int \<Rightarrow> int \<times> int \<times> int" where
  "civil days =
     (let z = days + 719468; era = z div 146097; doe = z mod 146097;
          yoe = (doe - doe div 1460 + doe div 36524 - doe div 146096) div 365;
          doy = doe - (365 * yoe + yoe div 4 - yoe div 100);
          mp = (5 * doy + 2) div 153;
          d = doy - (153 * mp + 2) div 5 + 1;
          m = (if mp < 10 then mp + 3 else mp - 9)
      in (yoe + era * 400 + (if m \<le> 2 then 1 else 0), m, d))"

definition show_year :: "int \<Rightarrow> string" where
  "show_year y = (if 0 \<le> y \<and> y \<le> 9999 then pad 4 y
     else if y < 0 then ''-'' @ pad 6 (- y) else ''+'' @ pad 6 y)"

definition toISOString :: "int \<Rightarrow> string" where
  "toISOString ms =
     (let days = ms div 86400000; t = ms mod 86400000
      in case civil days of (y, m, d) \<Rightarrow>
        show_year y @ ''-'' @ pad 2 m @ ''-'' @ pad 2 d @ ''T'' @ pad 2 (t div 3600000) @ '':'' @
        pad 2 (t div 60000 mod 60) @ '':'' @ pad 2 (t div 1000 mod 60) @ ''.'' @ pad 3 (t mod 1000) @ ''Z'')"

subsection \<open>Building a challenge\<close>

record challenge_params =
  cp_domain :: "string option"
  cp_homeDomain :: "string option"
  cp_nonce :: "string option"
  cp_timestamp :: "int option"
  cp_issuedAt :: "string option"
  cp_walletAddress :: "string option"
  cp_version :: "int option"

fun join_lines :: "string list \<Rightarrow> string" where
  "join_lines [] = []"
| "join_lines [l] = l"
| "join_lines (l # ls) = l @ [CHR 0x0A] @ join_lines ls"

definition or_else :: "'a option \<Rightarrow> 'a \<Rightarrow> 'a" where
  "or_else x d = (case x of None \<Rightarrow> d | Some a \<Rightarrow> a)"

definition challenge_lines :: "auth_env \<Rightarrow> string \<Rightarrow> int \<Rightarrow> challenge_params \<Rightarrow> string list" where
  "challenge_lines env random now p =
     (let domain = trim (or_else (cp_domain p) (getAuthDomain env));
          homeDomain = trim (or_else (cp_homeDomain p) (getHomeDomain env));
          nonce = or_else (cp_nonce p) random;
          timestamp = or_else (cp_timestamp p) now;
          issuedAt = or_else (cp_issuedAt p) (toISOString timestamp);
          version = or_else (cp_version p) 1
      in [''Xelma Authentication'', ''Domain: '' @ domain, ''Home Domain: '' @ homeDomain] @
         (if truthy (cp_walletAddress p) then [''Address: '' @ the (cp_walletAddress p)] else []) @
         [''Nonce: '' @ nonce, ''Issued At: '' @ issuedAt, ''Version: '' @ show_int version,
          ''Timestamp: '' @ show_int timestamp])"

definition buildChallengeMessage :: "auth_env \<Rightarrow> string \<Rightarrow> int \<Rightarrow> challenge_params \<Rightarrow> string" where
  "buildChallengeMessage env random now p = join_lines (challenge_lines env random now p)"

definition generateChallenge :: "auth_env \<Rightarrow> string \<Rightarrow> int \<Rightarrow> string option \<Rightarrow> string" where
  "generateChallenge env random now wallet =
     buildChallengeMessage env random now
       \<lparr>cp_domain = Some (getAuthDomain env), cp_homeDomain = Some (getHomeDomain env), cp_nonce = Some random,
        cp_timestamp = Some now, cp_issuedAt = Some (toISOString now),
        cp_walletAddress = (if truthy wallet then wallet else None), cp_version = None\<rparr>"

definition generateLegacyChallenge :: "string \<Rightarrow> int \<Rightarrow> string" where
  "generateLegacyChallenge random now = ''xelma_auth_'' @ show_int now @ ''_'' @ random"

subsection \<open>Expiry\<close>

definition CHALLENGE_EXPIRY_MINUTES :: int where
  "CHALLENGE_EXPIRY_MINUTES = 5"

definition getChallengeExpiry :: "int \<Rightarrow> int" where
  "getChallengeExpiry now = now + CHALLENGE_EXPIRY_MINUTES * 60 * 1000"

definition isChallengeExpired :: "int \<Rightarrow> int \<Rightarrow> bool" where
  "isChallengeExpired now expiresAt \<longleftrightarrow> expiresAt < now"

definition getChallengeExpirySeconds :: int where
  "getChallengeExpirySeconds = CHALLENGE_EXPIRY_MINUTES * 60"

subsection \<open>Parsing a challenge\<close>

text \<open>The result of \<open>Number\<close> and \<open>Date.parse\<close>; a numeral of at most fifteen digits is exact.\<close>

datatype js_number = NaN | Infinite bool | Finite rat

definition is_digit :: "char \<Rightarrow> bool" where
  "is_digit c \<longleftrightarrow> c \<in> digits"

definition is_lower_hex :: "char \<Rightarrow> bool" where
  "is_lower_hex c \<longleftrightarrow> is_digit c \<or> c \<in> set ''abcdef''"

record text_lib =
  other_number :: "string \<Rightarrow> js_number"
  date_parse :: "string \<Rightarrow> js_number"

definition js_Number :: "text_lib \<Rightarrow> string \<Rightarrow> js_number" where
  "js_Number lib t =
     (if t \<noteq> [] \<and> length t \<le> 15 \<and> list_all is_digit t then Finite (of_nat (read_nat t)) else other_number lib t)"

text \<open>\<open>x && !Number.isNaN(x) ? x : null\<close>\<close>

definition number_or_null :: "js_number option \<Rightarrow> js_number option" where
  "number_or_null x = (case x of Some NaN \<Rightarrow> None | Some (Finite n) \<Rightarrow> if n = 0 then None else x | _ \<Rightarrow> x)"

text \<open>\<open>/^xelma_auth_(\d+)_([0-9a-f]{64})$/\<close>\<close>

definition legacy_match :: "string \<Rightarrow> (string \<times> string) option" where
  "legacy_match t =
     (let rest = drop 11 t; ds = takeWhile is_digit rest; hex = drop 1 (dropWhile is_digit rest)
      in if take 11 t = ''xelma_auth_'' \<and> ds \<noteq> [] \<and> take 1 (dropWhile is_digit rest) = ''_'' \<and> length hex = 64 \<and>
           list_all is_lower_hex hex
         then Some (ds, hex) else None)"

definition isLegacyChallenge :: "string \<Rightarrow> bool" where
  "isLegacyChallenge t \<longleftrightarrow> legacy_match t \<noteq> None"

record ParsedChallenge =
  raw :: string
  isLegacy :: bool
  pc_domain :: "string option"
  pc_homeDomain :: "string option"
  pc_nonce :: "string option"
  pc_timestamp :: "js_number option"
  pc_issuedAt :: "string option"
  pc_walletAddress :: "string option"
  pc_version :: "js_number option"

fun split_lines :: "string \<Rightarrow> string list" where
  "split_lines [] = [[]]"
| "split_lines (c # t) = (if c = CHR 0x0A then [] # split_lines t
     else (c # hd (split_lines t)) # tl (split_lines t))"

text \<open>One pass of the loop over the lines: what is before the first colon, and what is after it.\<close>

definition key_value :: "string \<Rightarrow> (string \<times> string) option" where
  "key_value line =
     (if CHR '':'' \<in> set line
      then Some (to_lower (trim (takeWhile (\<lambda>c. c \<noteq> CHR '':'') line)), trim (drop 1 (dropWhile (\<lambda>c. c \<noteq> CHR '':'') line)))
      else None)"

definition challenge_map :: "string \<Rightarrow> string \<Rightarrow> string option" where
  "challenge_map t = map_of (rev (List.map_filter key_value (split_lines t)))"

definition parse_fields :: "text_lib \<Rightarrow> string \<Rightarrow> (string \<Rightarrow> string option) \<Rightarrow> ParsedChallenge" where
  "parse_fields lib t m =
     (let issuedAt = m ''issued at'';
          timestamp = (if truthy (m ''timestamp'') then Some (js_Number lib (the (m ''timestamp'')))
            else if truthy issuedAt then Some (date_parse lib (the issuedAt)) else None);
          version = (if truthy (m ''version'') then Some (js_Number lib (the (m ''version''))) else None)
      in \<lparr>raw = t, isLegacy = False, pc_domain = m ''domain'',
          pc_homeDomain = (case m ''home domain'' of Some h \<Rightarrow> Some h | None \<Rightarrow> m ''home_domain''),
          pc_nonce = m ''nonce'', pc_timestamp = number_or_null timestamp, pc_issuedAt = issuedAt,
          pc_walletAddress = m ''address'', pc_version = number_or_null version\<rparr>)"

definition parseChallenge :: "text_lib \<Rightarrow> string \<Rightarrow> ParsedChallenge option" where
  "parseChallenge lib t =
     (if t = [] then None
      else case legacy_match t of
        Some (ts, nonce) \<Rightarrow> Some \<lparr>raw = t, isLegacy = True, pc_domain = None, pc_homeDomain = None, pc_nonce = Some nonce,
          pc_timestamp = Some (js_Number lib ts), pc_issuedAt = None, pc_walletAddress = None, pc_version = None\<rparr>
      | None \<Rightarrow> Some (parse_fields lib t (challenge_map t)))"

definition isValidChallengeDomain :: "auth_env \<Rightarrow> text_lib \<Rightarrow> string \<Rightarrow> bool" where
  "isValidChallengeDomain env lib t =
     (case parseChallenge lib t of
        None \<Rightarrow> False
      | Some parsed \<Rightarrow>
          if isLegacy parsed then True
          else if \<not> truthy (pc_domain parsed) then False
          else if pc_domain parsed \<noteq> Some (getAuthDomain env) then False
          else if truthy (pc_homeDomain parsed) \<and> pc_homeDomain parsed \<noteq> Some (getHomeDomain env) then False
          else True)"

definition isChallengeWalletBindingValid :: "text_lib \<Rightarrow> string \<Rightarrow> string \<Rightarrow> bool" where
  "isChallengeWalletBindingValid lib t wallet =
     (case parseChallenge lib t of
        None \<Rightarrow> False
      | Some parsed \<Rightarrow>
          if isLegacy parsed then True
          else if \<not> truthy (pc_walletAddress parsed) then True
          else pc_walletAddress parsed = Some wallet)"

subsection \<open>Checking a signature\<close>

record stellar_lib =
  strkey_valid :: "string \<Rightarrow> bool option"
  keypair_verify :: "string \<Rightarrow> string \<Rightarrow> string \<Rightarrow> bool option"  \<comment> \<open>public key, message, base64 signature\<close>

definition isValidStellarAddress :: "stellar_lib \<Rightarrow> string \<Rightarrow> bool" where
  "isValidStellarAddress st address = (strkey_valid st address = Some True)"

definition verifySignature :: "auth_env \<Rightarrow> text_lib \<Rightarrow> stellar_lib \<Rightarrow> string \<Rightarrow> string \<Rightarrow> string \<Rightarrow> bool" where
  "verifySignature env lib st wallet challenge signature =
     (if \<not> isValidStellarAddress st wallet then False
      else if \<not> isValidChallengeDomain env lib challenge then False
      else if \<not> isChallengeWalletBindingValid lib challenge wallet then False
      else keypair_verify st wallet challenge signature = Some True)"

subsection \<open>Lines and fields\<close>

lemma split_join:
  assumes "ls \<noteq> []" and "\<And>l. l \<in> set ls \<Longrightarrow> CHR 0x0A \<notin> set l"
  shows "split_lines (join_lines ls) = ls"
proof -
  have single: "split_lines l = [l]" if "CHR 0x0A \<notin> set l" for l using that by (induction l) auto
  have first: "split_lines (l @ CHR 0x0A # t) = l # split_lines t" if "CHR 0x0A \<notin> set l" for l t
    using that by (induction l) auto
  from assms show ?thesis by (induction ls rule: join_lines.induct) (auto simp: single first)
qed

lemma trim_space: "trim (CHR '' '' # t) = trim t"
  by (simp add: trim_def is_space_def)

lemma key_value_line:
  assumes "CHR '':'' \<notin> set k"
  shows "key_value (k @ CHR '':'' # CHR '' '' # v) = Some (to_lower (trim k), trim v)"
proof -
  have "takeWhile (\<lambda>c. c \<noteq> CHR '':'') (k @ CHR '':'' # t) = k \<and> dropWhile (\<lambda>c. c \<noteq> CHR '':'') (k @ CHR '':'' # t) = CHR '':'' # t"
    for t using assms by (induction k) auto
  then show ?thesis by (simp add: key_value_def trim_space)
qed

lemma field_names:
  "to_lower (trim ''Domain'') = ''domain''" "to_lower (trim ''Home Domain'') = ''home domain''"
  "to_lower (trim ''Address'') = ''address''" "to_lower (trim ''Nonce'') = ''nonce''"
  "to_lower (trim ''Issued At'') = ''issued at''" "to_lower (trim ''Version'') = ''version''"
  "to_lower (trim ''Timestamp'') = ''timestamp''"
  by code_simp+

lemma challenge_fields:
  "key_value ''Xelma Authentication'' = None"
  "key_value (''Domain: '' @ v) = Some (''domain'', trim v)"
  "key_value (''Home Domain: '' @ v) = Some (''home domain'', trim v)"
  "key_value (''Address: '' @ v) = Some (''address'', trim v)"
  "key_value (''Nonce: '' @ v) = Some (''nonce'', trim v)"
  "key_value (''Issued At: '' @ v) = Some (''issued at'', trim v)"
  "key_value (''Version: '' @ v) = Some (''version'', trim v)"
  "key_value (''Timestamp: '' @ v) = Some (''timestamp'', trim v)"
  using key_value_line [of "''Domain''" v] key_value_line [of "''Home Domain''" v] key_value_line [of "''Address''" v]
    key_value_line [of "''Nonce''" v] key_value_line [of "''Issued At''" v] key_value_line [of "''Version''" v]
    key_value_line [of "''Timestamp''" v]
  by (simp_all add: field_names) (simp add: key_value_def)

text \<open>A text that survives a line: no line break, no space at its ends.\<close>

definition one_line :: "string \<Rightarrow> bool" where
  "one_line t \<longleftrightarrow> trim t = t \<and> CHR 0x0A \<notin> set t"

lemma trim_id: "(\<And>c. c \<in> set t \<Longrightarrow> \<not> is_space c) \<Longrightarrow> trim t = t"
  by (metis dropWhile_eq_self_iff hd_in_set list.set(1) rev_rev_ident set_rev trim_def)

lemma trim_idem [simp]: "trim (trim t) = trim t"
proof -
  have "dropWhile is_space (rev (dropWhile is_space (rev u))) = rev (dropWhile is_space (rev u))"
    if "u = dropWhile is_space t" for u
  proof (cases "dropWhile is_space (rev u)")
    case (Cons a l)
    obtain p where "rev u = p @ dropWhile is_space (rev u)" by (metis takeWhile_dropWhile_id)
    then have "u = rev (dropWhile is_space (rev u)) @ rev p" by (metis rev_append rev_rev_ident)
    with Cons have "hd (rev (dropWhile is_space (rev u))) = hd u" by (metis hd_append2 list.discI rev_is_Nil_conv)
    moreover have "u \<noteq> []" using Cons by auto
    then have "\<not> is_space (hd u)" using that hd_dropWhile [of is_space t] by simp
    ultimately show ?thesis by (metis dropWhile_eq_self_iff)
  next
    case Nil
    then show ?thesis by (simp only: rev.simps dropWhile.simps)
  qed
  then show ?thesis by (simp add: trim_def)
qed

lemma one_line_chars:
  assumes "set t \<subseteq> digits \<union> set ''+-T:.Z''"
  shows "one_line t"
proof -
  have "\<not> is_space c" if "c \<in> digits \<union> set ''+-T:.Z''" for c
    using that by (auto simp: is_space_def digits_def)
  moreover have "is_space (CHR 0x0A)" by (simp add: is_space_def)
  ultimately show ?thesis unfolding one_line_def using assms trim_id [of t] by blast
qed

lemma pad_chars: "set (pad w n) \<subseteq> digits"
  using show_nat_digits [of "nat n"] by (auto simp: pad_def Let_def digits_def)

lemma show_int_line: "one_line (show_int i)"
  using show_int_chars [of i] by (intro one_line_chars) auto

lemma iso_line: "one_line (toISOString ms)"
proof (rule one_line_chars)
  show "set (toISOString ms) \<subseteq> digits \<union> set ''+-T:.Z''"
    using pad_chars by (auto simp: toISOString_def show_year_def Let_def split: prod.split)
qed

text \<open>The map of a generated challenge.\<close>

lemma generated_map:
  assumes "one_line (getAuthDomain env)" and "one_line (getHomeDomain env)" and "one_line random" and "one_line wallet"
    and "wallet \<noteq> []"
  shows "challenge_map (generateChallenge env random now (Some wallet)) =
    [''domain'' \<mapsto> getAuthDomain env, ''home domain'' \<mapsto> getHomeDomain env, ''address'' \<mapsto> wallet, ''nonce'' \<mapsto> random,
     ''issued at'' \<mapsto> toISOString now, ''version'' \<mapsto> show_int 1, ''timestamp'' \<mapsto> show_int now]"
proof -
  define ls where "ls = [''Xelma Authentication'', ''Domain: '' @ getAuthDomain env, ''Home Domain: '' @ getHomeDomain env,
     ''Address: '' @ wallet, ''Nonce: '' @ random, ''Issued At: '' @ toISOString now, ''Version: '' @ show_int 1,
     ''Timestamp: '' @ show_int now]"
  note lines = assms(1-4) show_int_line [of now] show_int_line [of 1] iso_line [of now]
  have "generateChallenge env random now (Some wallet) = join_lines ls"
    using lines assms(5) by (simp add: generateChallenge_def buildChallengeMessage_def challenge_lines_def or_else_def
        one_line_def truthy_def ls_def)
  moreover have "split_lines (join_lines ls) = ls"
    using lines by (intro split_join) (auto simp: ls_def one_line_def)
  moreover have "List.map_filter key_value ls = [(''domain'', getAuthDomain env), (''home domain'', getHomeDomain env),
     (''address'', wallet), (''nonce'', random), (''issued at'', toISOString now), (''version'', show_int 1),
     (''timestamp'', show_int now)]"
    unfolding ls_def using lines by (simp add: List.map_filter_def challenge_fields one_line_def del: append.simps)
  ultimately show ?thesis by (simp add: challenge_map_def fun_eq_iff)
qed

lemma generated_not_legacy:
  "generateChallenge env random now w \<noteq> []" "legacy_match (generateChallenge env random now w) = None"
proof -
  have "\<exists>t. generateChallenge env random now w = CHR ''X'' # t"
    by (simp add: generateChallenge_def buildChallengeMessage_def challenge_lines_def Let_def)
  then obtain t where t: "generateChallenge env random now w = CHR ''X'' # t" ..
  then show "generateChallenge env random now w \<noteq> []" "legacy_match (generateChallenge env random now w) = None"
    by (simp_all add: legacy_match_def Let_def numeral_eq_Suc)
qed

lemma length_show_nat: "n < 10 ^ k \<Longrightarrow> 0 < k \<Longrightarrow> length (show_nat n) \<le> k"
proof (induction k arbitrary: n)
  case (Suc k)
  show ?case
  proof (cases "n < 10")
    case True
    then show ?thesis by (subst show_nat.simps) simp
  next
    case False
    then have "0 < k" using Suc.prems by (cases k) auto
    then show ?thesis using False Suc.IH [of "n div 10"] Suc.prems by (subst show_nat.simps) (simp add: less_mult_imp_div_less mult.commute)
  qed
qed simp

lemma Number_show: "0 \<le> i \<Longrightarrow> i < 10 ^ 15 \<Longrightarrow> js_Number lib (show_int i) = Finite (of_int i)"
  using show_nat_digits [of "nat i"] length_show_nat [of "nat i" 15]
  by (auto simp: js_Number_def show_int_def read_show_nat list_all_iff is_digit_def nat_less_iff)

subsection \<open>Properties\<close>

text \<open>Parsing inverts generating: for a server whose domains fit on a line and any wallet, nonce and time, the
  parser reads back exactly the domains, the wallet, the nonce, the time and the version that were written.\<close>

theorem challenge_roundtrip:
  assumes "one_line (getAuthDomain env)" and "one_line (getHomeDomain env)" and "one_line random" and "one_line wallet"
    and "wallet \<noteq> []" and "0 < now" and "now < 10 ^ 15"
  shows "parseChallenge lib (generateChallenge env random now (Some wallet)) = Some
    \<lparr>raw = generateChallenge env random now (Some wallet), isLegacy = False, pc_domain = Some (getAuthDomain env),
     pc_homeDomain = Some (getHomeDomain env), pc_nonce = Some random, pc_timestamp = Some (Finite (of_int now)),
     pc_issuedAt = Some (toISOString now), pc_walletAddress = Some wallet, pc_version = Some (Finite 1)\<rparr>"
proof -
  have "show_int now \<noteq> []" "show_int 1 \<noteq> []"
    using show_nat_digits [of "nat now"] show_nat_digits [of 1] by (auto simp: show_int_def)
  then show ?thesis
    using assms(6,7) Number_show [of now lib] Number_show [of 1 lib]
    by (simp add: parseChallenge_def generated_not_legacy parse_fields_def generated_map [OF assms(1-5)] truthy_def
        number_or_null_def Let_def)
qed

text \<open>C38. A challenge is bound to its server and its wallet: a signature check accepts a challenge that some server
  issued to a wallet exactly when the checking server has the same domain (and home domain, when one is set), the
  signer is that wallet, and the wallet's key verifies the signature of that very text.\<close>

theorem challenge_bound:
  assumes "one_line (getAuthDomain env)" and "one_line (getHomeDomain env)" and "one_line random" and "one_line wallet"
    and "wallet \<noteq> []"
  shows "verifySignature env' lib st signer (generateChallenge env random now (Some wallet)) signature \<longleftrightarrow>
    isValidStellarAddress st signer \<and> getAuthDomain env \<noteq> [] \<and> getAuthDomain env' = getAuthDomain env \<and>
    (getHomeDomain env = [] \<or> getHomeDomain env' = getHomeDomain env) \<and> signer = wallet \<and>
    keypair_verify st wallet (generateChallenge env random now (Some wallet)) signature = Some True"
  using assms(5)
  by (auto simp: verifySignature_def isValidChallengeDomain_def isChallengeWalletBindingValid_def parseChallenge_def
      generated_not_legacy parse_fields_def generated_map [OF assms] truthy_def Let_def)

definition demo_env :: auth_env where
  "demo_env = \<lparr>env_AUTH_DOMAIN = None, env_WEB_AUTH_DOMAIN = None, env_HOME_DOMAIN = Some ''home.xelma.io'',
     env_CLIENT_URL = Some ''https://app.xelma.io'', env_API_BASE_URL = None, url_hostname = \<lambda>_. Some ''app.xelma.io''\<rparr>"

lemma demo_env_domains:
  "getAuthDomain demo_env = ''app.xelma.io''" "getHomeDomain demo_env = ''home.xelma.io''"
  "one_line ''app.xelma.io''" "one_line ''home.xelma.io''" "one_line ''0a''" "one_line ''GABC''"
  by code_simp+

theorem challenge_roundtrip_witness:
  "map_option pc_nonce (parseChallenge \<lparr>other_number = \<lambda>_. NaN, date_parse = \<lambda>_. NaN\<rparr>
     (generateChallenge demo_env ''0a'' 1725148800000 (Some ''GABC''))) = Some (Some ''0a'')"
  by (subst challenge_roundtrip) (simp_all add: demo_env_domains)

theorem challenge_bound_witness:
  "\<not> verifySignature (demo_env\<lparr>env_AUTH_DOMAIN := Some ''evil.com''\<rparr>) \<lparr>other_number = \<lambda>_. NaN, date_parse = \<lambda>_. NaN\<rparr>
     \<lparr>strkey_valid = \<lambda>_. Some True, keypair_verify = \<lambda>_ _ _. Some True\<rparr> ''GABC''
     (generateChallenge demo_env ''0a'' 1725148800000 (Some ''GABC'')) ''sig''"
proof -
  have "getAuthDomain (demo_env\<lparr>env_AUTH_DOMAIN := Some ''evil.com''\<rparr>) = ''evil.com''" by code_simp
  then show ?thesis by (subst challenge_bound) (simp_all add: demo_env_domains)
qed

lemma iso_demo: "toISOString 1725148800000 = ''2024-09-01T00:00:00.000Z'' \<and> toISOString (-1) = ''1969-12-31T23:59:59.999Z''"
  by code_simp

end
