(* ===== verification/Auth.thy ===== *)
theory Auth
  imports Challenge Schema
begin

text \<open>
  Wallet login (\<open>src/src/routes/auth.routes.ts\<close>), tokens (\<open>src/src/utils/jwt.util.ts\<close>) and the guards of the
  routes (\<open>src/src/middleware/auth.middleware.ts\<close>).

  A login consumes its challenge with one conditional \<open>updateMany\<close>, checks the signature, and then reads and
  writes the user without a transaction.  The signing library is a parameter; \<open>midnight\<close> is the start of the local
  day of an instant.  Rate limits and the shape checks of the request body run before the handlers.
\<close>

subsection \<open>Tokens\<close>

record JwtPayload =
  jp_userId :: "string option"
  jp_walletAddress :: "string option"
  jp_role :: "UserRole option"

datatype jwt_reply = JwtPayload JwtPayload | TokenExpiredError | OtherJwtError

record jwt_lib =
  JWT_SECRET :: "string option"
  JWT_ISSUER :: "string option"
  JWT_AUDIENCE :: "string option"
  jwt_sign :: "string \<Rightarrow> string option \<Rightarrow> string option \<Rightarrow> JwtPayload \<Rightarrow> int \<Rightarrow> string option"  \<comment> \<open>\<open>None\<close>: throws\<close>
  jwt_verify :: "string \<Rightarrow> string option \<Rightarrow> string option \<Rightarrow> string \<Rightarrow> int \<Rightarrow> jwt_reply"

definition or_undefined :: "string option \<Rightarrow> string option" where
  "or_undefined x = (if truthy x then x else None)"

definition getJwtSecret :: "jwt_lib \<Rightarrow> js_error + string" where
  "getJwtSecret J = (if truthy (JWT_SECRET J) then Inr (the (JWT_SECRET J))
     else Inl (JsError ''FATAL: JWT_SECRET environment variable is missing.''))"

definition generateToken :: "jwt_lib \<Rightarrow> int \<Rightarrow> string \<Rightarrow> string \<Rightarrow> UserRole \<Rightarrow> js_error + string" where
  "generateToken J now userId wallet role =
     (case getJwtSecret J of
        Inl e \<Rightarrow> Inl e
      | Inr secret \<Rightarrow>
          (case jwt_sign J secret (or_undefined (JWT_ISSUER J)) (or_undefined (JWT_AUDIENCE J))
               \<lparr>jp_userId = Some userId, jp_walletAddress = Some wallet, jp_role = Some role\<rparr> now of
             None \<Rightarrow> Inl (JsError ''jwt.sign'') | Some t \<Rightarrow> Inr t))"

definition jwt_check :: "jwt_lib \<Rightarrow> int \<Rightarrow> string \<Rightarrow> jwt_reply" where
  "jwt_check J now token =
     (case getJwtSecret J of
        Inl e \<Rightarrow> OtherJwtError
      | Inr secret \<Rightarrow> jwt_verify J secret (or_undefined (JWT_ISSUER J)) (or_undefined (JWT_AUDIENCE J)) token now)"

definition verifyToken :: "jwt_lib \<Rightarrow> int \<Rightarrow> string \<Rightarrow> JwtPayload option" where
  "verifyToken J now token = (case jwt_check J now token of JwtPayload p \<Rightarrow> Some p | _ \<Rightarrow> None)"

datatype TokenVerifyResult = ValidToken JwtPayload | InvalidToken bool  \<comment> \<open>whether it expired\<close>

definition verifyTokenDetailed :: "jwt_lib \<Rightarrow> int \<Rightarrow> string \<Rightarrow> TokenVerifyResult" where
  "verifyTokenDetailed J now token =
     (case jwt_check J now token of JwtPayload p \<Rightarrow> ValidToken p | TokenExpiredError \<Rightarrow> InvalidToken True
      | OtherJwtError \<Rightarrow> InvalidToken False)"

subsection \<open>Issuing a challenge\<close>

record ChallengeResponse =
  cr_challenge :: string
  cr_domain :: string
  cr_homeDomain :: string
  cr_expiresAt :: int

definition unused_of :: "string \<Rightarrow> challenge_row \<Rightarrow> bool" where
  "unused_of wallet r \<longleftrightarrow> ac_walletAddress r = wallet \<and> \<not> ac_isUsed r"

definition delete_challenges :: "(challenge_row \<Rightarrow> bool) \<Rightarrow> ('c app, js_error, unit) comp" where
  "delete_challenges P = m_modify (\<lambda>s. s\<lparr>authChallenges := snd (c_deleteMany P (authChallenges s))\<rparr>)"

definition drop_challenges :: "(challenge_row \<Rightarrow> bool) \<Rightarrow> ('c app, js_error, unit) comp" where
  "drop_challenges P =
     m_bind (m_gets (\<lambda>s. c_findMany P None 0 None (authChallenges s))) (\<lambda>old.
     m_then (delete_challenges P) (m_forEach old (\<lambda>r. emit (Audit ''CHALLENGE_INVALIDATED'' (ac_challenge r)))))"

definition new_challenge :: "string \<Rightarrow> string \<Rightarrow> int \<Rightarrow> string \<Rightarrow> challenge_row" where
  "new_challenge challenge wallet now i = \<lparr>ac_id = i, ac_challenge = challenge, ac_walletAddress = wallet,
     ac_createdAt = now, ac_expiresAt = getChallengeExpiry now, ac_usedAt = None, ac_isUsed = False\<rparr>"

definition challengeHandler ::
  "auth_env \<Rightarrow> text_lib \<Rightarrow> string \<Rightarrow> int \<Rightarrow> string \<Rightarrow> ('c app, js_error, ChallengeResponse) comp" where
  "challengeHandler env lib random now wallet =
     m_then (drop_challenges (unused_of wallet))
       (let challenge = generateChallenge env random now (Some wallet)
        in m_then (t_create authChallenges authChallenges_update (new_challenge challenge wallet now))
          (m_then (emit (Audit ''CHALLENGE_ISSUED'' challenge))
            (let parsed = parseChallenge lib challenge
             in m_return \<lparr>cr_challenge = challenge,
               cr_domain = or_else (Option.bind parsed pc_domain) (getAuthDomain env),
               cr_homeDomain = or_else (Option.bind parsed pc_homeDomain) (getHomeDomain env),
               cr_expiresAt = getChallengeExpiry now\<rparr>)))"

subsection \<open>Consuming a challenge\<close>

definition consumable :: "int \<Rightarrow> string \<Rightarrow> string \<Rightarrow> challenge_row \<Rightarrow> bool" where
  "consumable now challenge wallet r \<longleftrightarrow>
     ac_challenge r = challenge \<and> ac_walletAddress r = wallet \<and> \<not> ac_isUsed r \<and> now < ac_expiresAt r"

definition refuse :: "string \<Rightarrow> string \<Rightarrow> string \<Rightarrow> ErrorCode \<Rightarrow> ('c app, js_error, 'a) comp" where
  "refuse event challenge msg code =
     m_then (emit (Audit event challenge)) (m_throw (App (AuthenticationError msg code)))"

definition explain_refusal :: "int \<Rightarrow> string \<Rightarrow> string \<Rightarrow> ('c app, js_error, unit) comp" where
  "explain_refusal now challenge wallet =
     m_bind (t_find authChallenges (\<lambda>r. ac_challenge r = challenge)) (\<lambda>existing.
       case existing of
         None \<Rightarrow> refuse ''CHALLENGE_FAILED'' challenge ''Invalid or expired challenge'' INVALID_CHALLENGE
       | Some r \<Rightarrow>
           if ac_walletAddress r \<noteq> wallet
           then refuse ''CHALLENGE_FAILED'' challenge ''Invalid or expired challenge'' INVALID_CHALLENGE
           else if ac_isUsed r
           then refuse ''CHALLENGE_REUSED'' challenge ''Challenge has already been used'' CHALLENGE_USED
           else if isChallengeExpired now (ac_expiresAt r)
           then refuse ''CHALLENGE_EXPIRED'' challenge ''Challenge has expired. Please request a new one.'' CHALLENGE_EXPIRED
           else refuse ''CHALLENGE_FAILED'' challenge ''Invalid or expired challenge'' INVALID_CHALLENGE)"

definition mark_used :: "int \<Rightarrow> challenge_row \<Rightarrow> challenge_row" where
  "mark_used now r = r\<lparr>ac_isUsed := True, ac_usedAt := Some now\<rparr>"

definition consume :: "int \<Rightarrow> string \<Rightarrow> string \<Rightarrow> ('c app, js_error, unit) comp" where
  "consume now challenge wallet =
     m_bind (t_updateMany authChallenges authChallenges_update (consumable now challenge wallet)
         (mark_used now)) (\<lambda>count.
       if count = 0 then explain_refusal now challenge wallet else m_return ())"

subsection \<open>The user and the login bonus\<close>

definition DAY_MS :: int where
  "DAY_MS = 1000 * 60 * 60 * 24"

text \<open>\<open>Math.ceil(Math.abs(today - lastLoginDay) / DAY)\<close>\<close>

definition diff_days :: "(int \<Rightarrow> int) \<Rightarrow> int \<Rightarrow> int \<Rightarrow> int" where
  "diff_days midnight now lastLogin = - ((- \<bar>midnight now - midnight lastLogin\<bar>) div DAY_MS)"

definition next_streak :: "int \<Rightarrow> int \<Rightarrow> int" where
  "next_streak diffDays st = (if diffDays < 1 then st else if diffDays = 1 then st + 1 else 1)"

definition bonus_multiplier :: "int \<Rightarrow> rat" where
  "bonus_multiplier st = (if 7 \<le> st then 2 else if 3 \<le> st then 3 / 2 else 1)"

record login =
  lg_user :: user_row
  lg_isNewUser :: bool
  lg_bonus :: rat
  lg_streak :: int

definition signup_user :: "int \<Rightarrow> string \<Rightarrow> string \<Rightarrow> user_row" where
  "signup_user now wallet i = \<lparr>u_id = i, walletAddress = wallet, virtualBalance = 1000 + 100, wins = 0, streak = 1,
     u_role = UR_USER, lastLoginAt = Some now\<rparr>"

definition bonus_row :: "string \<Rightarrow> rat \<Rightarrow> string \<Rightarrow> string \<Rightarrow> transaction_row" where
  "bonus_row uid amount description i =
     \<lparr>tr_id = i, tr_userId = uid, tr_amount = amount, tr_type = ''BONUS'', tr_description = description\<rparr>"

text \<open>What a login of the user \<open>u\<close>, as it was read, grants, and how it changes the row \<open>v\<close>.\<close>

definition new_day :: "(int \<Rightarrow> int) \<Rightarrow> int \<Rightarrow> user_row \<Rightarrow> bool" where
  "new_day midnight now u \<longleftrightarrow> 1 \<le> diff_days midnight now (or_else (lastLoginAt u) 0)"

definition login_streak :: "(int \<Rightarrow> int) \<Rightarrow> int \<Rightarrow> user_row \<Rightarrow> int" where
  "login_streak midnight now u = next_streak (diff_days midnight now (or_else (lastLoginAt u) 0)) (streak u)"

definition login_bonus :: "(int \<Rightarrow> int) \<Rightarrow> int \<Rightarrow> user_row \<Rightarrow> rat" where
  "login_bonus midnight now u = (if new_day midnight now u then 100 * bonus_multiplier (login_streak midnight now u) else 0)"

definition updated_user :: "arith \<Rightarrow> (int \<Rightarrow> int) \<Rightarrow> int \<Rightarrow> user_row \<Rightarrow> user_row \<Rightarrow> user_row" where
  "updated_user E midnight now u v =
     v\<lparr>lastLoginAt := Some now, streak := login_streak midnight now u,
       virtualBalance := (if new_day midnight now u then increment E (virtualBalance v) (login_bonus midnight now u)
         else virtualBalance v)\<rparr>"

text \<open>The writes of a login for the user that was read before (\<open>None\<close>: there was none).\<close>

definition login_writes ::
  "arith \<Rightarrow> (int \<Rightarrow> int) \<Rightarrow> int \<Rightarrow> string \<Rightarrow> user_row option \<Rightarrow> ('c app, js_error, login) comp" where
  "login_writes E midnight now wallet found =
     (case found of
        None \<Rightarrow>
          m_bind (t_create users users_update (signup_user now wallet)) (\<lambda>u.
          m_then (t_create transactions transactions_update (bonus_row (u_id u) 100 ''Welcome Bonus''))
            (m_then (emit (Audit ''USER_CREATED'' (u_id u)))
              (m_return \<lparr>lg_user = u, lg_isNewUser = True, lg_bonus = 100, lg_streak = 1\<rparr>)))
      | Some u \<Rightarrow>
          m_then
            (if new_day midnight now u then m_then (t_create transactions transactions_update
                 (bonus_row (u_id u) (login_bonus midnight now u)
                    (''Daily Login Bonus (Day '' @ show_int (login_streak midnight now u) @ '')''))) (m_return ())
             else m_return ())
            (m_bind (t_update P2025 users users_update (\<lambda>v. walletAddress v = wallet) (updated_user E midnight now u)) (\<lambda>v.
              m_return \<lparr>lg_user = v, lg_isNewUser = False, lg_bonus = login_bonus midnight now u,
                 lg_streak = login_streak midnight now u\<rparr>)))"

definition login_user ::
  "arith \<Rightarrow> (int \<Rightarrow> int) \<Rightarrow> int \<Rightarrow> string \<Rightarrow> ('c app, js_error, login) comp" where
  "login_user E midnight now wallet =
     m_bind (t_find users (\<lambda>u. walletAddress u = wallet)) (login_writes E midnight now wallet)"

subsection \<open>The handlers\<close>

record ConnectResponse =
  cn_token :: string
  cn_userId :: string
  cn_walletAddress :: string
  cn_bonus :: rat
  cn_streak :: int

definition used_long_ago :: "int \<Rightarrow> string \<Rightarrow> challenge_row \<Rightarrow> bool" where
  "used_long_ago now wallet r \<longleftrightarrow> ac_walletAddress r = wallet \<and> ac_isUsed r \<and>
     (case ac_usedAt r of None \<Rightarrow> False | Some t \<Rightarrow> t < now - 24 * 60 * 60 * 1000)"

text \<open>The end of \<open>connectHandler\<close>: audit events, token, and the removal of old challenges.\<close>

definition finish_login ::
  "jwt_lib \<Rightarrow> int \<Rightarrow> string \<Rightarrow> string \<Rightarrow> login \<Rightarrow> ('c app, js_error, ConnectResponse) comp" where
  "finish_login J now wallet challenge l =
     (let u = lg_user l
      in m_then (emit (Audit ''CHALLENGE_VERIFIED'' challenge))
        (m_then (emit (Audit ''AUTH_SUCCESS'' (u_id u)))
          (m_then (emit (Audit ''USER_LOGIN'' (u_id u)))
            (m_bind (lift_sum (generateToken J now (u_id u) (walletAddress u) (u_role u))) (\<lambda>token.
              m_then (drop_challenges (used_long_ago now wallet))
                (m_return \<lparr>cn_token = token, cn_userId = u_id u, cn_walletAddress = walletAddress u,
                   cn_bonus = lg_bonus l, cn_streak = lg_streak l\<rparr>))))))"

record auth_config =
  a_env :: auth_env
  a_text :: text_lib
  a_stellar :: stellar_lib
  a_jwt :: jwt_lib
  a_arith :: arith
  a_midnight :: "int \<Rightarrow> int"

text \<open>Up to the signature check, and what follows it.\<close>

definition authenticate :: "auth_config \<Rightarrow> int \<Rightarrow> string \<Rightarrow> string \<Rightarrow> string \<Rightarrow> ('c app, js_error, unit) comp" where
  "authenticate C now wallet challenge signature =
     m_then (consume now challenge wallet)
       (if \<not> verifySignature (a_env C) (a_text C) (a_stellar C) wallet challenge signature
        then refuse ''INVALID_SIGNATURE'' challenge ''Invalid signature'' INVALID_SIGNATURE
        else m_return ())"

definition connectHandler ::
  "auth_config \<Rightarrow> int \<Rightarrow> string \<Rightarrow> string \<Rightarrow> string \<Rightarrow> ('c app, js_error, ConnectResponse) comp" where
  "connectHandler C now wallet challenge signature =
     m_then (authenticate C now wallet challenge signature)
       (m_bind (login_user (a_arith C) (a_midnight C) now wallet) (finish_login (a_jwt C) now wallet challenge))"

definition bearer :: "string option \<Rightarrow> string option" where
  "bearer h = (case h of Some t \<Rightarrow> if take 7 t = ''Bearer '' then Some (drop 7 t) else None | None \<Rightarrow> None)"

definition refreshHandler ::
  "jwt_lib \<Rightarrow> int \<Rightarrow> string option \<Rightarrow> string option \<Rightarrow> string option \<Rightarrow> ('c app, js_error, string \<times> user_row) comp" where
  "refreshHandler J now authHeader bodyToken bodyRefreshToken =
     (let token = (case bearer authHeader of Some t \<Rightarrow> Some t
            | None \<Rightarrow> (case bodyToken of Some t \<Rightarrow> Some t | None \<Rightarrow> bodyRefreshToken));
          fail = (\<lambda>msg. m_throw (App (AuthenticationError msg AUTHENTICATION_ERROR)))
      in if \<not> truthy token then fail ''Authentication token is required''
         else case verifyToken J now (the token) of
           None \<Rightarrow> fail ''Invalid or expired token''
         | Some p \<Rightarrow>
             if \<not> truthy (jp_userId p) \<or> \<not> truthy (jp_walletAddress p) then fail ''Invalid or expired token''
             else m_bind (t_find users (\<lambda>u. u_id u = the (jp_userId p))) (\<lambda>user.
               case user of
                 None \<Rightarrow> fail ''User not found or wallet mismatch''
               | Some u \<Rightarrow>
                   if Some (walletAddress u) \<noteq> jp_walletAddress p then fail ''User not found or wallet mismatch''
                   else m_bind (lift_sum (generateToken J now (u_id u) (walletAddress u) (u_role u)))
                     (\<lambda>t. m_return (t, u))))"

subsection \<open>Guards of the routes\<close>

record auth_request =
  rq_authorization :: "string option"
  rq_user :: "JwtPayload option"
  rq_walletAddress :: "string option"
  rq_bodyAddress :: "string option"

datatype guard_result = Next auth_request | Respond nat string

text \<open>A token without a user id makes the lookup throw.\<close>

definition loadUserFromBearerToken ::
  "jwt_lib \<Rightarrow> int \<Rightarrow> string option \<Rightarrow> 'z db_scheme \<Rightarrow> js_error + user_row option" where
  "loadUserFromBearerToken J now h s =
     (case bearer h of
        None \<Rightarrow> Inr None
      | Some token \<Rightarrow>
          (case verifyToken J now token of
             None \<Rightarrow> Inr None
           | Some p \<Rightarrow>
               (case jp_userId p of
                  None \<Rightarrow> Inl (JsError ''Argument `where` needs `id`'')
                | Some uid \<Rightarrow> Inr (c_findUnique (\<lambda>u. u_id u = uid) (users s)))))"

definition attachUser :: "user_row \<Rightarrow> auth_request \<Rightarrow> auth_request" where
  "attachUser u req = req\<lparr>rq_user :=
     Some \<lparr>jp_userId = Some (u_id u), jp_walletAddress = Some (walletAddress u), jp_role = Some (u_role u)\<rparr>\<rparr>"

definition verifyStellarAuth :: "jwt_lib \<Rightarrow> int \<Rightarrow> auth_request \<Rightarrow> guard_result" where
  "verifyStellarAuth J now req =
     (case bearer (rq_authorization req) of
        None \<Rightarrow> Respond 401 ''No token provided''
      | Some token \<Rightarrow>
          (case verifyToken J now token of
             None \<Rightarrow> Respond 401 ''Invalid or expired token''
           | Some p \<Rightarrow>
               if \<not> truthy (jp_walletAddress p) then Respond 401 ''Invalid or expired token''
               else Next (req\<lparr>rq_walletAddress := jp_walletAddress p, rq_user := Some p\<rparr>)))"

definition requireRole ::
  "UserRole list \<Rightarrow> string \<Rightarrow> jwt_lib \<Rightarrow> int \<Rightarrow> auth_request \<Rightarrow> 'z db_scheme \<Rightarrow> guard_result" where
  "requireRole allowedRoles forbiddenMessage J now req s =
     (case loadUserFromBearerToken J now (rq_authorization req) s of
        Inl e \<Rightarrow> Respond 401 ''Authentication failed''
      | Inr None \<Rightarrow> Respond 401 (if bearer (rq_authorization req) \<noteq> None then ''Invalid or expired token'' else ''No token provided'')
      | Inr (Some u) \<Rightarrow>
          if u_role u \<notin> set allowedRoles then Respond 403 forbiddenMessage
          else Next (attachUser u req))"

definition authenticateUser :: "jwt_lib \<Rightarrow> int \<Rightarrow> auth_request \<Rightarrow> 'z db_scheme \<Rightarrow> guard_result" where
  "authenticateUser = requireRole [UR_USER, UR_ADMIN, UR_ORACLE] ''You do not have permission to access this resource''"

definition optionalAuthentication :: "jwt_lib \<Rightarrow> int \<Rightarrow> auth_request \<Rightarrow> 'z db_scheme \<Rightarrow> guard_result" where
  "optionalAuthentication J now req s =
     (case loadUserFromBearerToken J now (rq_authorization req) s of Inr (Some u) \<Rightarrow> Next (attachUser u req) | _ \<Rightarrow> Next req)"

definition requireAdmin :: "jwt_lib \<Rightarrow> int \<Rightarrow> auth_request \<Rightarrow> 'z db_scheme \<Rightarrow> guard_result" where
  "requireAdmin = requireRole [UR_ADMIN] ''Admin access required''"

definition requireMetricsAuth :: "string option \<Rightarrow> jwt_lib \<Rightarrow> int \<Rightarrow> auth_request \<Rightarrow> 'z db_scheme \<Rightarrow> guard_result" where
  "requireMetricsAuth metricsScrapeToken J now req s =
     (if truthy metricsScrapeToken \<and> rq_authorization req = Some (''Bearer '' @ the metricsScrapeToken)
      then Next req else requireAdmin J now req s)"

definition requireOracle :: "jwt_lib \<Rightarrow> int \<Rightarrow> auth_request \<Rightarrow> 'z db_scheme \<Rightarrow> guard_result" where
  "requireOracle = requireRole [UR_ORACLE, UR_ADMIN] ''Oracle or Admin access required''"

definition bindAuthenticatedWallet :: "auth_request \<Rightarrow> guard_result" where
  "bindAuthenticatedWallet req =
     (let wallet = Option.bind (rq_user req) jp_walletAddress
      in if \<not> truthy wallet then Respond 401 ''No token provided''
         else if truthy (rq_bodyAddress req) \<and> rq_bodyAddress req \<noteq> wallet
         then Respond 403 ''Wallet address does not match authenticated user''
         else Next (req\<lparr>rq_bodyAddress := wallet\<rparr>))"

subsection \<open>A challenge is used once\<close>

lemma updated_user_keys [simp]:
  "u_id (updated_user E midnight now u v) = u_id v" "walletAddress (updated_user E midnight now u v) = walletAddress v"
  by (simp_all add: updated_user_def)

text \<open>No challenge \<open>t\<close> of wallet \<open>w\<close> can be consumed from \<open>now\<close> on.\<close>

definition spent :: "string \<Rightarrow> string \<Rightarrow> int \<Rightarrow> 'c app \<Rightarrow> bool" where
  "spent t w now s \<longleftrightarrow> wf_db s \<and> (\<forall>k r. peek k (authChallenges s) = Some r \<longrightarrow>
     ac_challenge r = t \<longrightarrow> ac_walletAddress r = w \<longrightarrow> ac_isUsed r \<or> ac_expiresAt r \<le> now)"

lemma spent_frame [simp]:
  "spent t w now (effects_update f s) = spent t w now s"
  by (simp add: spent_def)

lemma preserves_spent [preserve_intros]:
  "preserves (spent t w now) (emit e)"
  "preserves (spent t w now) (delete_challenges P)"
  "(\<And>i. u_id (mk i) = i) \<Longrightarrow> preserves (spent t w now) (t_create users users_update mk)"
  "(\<And>i. tr_id (mt i) = i) \<Longrightarrow> preserves (spent t w now) (t_create transactions transactions_update mt)"
  "(\<And>u. u_id (f u) = u_id u) \<Longrightarrow> preserves (spent t w now) (t_update nf users users_update Q f)"
proof (goal_cases)
  case 1
  then show ?case by (simp add: preserves_def emit_eq)
next
  case 2
  show ?case
  proof (rule preservesI)
    fix s assume s: "spent t w now s"
    then have wf: "wf_t ac_id (authChallenges s)" by (simp add: spent_def challenges.tbl_wf)
    have "wf_db (s\<lparr>authChallenges := snd (c_deleteMany P (authChallenges s))\<rparr>)"
      using s by (auto simp: spent_def intro!: challenges.upd_wf deleteMany_peek(2) [OF wf])
    with s show "spent t w now (snd (delete_challenges P s))"
      by (auto simp: spent_def delete_challenges_def m_modify_def deleteMany_peek(1) [OF wf] split: option.splits if_splits)
  qed
next
  case 5
  show ?case
  proof (rule preservesI)
    fix s assume s: "spent t w now s"
    then have "wf_db (snd (t_update nf users users_update Q f s))"
      by (intro preservesD [OF users.preserves_update [OF 5]]) (simp add: spent_def)
    moreover have "authChallenges (snd (t_update nf users users_update Q f s)) = authChallenges s"
      by (simp add: t_update_def split: option.split prod.split)
    ultimately show "spent t w now (snd (t_update nf users users_update Q f s))" using s by (simp add: spent_def)
  qed
qed (auto intro!: preservesI simp: spent_def users.create_eq transactions.create_eq users.create_wf transactions.create_wf)

lemma preserves_drop [preserve_intros]: "preserves (spent t w now) (drop_challenges P)"
  unfolding drop_challenges_def by (intro preserve_intros)

lemma preserves_finish [preserve_intros]: "preserves (spent t w now) (finish_login J now' wallet challenge l)"
  unfolding finish_login_def by (intro preserve_intros)

lemma preserves_login_writes [preserve_intros]: "preserves (spent t w now) (login_writes E midnight now' wallet found)"
  unfolding login_writes_def by (intro preserve_intros) (simp_all add: signup_user_def bonus_row_def)

lemma preserves_refusals [preserve_intros]:
  "preserves (spent t w now) (refuse event challenge msg code)"
  "preserves (spent t w now) (explain_refusal now' challenge wallet)"
proof -
  have r: "preserves (spent t w now) (refuse event challenge msg code)" for event msg code
    unfolding refuse_def by (intro preserve_intros)
  show "preserves (spent t w now) (refuse event challenge msg code)" by (rule r)
  show "preserves (spent t w now) (explain_refusal now' challenge wallet)"
    unfolding explain_refusal_def by (intro preserve_intros r)
qed

text \<open>The conditional update keeps spent challenges spent, and spends the one it consumes.\<close>

lemma consume_update:
  fixes s :: "'c app" and now :: int and c w :: string
  assumes "wf_db s"
  defines "s' \<equiv> s\<lparr>authChallenges := snd (c_updateMany (consumable now c w) (mark_used now) (authChallenges s))\<rparr>"
  shows "t_updateMany authChallenges authChallenges_update (consumable now c w)
      (mark_used now) s =
      (Inr (length (filtered (consumable now c w) (authChallenges s))), s')"
    and "spent c w now s'" and "spent t v now' s \<Longrightarrow> spent t v now' s'"
proof -
  have wf: "wf_t ac_id (authChallenges s)" by (rule challenges.tbl_wf [OF assms(1)])
  have id: "ac_id (mark_used now r) = ac_id r" for r by (simp add: mark_used_def)
  have "wf_db s'" unfolding s'_def by (rule challenges.upd_wf [OF assms(1) updateMany_wf [OF wf id]])
  then show "spent c w now s'" "spent t v now' s \<Longrightarrow> spent t v now' s'"
    by (auto simp: spent_def s'_def updateMany_peek [OF wf id] consumable_def mark_used_def split: option.splits if_splits)
  show "t_updateMany authChallenges authChallenges_update (consumable now c w)
      (mark_used now) s =
      (Inr (length (filtered (consumable now c w) (authChallenges s))), s')"
    by (simp add: t_updateMany_def s'_def c_updateMany_def Let_def)
qed

lemma refusal_throws:
  obtains e s' where "explain_refusal now c w s = (Inl e, s')"
  by (cases "snd (explain_refusal now c w s)"; cases "fst (explain_refusal now c w s)")
     (auto simp: explain_refusal_def refuse_def comp_defs t_find_def emit_def split: option.splits if_splits)

lemma authenticate_outcome:
  fixes s :: "'c app"
  assumes "wf_db s"
  shows "(filtered (consumable now c w) (authChallenges s) \<noteq> [] \<and>
      verifySignature (a_env C) (a_text C) (a_stellar C) w c signature \<and>
      authenticate C now w c signature s =
        (Inr (), s\<lparr>authChallenges := snd (c_updateMany (consumable now c w) (mark_used now) (authChallenges s))\<rparr>)) \<or>
    ((filtered (consumable now c w) (authChallenges s) = [] \<or>
      \<not> verifySignature (a_env C) (a_text C) (a_stellar C) w c signature) \<and>
      (\<exists>e s'. authenticate C now w c signature s = (Inl e, s')))"
proof -
  let ?s = "s\<lparr>authChallenges := snd (c_updateMany (consumable now c w) (mark_used now) (authChallenges s))\<rparr>"
  obtain e s' where "explain_refusal now c w ?s = (Inl e, s' :: 'c app)" by (rule refusal_throws)
  then show ?thesis
    by (auto simp: authenticate_def consume_def m_then_def m_bind_def m_return_def consume_update(1) [OF assms] refuse_def
        m_throw_def emit_def m_modify_def)
qed

lemma preserves_authenticate [preserve_intros]:
  "preserves (spent t v now') (authenticate C now w c signature)"
proof -
  have "preserves (spent t v now') (t_updateMany authChallenges authChallenges_update (consumable now c w)
      (mark_used now))"
  proof (rule preservesI)
    fix s assume s: "spent t v now' s"
    then have "wf_db s" by (simp add: spent_def)
    then show "spent t v now' (snd (t_updateMany authChallenges authChallenges_update (consumable now c w)
      (mark_used now) s))"
      using consume_update(3) [OF _ s, where now = now and c = c and w = w]
      by (simp add: consume_update(1) [where now = now and c = c and w = w])
  qed
  then show ?thesis unfolding authenticate_def consume_def by (intro preserve_intros)
qed

lemma spent_refused:
  assumes "spent c w now s" and "now \<le> now'"
  shows "\<exists>e s'. authenticate C now' w c signature s = (Inl e, s')"
proof -
  have wf: "wf_db s" using assms(1) by (simp add: spent_def)
  have "r \<notin> set (filtered (consumable now' c w) (authChallenges s))" for r
    using filtered_memD [of "authChallenges s" r "consumable now' c w"] challenges.tbl_wf [OF wf] assms
    by (fastforce simp: wf_t_def spent_def consumable_def)
  then have "filtered (consumable now' c w) (authChallenges s) = []" by (metis list.set_intros(1) neq_Nil_conv)
  then show ?thesis using authenticate_outcome [OF wf] by blast
qed

lemma authenticate_spends:
  assumes "wf_db s" and "authenticate C now w c signature s = (Inr (), s')"
  shows "verifySignature (a_env C) (a_text C) (a_stellar C) w c signature" "spent c w now s'"
    "\<exists>k r. peek k (authChallenges s) = Some r \<and> consumable now c w r"
proof -
  from assms(2) authenticate_outcome [OF assms(1), of now c w C signature]
  have ok: "filtered (consumable now c w) (authChallenges s) \<noteq> []"
    "verifySignature (a_env C) (a_text C) (a_stellar C) w c signature"
    "s' = s\<lparr>authChallenges := snd (c_updateMany (consumable now c w) (mark_used now) (authChallenges s))\<rparr>" by auto
  then show "verifySignature (a_env C) (a_text C) (a_stellar C) w c signature" "spent c w now s'"
    using consume_update(2) [OF assms(1)] by simp_all
  obtain r where "r \<in> set (filtered (consumable now c w) (authChallenges s))" using ok(1) by (metis list.set_intros(1) neq_Nil_conv)
  then show "\<exists>k r. peek k (authChallenges s) = Some r \<and> consumable now c w r"
    using filtered_memD [of "authChallenges s" r] challenges.tbl_wf [OF assms(1)] by (auto simp: wf_t_def filtered_def)
qed

lemma preserves_issue:
  assumes "w \<noteq> wallet \<or> t \<noteq> generateChallenge env random now' (Some wallet)"
  shows "preserves (spent t w now) (challengeHandler env lib random now' wallet)"
proof -
  have "preserves (spent t w now) (t_create authChallenges authChallenges_update
      (new_challenge (generateChallenge env random now' (Some wallet)) wallet now'))"
  proof (rule preservesI)
    fix s assume s: "spent t w now s"
    then have "wf_db s" by (simp add: spent_def)
    with s assms show "spent t w now (snd (t_create authChallenges authChallenges_update
      (new_challenge (generateChallenge env random now' (Some wallet)) wallet now') s))"
      by (auto simp: challenges.create_eq spent_def [of t w now "authChallenges_update _ _"] peek_c_create new_challenge_def
          challenges.create_wf split: if_splits) (auto simp: spent_def)
  qed
  then show ?thesis unfolding challengeHandler_def Let_def by (intro preserve_intros)
qed

text \<open>What can happen around a login: new challenges, and the three parts of any login, each at any time and the
  writes with whatever row was read before.\<close>

datatype auth_op =
    IssueChallenge string string  \<comment> \<open>nonce, wallet\<close>
  | Authenticate string string string  \<comment> \<open>wallet, challenge, signature\<close>
  | LoginWrites string "user_row option"
  | FinishLogin string string login

fun auth_step :: "auth_config \<Rightarrow> 'c app \<Rightarrow> int \<times> auth_op \<Rightarrow> 'c app" where
  "auth_step C s (now, IssueChallenge random wallet) = snd (challengeHandler (a_env C) (a_text C) random now wallet s)"
| "auth_step C s (now, Authenticate wallet challenge signature) = snd (authenticate C now wallet challenge signature s)"
| "auth_step C s (now, LoginWrites wallet found) = snd (login_writes (a_arith C) (a_midnight C) now wallet found s)"
| "auth_step C s (now, FinishLogin wallet challenge l) = snd (finish_login (a_jwt C) now wallet challenge l s)"

lemma auth_step_spent:
  assumes "spent t w now s" and "now \<le> fst x" and "\<And>random. x \<noteq> (fst x, IssueChallenge random w) \<or>
     generateChallenge (a_env C) random (fst x) (Some w) \<noteq> t"
  shows "spent t w now (auth_step C s x)"
proof (cases x)
  case (Pair now' op)
  show ?thesis
  proof (cases op)
    case (IssueChallenge random wallet)
    with Pair assms preservesD [OF preserves_issue [of w wallet t "a_env C" random now' now "a_text C"], of s]
    show ?thesis by auto
  qed (use Pair assms(1) in \<open>auto intro: preservesD preserves_authenticate preserves_login_writes preserves_finish\<close>)
qed

lemma auth_run_spent:
  assumes "spent t w now s" and "\<And>x. x \<in> set ops \<Longrightarrow> now \<le> fst x"
    and "\<And>n random. (n, IssueChallenge random w) \<in> set ops \<Longrightarrow> generateChallenge (a_env C) random n (Some w) \<noteq> t"
  shows "spent t w now (foldl (auth_step C) s ops)"
  using assms
proof (induction ops arbitrary: s)
  case (Cons x ops)
  have "spent t w now (auth_step C s x)"
  proof (rule auth_step_spent [OF Cons.prems(1)])
    show "now \<le> fst x" using Cons.prems(2) by simp
    show "x \<noteq> (fst x, IssueChallenge random w) \<or> generateChallenge (a_env C) random (fst x) (Some w) \<noteq> t" for random
      using Cons.prems(3) [of "fst x" random] by (cases "x = (fst x, IssueChallenge random w)") auto
  qed
  then show ?case using Cons by auto
qed simp

text \<open>C34. A challenge logs in at most once: a login that passed had an unexpired, unused challenge that was issued to the
  wallet and a valid signature of it; after it, whatever challenges are issued and whatever logins run, in
  whatever interleaving, the same challenge is refused for that wallet, unless the server draws the same nonce again.\<close>

theorem challenge_single_use:
  fixes s :: "'c app"
  assumes "wf_db s" and "authenticate C now w c signature s = (Inr (), s')"
    and "\<And>x. x \<in> set ops \<Longrightarrow> now \<le> fst x"
    and "\<And>n random. (n, IssueChallenge random w) \<in> set ops \<Longrightarrow> generateChallenge (a_env C) random n (Some w) \<noteq> c"
    and "now \<le> later"
  shows "verifySignature (a_env C) (a_text C) (a_stellar C) w c signature \<and>
    (\<exists>k r. peek k (authChallenges s) = Some r \<and> consumable now c w r) \<and>
    (\<exists>e t. connectHandler C later w c signature' (foldl (auth_step C) s' ops) = (Inl e, t))"
proof -
  note spent = authenticate_spends [OF assms(1,2)]
  from spent_refused [OF auth_run_spent [OF spent(2) assms(3,4)] assms(5)] obtain e t
    where "authenticate C later w c signature' (foldl (auth_step C) s' ops) = (Inl e, t)" by blast
  then have "connectHandler C later w c signature' (foldl (auth_step C) s' ops) = (Inl e, t)"
    by (simp add: connectHandler_def m_then_def m_bind_def)
  with spent show ?thesis by blast
qed

subsection \<open>The daily bonus\<close>

lemma writes_existing:
  fixes s :: "'c app"
  assumes wf: "wf_db s" and found: "c_findUnique (\<lambda>u. walletAddress u = w) (users s) = Some v"
  shows "\<exists>l s'. login_writes E midnight now w (Some u) s = (Inr l, s') \<and> wf_db s' \<and>
    c_findUnique (\<lambda>u. walletAddress u = w) (users s') = Some (updated_user E midnight now u v) \<and>
    lg_bonus l = login_bonus midnight now u"
proof -
  let ?v = "updated_user E midnight now u v"
  have upd: "c_update (\<lambda>u. walletAddress u = w) (updated_user E midnight now u) (users s) = Some (?v, c_set (u_id v) ?v (users s))"
    "c_findUnique (\<lambda>u. walletAddress u = w) (c_set (u_id v) ?v (users s)) = Some ?v" "peek (u_id v) (users s) = Some v"
    using find_then_update [OF users.tbl_wf [OF wf] _ _ found, where f = "updated_user E midnight now u"] by simp_all
  let ?mk = "bonus_row (u_id u) (login_bonus midnight now u) (''Daily Login Bonus (Day '' @ show_int (login_streak midnight now u) @ '')'')"
  let ?t = "s\<lparr>transactions := snd (c_create ?mk (transactions s))\<rparr>"
  have wf1: "wf_db ?t" by (rule transactions.create_wf [OF wf]) (simp add: bonus_row_def)
  have "wf_db (s\<lparr>users := c_set (u_id v) ?v (users s)\<rparr>)" "wf_db (?t\<lparr>users := c_set (u_id v) ?v (users s)\<rparr>)"
    using users.set_wf [OF wf upd(3), of ?v] users.set_wf [OF wf1, of "u_id v" v ?v] upd(3) by simp_all
  then show ?thesis
    using upd(1,2)
    by (simp add: login_writes_def m_then_def m_bind_def m_return_def transactions.create_eq t_update_def)
qed

lemma writes_new:
  fixes s :: "'c app"
  assumes wf: "wf_db s" and none: "c_findUnique (\<lambda>u. walletAddress u = w) (users s) = None"
  shows "\<exists>l s' u. login_writes E midnight now w None s = (Inr l, s') \<and> wf_db s' \<and>
    c_findUnique (\<lambda>u. walletAddress u = w) (users s') = Some u \<and> lastLoginAt u = Some now \<and> virtualBalance u = 1100 \<and>
    lg_bonus l = 100"
proof -
  let ?mk = "signup_user now w" and ?i = "generateId (users s) (idCalls (users s))"
  have found: "c_findUnique (\<lambda>u. walletAddress u = w) (snd (c_create ?mk (users s))) = Some (?mk ?i)"
    by (rule find_after_create [OF users.tbl_wf [OF wf] none]) (simp add: signup_user_def)
  have wf1: "wf_db (s\<lparr>users := snd (c_create ?mk (users s))\<rparr>)" by (rule users.create_wf [OF wf]) (simp add: signup_user_def)
  let ?b = "bonus_row (u_id (?mk ?i)) 100 ''Welcome Bonus''"
  have "wf_db (s\<lparr>users := snd (c_create ?mk (users s)), transactions := snd (c_create ?b (transactions s))\<rparr>)"
    using transactions.create_wf [OF wf1, of ?b] by (simp add: bonus_row_def)
  then show ?thesis
    using found by (simp add: login_writes_def m_then_def m_bind_def m_return_def transactions.create_eq users.create_eq
        emit_eq) (simp add: signup_user_def)
qed

text \<open>The start of the day in UTC.\<close>

definition utc_midnight :: "int \<Rightarrow> int" where
  "utc_midnight t = t - t mod DAY_MS"

lemma same_day: "t div DAY_MS = t' div DAY_MS \<Longrightarrow> diff_days utc_midnight t t' = 0"
  by (simp add: diff_days_def utc_midnight_def minus_mod_eq_div_mult)

fun login_run :: "arith \<Rightarrow> (int \<Rightarrow> int) \<Rightarrow> string \<Rightarrow> int list \<Rightarrow> 'c app \<Rightarrow> rat list \<times> 'c app" where
  "login_run E midnight w [] s = ([], s)"
| "login_run E midnight w (t # ts) s =
     (case login_user E midnight t w s of
        (Inl e, s') \<Rightarrow> ([], s')
      | (Inr l, s') \<Rightarrow> (case login_run E midnight w ts s' of (bs, s'') \<Rightarrow> (lg_bonus l # bs, s'')))"

lemma login_user_cases:
  assumes "wf_db s"
  obtains l s' u where "login_user E midnight now w s = (Inr l, s')" "wf_db s'"
    "c_findUnique (\<lambda>u. walletAddress u = w) (users s') = Some u" "lastLoginAt u = Some now"
    "case c_findUnique (\<lambda>u. walletAddress u = w) (users s) of
       None \<Rightarrow> lg_bonus l = 100 \<and> virtualBalance u = 1100
     | Some v \<Rightarrow> lg_bonus l = login_bonus midnight now v \<and> u = updated_user E midnight now v v"
proof (cases "c_findUnique (\<lambda>u. walletAddress u = w) (users s)")
  case None
  from writes_new [OF assms None, of E midnight now] None that show ?thesis
    by (fastforce simp: login_user_def t_find_def m_gets_def m_bind_def)
next
  case (Some v)
  from writes_existing [OF assms Some, of E midnight now v] Some that show ?thesis
    by (fastforce simp: login_user_def t_find_def m_gets_def m_bind_def updated_user_def)
qed

lemma later_logins:
  assumes "wf_db s" and "c_findUnique (\<lambda>u. walletAddress u = w) (users s) = Some u" and "lastLoginAt u = Some t0"
    and "\<And>t. t \<in> set ts \<Longrightarrow> t div DAY_MS = t0 div DAY_MS"
  shows "\<exists>s' u'. login_run E utc_midnight w ts s = (replicate (length ts) 0, s') \<and>
    c_findUnique (\<lambda>u. walletAddress u = w) (users s') = Some u' \<and> virtualBalance u' = virtualBalance u"
  using assms
proof (induction ts arbitrary: s u t0)
  case (Cons t ts)
  obtain l s' u' where l: "login_user E utc_midnight t w s = (Inr l, s')" "wf_db s'"
    "c_findUnique (\<lambda>u. walletAddress u = w) (users s') = Some u'" "lastLoginAt u' = Some t"
    "lg_bonus l = login_bonus utc_midnight t u" "u' = updated_user E utc_midnight t u u"
    by (rule login_user_cases [OF Cons.prems(1), of E utc_midnight t w]) (use Cons.prems(2) in auto)
  have day: "\<not> new_day utc_midnight t u"
    using Cons.prems(3,4) same_day [of t t0] by (simp add: new_day_def or_else_def)
  have "t' div DAY_MS = t div DAY_MS" if "t' \<in> set ts" for t' using that Cons.prems(4) by (metis list.set_intros)
  from Cons.IH [OF l(2,3,4) this] show ?case
    using l day by (auto simp: login_bonus_def updated_user_def)
qed simp



text \<open>Two logins of one wallet that both read the user before either wrote it are both paid: the writes are not
  conditional on the row that was read.\<close>

theorem login_race_pays_twice:
  assumes "wf_db s" and "c_findUnique (\<lambda>u. walletAddress u = w) (users s) = Some u"
    and "new_day midnight n1 u" and "new_day midnight n2 u"
  shows "\<exists>l1 s1 l2 s2 v. login_writes E midnight n1 w (Some u) s = (Inr l1, s1) \<and>
    login_writes E midnight n2 w (Some u) s1 = (Inr l2, s2) \<and> 0 < lg_bonus l1 \<and> 0 < lg_bonus l2 \<and>
    c_findUnique (\<lambda>u. walletAddress u = w) (users s2) = Some v \<and>
    virtualBalance v = increment E (increment E (virtualBalance u) (lg_bonus l1)) (lg_bonus l2)"
proof -
  obtain l1 s1 where 1: "login_writes E midnight n1 w (Some u) s = (Inr l1, s1)" "wf_db s1"
    "c_findUnique (\<lambda>u. walletAddress u = w) (users s1) = Some (updated_user E midnight n1 u u)" "lg_bonus l1 = login_bonus midnight n1 u"
    using writes_existing [OF assms(1,2)] by blast
  obtain l2 s2 where 2: "login_writes E midnight n2 w (Some u) s1 = (Inr l2, s2)"
    "c_findUnique (\<lambda>u. walletAddress u = w) (users s2) = Some (updated_user E midnight n2 u (updated_user E midnight n1 u u))"
    "lg_bonus l2 = login_bonus midnight n2 u"
    using writes_existing [OF 1(2,3)] by blast
  from 1 2 assms(3,4) show ?thesis by (auto simp: updated_user_def login_bonus_def bonus_multiplier_def)
qed

text \<open>A day of 25 hours, at the end of daylight saving time, counts as two: a user who comes back the next day
  loses the streak.\<close>

lemma long_day_breaks_streak:
  assumes "midnight now = midnight (the (lastLoginAt u)) + 25 * 60 * 60 * 1000" and "lastLoginAt u = Some t"
  shows "login_streak midnight now u = 1"
  using assms by (simp add: login_streak_def diff_days_def next_streak_def or_else_def DAY_MS_def)

subsection \<open>The guards\<close>

text \<open>C37. Who gets past the guards: a request that passes a role guard and the wallet binding carries a token that the
  server's secret verifies, the user of the token exists and has, in the database, one of the allowed roles, and the
  address the handler will act for is that user's own wallet.\<close>

theorem guarded_request:
  assumes "requireRole allowed msg J now req s = Next req'" and "bindAuthenticatedWallet req' = Next req''"
  shows "\<exists>token p u. bearer (rq_authorization req) = Some token \<and> verifyToken J now token = Some p \<and>
    jp_userId p = Some (u_id u) \<and> u \<in> set (map snd (rows (users s))) \<and> u_role u \<in> set allowed \<and>
    rq_bodyAddress req'' = Some (walletAddress u) \<and>
    rq_bodyAddress req \<in> {None, Some [], Some (walletAddress u)}"
proof -
  from assms(1) obtain token p uid u where "bearer (rq_authorization req) = Some token" "verifyToken J now token = Some p"
    "jp_userId p = Some uid" and find: "c_findUnique (\<lambda>u. u_id u = uid) (users s) = Some u" and
    "u_role u \<in> set allowed" "req' = attachUser u req"
    by (auto simp: requireRole_def loadUserFromBearerToken_def split: option.splits sum.splits if_splits)
  moreover from find have "u \<in> set (filtered (\<lambda>u. u_id u = uid) (users s))" by (auto simp: c_findUnique_def split: list.splits)
  then have "u_id u = uid" "u \<in> set (map snd (rows (users s)))" by (auto simp: filtered_def)
  ultimately show ?thesis
    using assms(2) by (auto simp: bindAuthenticatedWallet_def attachUser_def truthy_def Let_def split: if_splits)
qed

subsection \<open>Examples\<close>

definition demo_auth :: auth_config where
  "demo_auth = \<lparr>a_env = demo_env, a_text = \<lparr>other_number = \<lambda>_. NaN, date_parse = \<lambda>_. NaN\<rparr>,
     a_stellar = \<lparr>strkey_valid = \<lambda>_. Some True, keypair_verify = \<lambda>_ _ sig. Some (sig = ''ok'')\<rparr>,
     a_jwt = \<lparr>JWT_SECRET = Some ''secret'', JWT_ISSUER = None, JWT_AUDIENCE = None,
       jwt_sign = \<lambda>_ _ _ p _. jp_userId p,
       jwt_verify = \<lambda>_ _ _ t _. JwtPayload \<lparr>jp_userId = Some t, jp_walletAddress = None, jp_role = None\<rparr>\<rparr>,
     a_arith = js_arith, a_midnight = utc_midnight\<rparr>"

definition demo_challenge :: string where
  "demo_challenge = generateChallenge demo_env ''0a'' 1000 (Some ''GABC'')"

definition demo_issued :: "unit app" where
  "demo_issued = (blank_app ())\<lparr>authChallenges := table_of ac_id [new_challenge demo_challenge ''GABC'' 1000 ''c1'']\<rparr>"

lemma demo_issued_ok:
  "wf_db demo_issued" "authenticate demo_auth 2000 ''GABC'' demo_challenge ''ok'' demo_issued =
     (Inr (), demo_issued\<lparr>authChallenges := snd (c_updateMany (consumable 2000 demo_challenge ''GABC'') (mark_used 2000)
        (authChallenges demo_issued))\<rparr>)"
proof -
  show wf: "wf_db demo_issued"
    by (simp add: wf_db_def demo_issued_def blank_app_def wf_table_of new_challenge_def)
  have "filtered (consumable 2000 demo_challenge ''GABC'') (authChallenges demo_issued) \<noteq> []"
    by (simp add: demo_issued_def table_of_eval filtered_def consumable_def new_challenge_def getChallengeExpiry_def
        CHALLENGE_EXPIRY_MINUTES_def)
  moreover have "verifySignature (a_env demo_auth) (a_text demo_auth) (a_stellar demo_auth) ''GABC'' demo_challenge ''ok''"
    using demo_env_domains generated_map [of demo_env "''0a''" "''GABC''" 1000]
    by (simp add: demo_challenge_def demo_auth_def verifySignature_def isValidChallengeDomain_def isValidStellarAddress_def
        isChallengeWalletBindingValid_def parseChallenge_def generated_not_legacy parse_fields_def truthy_def Let_def)
  ultimately show "authenticate demo_auth 2000 ''GABC'' demo_challenge ''ok'' demo_issued =
     (Inr (), demo_issued\<lparr>authChallenges := snd (c_updateMany (consumable 2000 demo_challenge ''GABC'') (mark_used 2000)
        (authChallenges demo_issued))\<rparr>)"
    using authenticate_outcome [OF wf, of 2000 demo_challenge "''GABC''" demo_auth "''ok''"] by blast
qed

theorem challenge_single_use_witness:
  "\<exists>s' e t. authenticate demo_auth 2000 ''GABC'' demo_challenge ''ok'' demo_issued = (Inr (), s') \<and>
     connectHandler demo_auth 4000 ''GABC'' demo_challenge ''ok''
       (foldl (auth_step demo_auth) s' [(3000, Authenticate ''GABC'' demo_challenge ''bad''), (3500, LoginWrites ''GABC'' None)]) =
     (Inl e, t)"
proof -
  let ?ops = "[(3000, Authenticate ''GABC'' demo_challenge ''bad''), (3500, LoginWrites ''GABC'' None)]"
  have time: "2000 \<le> fst x" if "x \<in> set ?ops" for x :: "int \<times> auth_op" using that by auto
  have fresh: "generateChallenge (a_env demo_auth) random n (Some ''GABC'') \<noteq> demo_challenge"
    if "(n, IssueChallenge random ''GABC'') \<in> set ?ops" for n random using that by auto
  have "(2000 :: int) \<le> 4000" by simp
  from challenge_single_use [where ops = ?ops and signature' = "''ok''", OF demo_issued_ok time fresh this] demo_issued_ok(2)
  show ?thesis by blast
qed

theorem guarded_request_witness:
  "\<exists>token p (u :: user_row). bearer (Some ''Bearer u1'') = Some token \<and> verifyToken (a_jwt demo_auth) 0 token = Some p \<and>
     jp_userId p = Some (u_id u) \<and> u_role u = UR_USER \<and> walletAddress u = ''GABC''"
proof -
  let ?s = "(blank_app ())\<lparr>users := table_of u_id [signup_user 0 ''GABC'' ''u1'']\<rparr>"
  let ?req = "\<lparr>rq_authorization = Some ''Bearer u1'', rq_user = None, rq_walletAddress = None, rq_bodyAddress = None\<rparr>"
  let ?u = "signup_user 0 ''GABC'' ''u1''"
  have guard: "requireRole [UR_USER] [] (a_jwt demo_auth) 0 ?req ?s = Next (attachUser ?u ?req)"
    by (simp add: requireRole_def loadUserFromBearerToken_def bearer_def verifyToken_def jwt_check_def getJwtSecret_def
        demo_auth_def truthy_def table_of_eval c_findUnique_def filtered_def signup_user_def)
  have bind: "bindAuthenticatedWallet (attachUser ?u ?req) = Next ((attachUser ?u ?req)\<lparr>rq_bodyAddress := Some ''GABC''\<rparr>)"
    by (simp add: bindAuthenticatedWallet_def attachUser_def truthy_def signup_user_def Let_def)
  from guarded_request [OF guard bind] obtain token p and u :: user_row where
    "bearer (rq_authorization ?req) = Some token" "verifyToken (a_jwt demo_auth) 0 token = Some p"
    "jp_userId p = Some (u_id u)" "u_role u \<in> set [UR_USER]"
    "rq_bodyAddress ((attachUser ?u ?req)\<lparr>rq_bodyAddress := Some ''GABC''\<rparr>) = Some (walletAddress u)" by blast
  then show ?thesis by (intro exI [of _ token] exI [of _ p] exI [of _ u]) simp
qed

end
