(* ===== verification/Rounds.thy ===== *)
theory Rounds
  imports Outbox Oracle RoundLifecycle PriceRange
begin

text \<open>
  Opening and closing rounds: \<open>src/src/services/round.service.ts\<close> (class \<open>RoundService\<close>) and the jobs of
  \<open>src/src/services/round-scheduler.service.ts\<close>.

  \<open>startRound\<close> is split after the check for an active round: \<open>open_round\<close> is the rest, so that another request
  between the check and the insertion is \<open>open_round\<close> on a later state.  Bounds of price ranges are finite numbers
  (they come from JSON or from a price), so the check for finite numbers always passes.  \<open>prefers\<close> are the users'
  notification preferences, and \<open>held\<close> is what \<open>lock.assertHeld()\<close> does at that moment.
\<close>

subsection \<open>Price ranges of a LEGENDS round\<close>

definition generateDefaultLegendsRanges :: "arith \<Rightarrow> rat \<Rightarrow> UserPriceRange list" where
  "generateDefaultLegendsRanges E p =
     (let num = toNum E; w = num (p * num (5 / 100))
      in [\<lparr>urng_min = num (p - num (w * 2)), urng_max = num (p - w)\<rparr>,
          \<lparr>urng_min = num (p - w), urng_max = p\<rparr>,
          \<lparr>urng_min = p, urng_max = num (p + w)\<rparr>,
          \<lparr>urng_min = num (p + w), urng_max = num (p + num (w * 2))\<rparr>,
          \<lparr>urng_min = num (p + num (w * 2)), urng_max = num (p + num (w * 3))\<rparr>])"

fun check_ranges :: "UserPriceRange option \<Rightarrow> UserPriceRange list \<Rightarrow> js_error + unit" where
  "check_ranges prev [] = Inr ()"
| "check_ranges prev (r # rs) =
     (if urng_max r \<le> urng_min r then Inl (App (ValidationError ''Each LEGENDS price range must satisfy min < max''))
      else case prev of
        Some q \<Rightarrow> if urng_min r < urng_max q then Inl (App (ValidationError ''LEGENDS price ranges must not overlap''))
          else check_ranges (Some r) rs
      | None \<Rightarrow> check_ranges (Some r) rs)"

definition validateLegendsRanges :: "UserPriceRange list \<Rightarrow> js_error + unit" where
  "validateLegendsRanges ranges =
     (if length ranges < 2 then Inl (App (ValidationError ''LEGENDS requires at least 2 price ranges''))
      else check_ranges None (sort_key urng_min ranges))"

definition with_pool :: "UserPriceRange \<Rightarrow> RoundPriceRange" where
  "with_pool r = \<lparr>rng_min = urng_min r, rng_max = urng_max r, rng_pool = 0\<rparr>"

definition rangesToUse :: "arith \<Rightarrow> rat \<Rightarrow> UserPriceRange list \<Rightarrow> UserPriceRange list" where
  "rangesToUse E startPriceNumber custom =
     (if custom \<noteq> [] then custom else generateDefaultLegendsRanges E startPriceNumber)"

definition round_ranges :: "arith \<Rightarrow> GameMode \<Rightarrow> rat \<Rightarrow> UserPriceRange list \<Rightarrow> js_error + json" where
  "round_ranges E mode startPriceNumber custom =
     (case mode of
        UP_DOWN \<Rightarrow> Inr JNull
      | LEGENDS \<Rightarrow>
          (let ranges = rangesToUse E startPriceNumber custom
           in case validateLegendsRanges ranges of
             Inl e \<Rightarrow> Inl e | Inr _ \<Rightarrow> Inr (serializeRoundPriceRanges (map with_pool ranges))))"

subsection \<open>Notifications\<close>

type_synonym preferences = "string \<Rightarrow> NotificationType \<Rightarrow> bool"

definition createNotification ::
  "dispatch_env \<Rightarrow> preferences \<Rightarrow> int \<Rightarrow> string \<Rightarrow> NotificationType \<Rightarrow> string \<Rightarrow> outbox_payload \<Rightarrow> ('c app, js_error, bool) comp" where
  "createNotification env prefers now uid ty tyName input =
     (if \<not> prefers uid ty then m_return False
      else case note_insert env (StoredPayload input) of
        None \<Rightarrow> m_then (emit (NotificationCreated uid)) (m_return True)
      | Some e \<Rightarrow>
          m_then (dlq_record env now DC_NOTIFICATION_CREATE (Some tyName) (Some uid) (StoredPayload input) e) (m_throw e))"

definition mode_text :: "GameMode \<Rightarrow> string" where
  "mode_text mode = (case mode of UP_DOWN \<Rightarrow> ''Up/Down'' | LEGENDS \<Rightarrow> ''Legends'')"

text \<open>The price in the text of the message is left out.\<close>

definition round_start_note :: "GameMode \<Rightarrow> string \<Rightarrow> rat \<Rightarrow> string \<Rightarrow> outbox_payload" where
  "round_start_note mode rid startPriceNumber uid =
     NotificationPayload uid NT_ROUND_START ''New Round Started!''
       (PlainText (''A new '' @ mode_text mode @ '' round has started! Place your prediction now.'')) rid (Some startPriceNumber)"

definition announce_round ::
  "dispatch_env \<Rightarrow> preferences \<Rightarrow> int \<Rightarrow> GameMode \<Rightarrow> string \<Rightarrow> rat \<Rightarrow> ('c app, js_error, unit) comp" where
  "announce_round env prefers now mode rid startPriceNumber =
     m_catch
       (m_bind (m_gets (\<lambda>s. c_findMany (\<lambda>_. True) None 0 None (users s))) (\<lambda>us.
         m_forEach us (\<lambda>u.
           m_bind (createNotification env prefers now (u_id u) NT_ROUND_START ''ROUND_START''
               (round_start_note mode rid startPriceNumber (u_id u))) (\<lambda>notif.
             if notif then safeEmit env now (''user:'' @ u_id u) ''notification:new''
                 (round_start_note mode rid startPriceNumber (u_id u))
             else m_return ()))))
       (\<lambda>_. m_return ())"

subsection \<open>Starting a round\<close>

definition active_round :: "GameMode \<Rightarrow> round_row \<Rightarrow> bool" where
  "active_round mode r \<longleftrightarrow> r_mode r = mode \<and> r_status r = RS_ACTIVE"

definition new_round ::
  "arith \<Rightarrow> GameMode \<Rightarrow> rat \<Rightarrow> int \<Rightarrow> int \<Rightarrow> bool \<Rightarrow> json \<Rightarrow> string \<Rightarrow> round_row" where
  "new_round E mode startPriceDecimal now durationMinutes ready ranges i =
     \<lparr>r_id = i, r_mode = mode, r_status = RS_ACTIVE, startPrice = col E startPriceDecimal, endPrice = None, startTime = now,
      endTime = now + durationMinutes * 60 * 1000, sorobanRoundId = None, isSoroban = (mode = UP_DOWN \<and> ready),
      poolUp = 0, poolDown = 0, priceRanges = ranges, r_resolvedAt = None\<rparr>"

record round_request =
  rq_mode :: GameMode
  rq_startPrice :: rat
  rq_durationMinutes :: int
  rq_customPriceRanges :: "UserPriceRange list"

definition open_round ::
  "dispatch_env \<Rightarrow> preferences \<Rightarrow> arith \<Rightarrow> 'c xelma_client \<Rightarrow> int \<Rightarrow> round_request \<Rightarrow> ('c app, js_error, round_row) comp" where
  "open_round env prefers E cl now q =
     (let startPriceDecimal = toDecimal (rq_startPrice q);
          startPriceNumber = toNumber E (Some startPriceDecimal)
      in m_then
        (if rq_mode q = UP_DOWN
         then m_catch (on_soroban (Soroban.createRound E cl now startPriceDecimal 0)) (\<lambda>e. on_soroban (applyMoneyPathFailure e))
         else m_return ())
        (m_bind (lift_sum (round_ranges E (rq_mode q) startPriceNumber (rq_customPriceRanges q))) (\<lambda>ranges.
         m_bind (m_gets (\<lambda>s. isReady (soroban s))) (\<lambda>ready.
         m_bind (t_create rounds rounds_update
             (new_round E (rq_mode q) startPriceDecimal now (rq_durationMinutes q) ready ranges)) (\<lambda>r.
         m_then (emit (Metric ''rounds_started_total''))
           (m_then (emit (WsEmit ''round:started'' ''round''))
             (m_then (emit (EmitRoundUpdate (r_id r)))
               (m_then (announce_round env prefers now (rq_mode q) (r_id r) startPriceNumber)
                 (m_return r)))))))))"

definition mode_id :: "GameMode \<Rightarrow> string" where
  "mode_id mode = (case mode of UP_DOWN \<Rightarrow> ''UP_DOWN'' | LEGENDS \<Rightarrow> ''LEGENDS'')"

definition find_active :: "GameMode \<Rightarrow> 'z db_scheme \<Rightarrow> round_row option" where
  "find_active mode s = c_findFirst (active_round mode) None (rounds s)"

definition startRound ::
  "dispatch_env \<Rightarrow> preferences \<Rightarrow> arith \<Rightarrow> 'c xelma_client \<Rightarrow> int \<Rightarrow> round_request \<Rightarrow> ('c app, js_error, round_row) comp" where
  "startRound env prefers E cl now q =
     m_bind (m_gets (find_active (rq_mode q))) (\<lambda>existing.
       case existing of
         Some r \<Rightarrow> m_throw (App (ConflictError
           (''An active '' @ mode_id (rq_mode q) @ '' round already exists (ID: '' @ r_id r @ '')'') ACTIVE_ROUND_EXISTS))
       | None \<Rightarrow> open_round env prefers E cl now q)"

subsection \<open>Closing rounds\<close>

definition expired_round :: "int \<Rightarrow> round_row \<Rightarrow> bool" where
  "expired_round now r \<longleftrightarrow> r_status r = RS_ACTIVE \<and> endTime r \<le> now"

text \<open>A lock that throws ends the loop; nothing is reported to the caller.\<close>

definition autoLockExpiredRounds :: "arith \<Rightarrow> int \<Rightarrow> ('c app, js_error, unit) comp" where
  "autoLockExpiredRounds E now =
     m_catch
       (m_bind (m_gets (\<lambda>s. c_findMany (expired_round now) None 0 None (rounds s))) (\<lambda>expired.
         m_forEach expired (\<lambda>r. m_then (lockRound E (r_id r)) (m_return ()))))
       (\<lambda>_. m_return ())"

definition getActiveRounds :: "'z db_scheme \<Rightarrow> round_row list" where
  "getActiveRounds s = c_findMany (\<lambda>r. r_status r = RS_ACTIVE) (Some (startTime, True)) 0 None (rounds s)"

subsection \<open>The scheduled jobs\<close>

datatype job_outcome = Job_skipped | Job_no_op | Job_success | Job_aborted | Job_failure

definition job_done :: "job_outcome \<Rightarrow> ('c app, js_error, job_outcome) comp" where
  "job_done out = m_then (emit (Metric ''scheduler_runs_total'')) (m_return out)"

definition getMode :: "string option \<Rightarrow> GameMode" where
  "getMode ROUND_SCHEDULER_MODE = (if ROUND_SCHEDULER_MODE = Some ''LEGENDS'' then LEGENDS else UP_DOWN)"

definition is_active_round_exists :: "js_error \<Rightarrow> bool" where
  "is_active_round_exists e = (case e of App a \<Rightarrow> errCode a = ACTIVE_ROUND_EXISTS | _ \<Rightarrow> False)"

definition job_failed :: "js_error \<Rightarrow> job_outcome" where
  "job_failed e = (case e of LockLost _ \<Rightarrow> Job_aborted | _ \<Rightarrow> if is_active_round_exists e then Job_no_op else Job_failure)"

definition createRoundInternal ::
  "dispatch_env \<Rightarrow> preferences \<Rightarrow> arith \<Rightarrow> 'c xelma_client \<Rightarrow> int \<Rightarrow> string option \<Rightarrow> 'n price_oracle \<Rightarrow> js_error + unit \<Rightarrow>
   ('c app, js_error, job_outcome) comp" where
  "createRoundInternal env prefers E cl now modeVar oracle held =
     m_catch
       (case orc_price oracle of
          None \<Rightarrow> job_done Job_skipped
        | Some price \<Rightarrow>
            if price \<le> 0 then job_done Job_skipped
            else if isStale now oracle then job_done Job_skipped
            else m_bind (m_gets (find_active (getMode modeVar))) (\<lambda>existing.
              if existing \<noteq> None then job_done Job_no_op
              else m_then (lift_sum held)
                (m_then (startRound env prefers E cl now \<lparr>rq_mode = getMode modeVar, rq_startPrice = toNumber E (Some price),
                     rq_durationMinutes = 1, rq_customPriceRanges = []\<rparr>)
                  (job_done Job_success))))
       (\<lambda>e. job_done (job_failed e))"

definition closeEligibleRoundsInternal ::
  "arith \<Rightarrow> int \<Rightarrow> js_error + unit \<Rightarrow> ('c app, js_error, job_outcome) comp" where
  "closeEligibleRoundsInternal E now held =
     m_catch
       (m_bind (m_gets (\<lambda>s. c_count (expired_round now) (rounds s))) (\<lambda>n.
         if n = 0 then job_done Job_no_op
         else m_then (lift_sum held) (m_then (autoLockExpiredRounds E now) (job_done Job_success))))
       (\<lambda>e. job_done (case e of LockLost _ \<Rightarrow> Job_aborted | _ \<Rightarrow> Job_failure))"

subsection \<open>What an opened round changes\<close>

text \<open>A computation that leaves the rounds alone.\<close>

definition rounds_are :: "round_row collection \<Rightarrow> 'c app \<Rightarrow> bool" where
  "rounds_are R s \<longleftrightarrow> wf_db s \<and> rounds s = R"

lemma keeps_rounds [preserve_intros]:
  "preserves (rounds_are R) (emit e)"
  "preserves (rounds_are R) (on_soroban m)"
  "preserves (rounds_are R) (dlq_record env now ch ev u p err)"
  "preserves (rounds_are R) (safeEmit env now room event payload)"
proof -
  have emit: "preserves (rounds_are R) (emit e)" for e by (simp add: preserves_def rounds_are_def emit_eq)
  then show "preserves (rounds_are R) (emit e)" .
  show "preserves (rounds_are R) (on_soroban m)"
    unfolding on_soroban_def by (rule preserves_zoom) (simp add: rounds_are_def)
  have dlq: "preserves (rounds_are R) (dlq_record env now ch ev u p err)" for ch ev u p err
  proof (rule preservesI)
    fix s assume s: "rounds_are R s"
    then have "wf_db s" by (simp add: rounds_are_def)
    then obtain s' where "dlq_record env now ch ev u p err s = (Inr (), s')" "wf_db s'" "core s' = core s"
      by (rule dlq_record_eq)
    with s show "rounds_are R (snd (dlq_record env now ch ev u p err s))" by (simp add: rounds_are_def core_def)
  qed
  then show "preserves (rounds_are R) (dlq_record env now ch ev u p err)" .
  show "preserves (rounds_are R) (safeEmit env now room event payload)"
    unfolding safeEmit_def io_emit_def by (intro preserve_intros emit dlq)
qed

lemma announce_keeps_rounds [preserve_intros]:
  "preserves (rounds_are R) (announce_round env prefers now mode rid p)"
  unfolding announce_round_def createNotification_def by (intro preserve_intros)

lemma open_round_cases:
  fixes s :: "'c app"
  assumes "wf_db s"
  obtains e s' where "open_round env prefers E cl now q s = (Inl e, s')" "rounds_are (rounds s) s'"
  | ranges ready s' where "round_ranges E (rq_mode q) (toNumber E (Some (toDecimal (rq_startPrice q)))) (rq_customPriceRanges q) = Inr ranges"
      "open_round env prefers E cl now q s =
         (Inr (new_round E (rq_mode q) (toDecimal (rq_startPrice q)) now (rq_durationMinutes q) ready ranges
            (generateId (rounds s) (idCalls (rounds s)))), s')"
      "rounds_are (snd (c_create (new_round E (rq_mode q) (toDecimal (rq_startPrice q)) now (rq_durationMinutes q) ready ranges)
         (rounds s))) s'"
proof -
  let ?p = "toDecimal (rq_startPrice q)"
  let ?chain = "if rq_mode q = UP_DOWN
     then m_catch (on_soroban (Soroban.createRound E cl now ?p 0)) (\<lambda>e. on_soroban (applyMoneyPathFailure e)) else m_return ()"
  have chain: "preserves (rounds_are (rounds s)) ?chain" by (intro preserve_intros)
  obtain x s1 where x: "?chain s = (x, s1)" by fastforce
  with preservesD [OF chain, of s] assms have s1: "rounds_are (rounds s) s1" by (simp add: rounds_are_def)
  show thesis
  proof (cases x)
    case (Inl e)
    with x have "open_round env prefers E cl now q s = (Inl e, s1)" by (simp add: open_round_def Let_def m_then_def m_bind_def)
    with s1 that(1) show ?thesis by blast
  next
    case (Inr u)
    show ?thesis
    proof (cases "round_ranges E (rq_mode q) (toNumber E (Some ?p)) (rq_customPriceRanges q)")
      case (Inl e)
      with x Inr have "open_round env prefers E cl now q s = (Inl e, s1)"
        by (simp add: open_round_def Let_def m_then_def m_bind_def lift_sum_def m_throw_def)
      with s1 that(1) show ?thesis by blast
    next
      case (Inr ranges)
      let ?mk = "new_round E (rq_mode q) ?p now (rq_durationMinutes q) (isReady (soroban s1)) ranges"
      let ?r = "?mk (generateId (rounds s) (idCalls (rounds s)))"
      let ?s = "s1\<lparr>rounds := snd (c_create ?mk (rounds s)),
        effects := effects s1 @ [Metric ''rounds_started_total'', WsEmit ''round:started'' ''round'', EmitRoundUpdate (r_id ?r)]\<rparr>"
      let ?rest = "announce_round env prefers now (rq_mode q) (r_id ?r) (toNumber E (Some ?p))"
      obtain y s2 where y: "?rest ?s = (y, s2)" by fastforce
      have "wf_db (s1\<lparr>rounds := snd (c_create ?mk (rounds s1))\<rparr>)"
        by (rule rounds.create_wf) (use s1 in \<open>auto simp: rounds_are_def new_round_def\<close>)
      then have "rounds_are (snd (c_create ?mk (rounds s))) ?s" using s1 by (simp add: rounds_are_def)
      then have "rounds_are (snd (c_create ?mk (rounds s))) (snd (?rest ?s))" by (rule preservesD [OF announce_keeps_rounds])
      then have s2: "rounds_are (snd (c_create ?mk (rounds s))) s2" using y by simp
      have "y = Inr ()" using y by (auto simp: announce_round_def m_catch_def m_return_def split: prod.splits sum.splits)
      with x y \<open>x = Inr u\<close> Inr s1 have "open_round env prefers E cl now q s = (Inr ?r, s2)"
        by (simp add: open_round_def Let_def m_then_def m_bind_def lift_sum_def m_return_def m_gets_def rounds.create_eq
            rounds_are_def emit_eq)
      with that(2) [OF Inr this s2] show ?thesis by blast
    qed
  qed
qed

subsection \<open>At most one open round per mode\<close>

definition open_ok :: "'c app \<Rightarrow> bool" where
  "open_ok s \<longleftrightarrow> wf_db s \<and> (\<forall>k r. peek k (rounds s) = Some r \<longrightarrow> r_status r \<noteq> RS_PENDING) \<and>
     (\<forall>mode k k' r r'. peek k (rounds s) = Some r \<longrightarrow> peek k' (rounds s) = Some r' \<longrightarrow>
        active_round mode r \<longrightarrow> active_round mode r' \<longrightarrow> k = k')"

lemma open_ok_frame [simp]: "open_ok (effects_update f s) = open_ok s"
  by (simp add: open_ok_def)

lemma moved_not_active: "isLegalRoundTransition a to \<Longrightarrow> a \<noteq> RS_PENDING \<Longrightarrow> to \<noteq> RS_ACTIVE \<and> to \<noteq> RS_PENDING"
  by (cases to) (auto simp: isLegalRoundTransition_def)

lemma commit_open_ok [preserve_intros]: "preserves open_ok (transitionRound_commit E k to d em ex)"
proof (rule preservesI)
  fix s assume s: "open_ok s"
  then have wf: "wf_db s" by (simp add: open_ok_def)
  have "open_ok (s\<lparr>rounds := c_set k (moved E to d r) (rounds s)\<rparr>)"
    if r: "peek k (rounds s) = Some r" "isLegalRoundTransition (r_status r) to" for r
  proof -
    have "to \<noteq> RS_ACTIVE" "to \<noteq> RS_PENDING" using s r moved_not_active by (auto simp: open_ok_def)
    moreover have "wf_db (s\<lparr>rounds := c_set k (moved E to d r) (rounds s)\<rparr>)"
      using rounds.set_wf [OF wf r(1)] rounds.peek_id [OF wf r(1)] by simp
    ultimately show ?thesis using s by (auto simp: open_ok_def active_round_def)
  qed
  with s show "open_ok (snd (transitionRound_commit E k to d em ex s))"
    by (auto simp: commit_eq [OF wf] split: option.split)
qed

lemma machine_open_ok [preserve_intros]:
  "preserves open_ok (emit e)" "preserves open_ok (transitionRound E k to d em)" "preserves open_ok (lockRound E k)"
proof -
  have emit: "preserves open_ok (emit e)" for e by (simp add: preserves_def emit_eq)
  then show "preserves open_ok (emit e)" .
  have tr: "preserves open_ok (transitionRound E k to d em)" for to d em
    unfolding transitionRound_def transition_failure_def by (intro preserve_intros emit)
  then show "preserves open_ok (transitionRound E k to d em)" .
  show "preserves open_ok (lockRound E k)" unfolding lockRound_def by (intro preserve_intros tr)
qed

lemma locking_open_ok [preserve_intros]:
  "preserves open_ok (autoLockExpiredRounds E now)" "preserves open_ok (closeEligibleRoundsInternal E now held)"
proof -
  show lock: "preserves open_ok (autoLockExpiredRounds E now)"
    unfolding autoLockExpiredRounds_def by (intro preserve_intros)
  show "preserves open_ok (closeEligibleRoundsInternal E now held)"
    unfolding closeEligibleRoundsInternal_def job_done_def by (intro preserve_intros lock)
qed

lemma find_active_None:
  assumes "wf_db s" and "find_active mode s = None" and "peek k (rounds s) = Some r"
  shows "\<not> active_round mode r"
proof
  assume "active_round mode r"
  with assms(3) have "r \<in> set (filtered (active_round mode) (rounds s))" by (rule filtered_memI)
  with assms(2) show False by (auto simp: find_active_def c_findFirst_def split: list.splits)
qed

lemma startRound_open_ok [preserve_intros]:
  fixes cl :: "'c xelma_client"
  shows "preserves open_ok (startRound env prefers E cl now q)"
proof (rule preservesI)
  fix s :: "'c app" assume s: "open_ok s"
  then have wf: "wf_db s" by (simp add: open_ok_def)
  show "open_ok (snd (startRound env prefers E cl now q s))"
  proof (cases "find_active (rq_mode q) s")
    case (Some r)
    with s show ?thesis by (simp add: startRound_def m_bind_def m_gets_def m_throw_def)
  next
    case None
    then have eq: "startRound env prefers E cl now q s = open_round env prefers E cl now q s"
      by (simp add: startRound_def m_bind_def m_gets_def)
    from wf show ?thesis
    proof (cases rule: open_round_cases [where env = env and prefers = prefers and E = E and cl = cl and now = now and q = q])
      case (1 e s')
      with s eq show ?thesis by (simp add: rounds_are_def open_ok_def)
    next
      case (2 ranges ready s')
      with s eq find_active_None [OF wf None] show ?thesis
        by (auto simp: rounds_are_def open_ok_def peek_c_create new_round_def active_round_def split: if_splits)
    qed
  qed
qed

lemma createJob_open_ok [preserve_intros]:
  "preserves open_ok (createRoundInternal env prefers E cl now modeVar oracle held)"
  unfolding createRoundInternal_def job_done_def by (intro preserve_intros)

datatype 'n open_op =
    Start round_request
  | CreateJob "string option" "'n price_oracle" "js_error + unit"
  | AutoLock
  | CloseJob "js_error + unit"
  | Machine round_op

fun open_step ::
  "dispatch_env \<Rightarrow> preferences \<Rightarrow> arith \<Rightarrow> 'c xelma_client \<Rightarrow> 'c app \<Rightarrow> int \<times> 'n open_op \<Rightarrow> 'c app" where
  "open_step env prefers E cl s (now, Start q) = snd (startRound env prefers E cl now q s)"
| "open_step env prefers E cl s (now, CreateJob m po held) = snd (createRoundInternal env prefers E cl now m po held s)"
| "open_step env prefers E cl s (now, AutoLock) = snd (autoLockExpiredRounds E now s)"
| "open_step env prefers E cl s (now, CloseJob held) = snd (closeEligibleRoundsInternal E now held s)"
| "open_step env prefers E cl s (now, Machine x) = round_step E s x"

lemma open_step_ok:
  assumes "open_ok s"
  shows "open_ok (open_step env prefers E cl s x)"
proof (cases x)
  case (Pair now op)
  show ?thesis
  proof (cases op)
    case (Machine y)
    with Pair assms show ?thesis by (cases y) (simp_all add: preservesD commit_open_ok machine_open_ok)
  qed (use Pair assms in \<open>simp_all add: preservesD startRound_open_ok createJob_open_ok locking_open_ok\<close>)
qed

text \<open>C35. At most one open round per mode: whatever round starts, scheduled jobs, locks, transitions and late writes of
  stale readers run one after the other, with whatever prices and whatever the chain, the notifications and the lock do,
  no mode ever has two ACTIVE rounds and no round is left PENDING.\<close>

theorem one_open_round:
  fixes cl :: "'c xelma_client" and ops :: "(int \<times> 'n open_op) list" and env :: dispatch_env and prefers :: preferences
    and E :: arith and s :: "'c app"
  assumes "open_ok s"
  defines "s' \<equiv> foldl (open_step env prefers E cl) s ops"
  shows "(\<forall>mode k k' r r'. peek k (rounds s') = Some r \<longrightarrow> peek k' (rounds s') = Some r' \<longrightarrow>
      active_round mode r \<longrightarrow> active_round mode r' \<longrightarrow> k = k') \<and>
    (\<forall>k. round_status s' k \<noteq> Some RS_PENDING)"
proof -
  have "open_ok (foldl (open_step env prefers E cl) t ops)" if "open_ok t" for t
    using that by (induction ops arbitrary: t) (simp_all add: open_step_ok)
  from this [OF assms(1)] show ?thesis
    unfolding s'_def [symmetric] by (auto simp: open_ok_def round_status_def)
qed

lemma demo_rounds_open: "open_ok (demo_rounds RS_ACTIVE)"
  using demo_rounds_wf [of RS_ACTIVE]
  by (auto simp: open_ok_def demo_rounds_def table_of_eval demo_round_def split: if_splits)

definition quiet_env :: dispatch_env where
  "quiet_env = \<lparr>io = None, note_insert = \<lambda>_. None, stack_of = message_of\<rparr>"

theorem one_open_round_witness:
  "round_status (foldl (open_step quiet_env (\<lambda>_ _. True) js_arith lossy_client) (demo_rounds RS_ACTIVE)
     [(0, Start \<lparr>rq_mode = UP_DOWN, rq_startPrice = 1, rq_durationMinutes = 1, rq_customPriceRanges = []\<rparr>), (60000, AutoLock),
      (60000, CreateJob None demo_oracle (Inr ()))]) ''r1'' \<noteq> Some RS_PENDING"
  using one_open_round [OF demo_rounds_open] by blast

text \<open>Two requests that both look for an active round before either inserts one both open a round: nothing but the
  earlier read protects the insertion.\<close>

theorem start_race_opens_two:
  fixes s :: "'c app"
  assumes "wf_db s" and "find_active (rq_mode q) s = None"
    and "open_round env prefers E cl now q s = (Inr r1, s1)" and "open_round env prefers E cl now q s1 = (Inr r2, s2)"
  shows "r_id r1 \<noteq> r_id r2 \<and> peek (r_id r1) (rounds s2) = Some r1 \<and> peek (r_id r2) (rounds s2) = Some r2 \<and>
    active_round (rq_mode q) r1 \<and> active_round (rq_mode q) r2"
proof -
  have step: "\<exists>i. i = generateId (rounds t) (idCalls (rounds t)) \<and> r_id r = i \<and> active_round (rq_mode q) r \<and> wf_db t' \<and>
      (\<forall>k. peek k (rounds t') = (if k = i then Some r else peek k (rounds t))) \<and> peek i (rounds t) = None"
    if "wf_db t" "open_round env prefers E cl now q t = (Inr r, t')" for t t' :: "'c app" and r
    using that(1)
  proof (cases rule: open_round_cases [where env = env and prefers = prefers and E = E and cl = cl and now = now and q = q])
    case (2 ranges ready s')
    with that wf_t_fresh [OF rounds.tbl_wf [OF that(1)]] show ?thesis
      by (auto simp: rounds_are_def peek_c_create new_round_def active_round_def)
  qed (use that in simp)
  from step [OF assms(1,3)] obtain i where 1: "r_id r1 = i" "active_round (rq_mode q) r1" "wf_db s1"
    "\<forall>k. peek k (rounds s1) = (if k = i then Some r1 else peek k (rounds s))" by blast
  from step [OF 1(3) assms(4)] obtain j where "r_id r2 = j" "active_round (rq_mode q) r2"
    "\<forall>k. peek k (rounds s2) = (if k = j then Some r2 else peek k (rounds s1))" "peek j (rounds s1) = None" by blast
  with 1 show ?thesis by (auto split: if_splits)
qed

subsection \<open>Locking the expired rounds\<close>

lemma lock_active:
  assumes "wf_db s" and "peek k (rounds s) = Some r" and "r_status r = RS_ACTIVE"
  shows "\<exists>fx. lockRound E k s = (Inr UPDATED, s\<lparr>rounds := c_set k (moved E RS_LOCKED None r) (rounds s), effects := fx\<rparr>)"
  using assms
  by (auto simp: lockRound_def m_bind_def m_then_def rounds.find_id m_return_def transitionRound_eq isLegalRoundTransition_def)

lemma lock_all:
  fixes s :: "'c app"
  assumes "wf_db s" and "distinct (map r_id rs)"
    and "\<And>r. r \<in> set rs \<Longrightarrow> peek (r_id r) (rounds s) = Some r \<and> r_status r = RS_ACTIVE"
  shows "\<exists>s'. m_forEach rs (\<lambda>r. m_then (lockRound E (r_id r)) (m_return ())) s = (Inr (), s') \<and> wf_db s' \<and>
    (\<forall>k. peek k (rounds s') = (case peek k (rounds s) of None \<Rightarrow> None | Some r \<Rightarrow>
       Some (if k \<in> set (map r_id rs) then moved E RS_LOCKED None r else r)))"
  using assms
proof (induction rs arbitrary: s)
  case Nil
  then show ?case by (auto simp: m_return_def split: option.split)
next
  case (Cons r rs)
  have r: "peek (r_id r) (rounds s) = Some r" "r_status r = RS_ACTIVE" using Cons.prems(3) by auto
  obtain fx where lock: "lockRound E (r_id r) s =
      (Inr UPDATED, s\<lparr>rounds := c_set (r_id r) (moved E RS_LOCKED None r) (rounds s), effects := fx\<rparr>)"
    using lock_active [OF Cons.prems(1) r] by blast
  let ?s = "s\<lparr>rounds := c_set (r_id r) (moved E RS_LOCKED None r) (rounds s), effects := fx\<rparr>"
  have wf: "wf_db ?s" using rounds.set_wf [OF Cons.prems(1) r(1)] by simp
  have "peek (r_id x) (rounds ?s) = Some x \<and> r_status x = RS_ACTIVE" if "x \<in> set rs" for x
    using that Cons.prems(2,3) by (auto simp: image_iff)
  from Cons.IH [OF wf _ this] Cons.prems(2) obtain s' where
    s': "m_forEach rs (\<lambda>r. m_then (lockRound E (r_id r)) (m_return ())) ?s = (Inr (), s')" "wf_db s'"
    "\<And>k. peek k (rounds s') = (case peek k (rounds ?s) of None \<Rightarrow> None | Some r \<Rightarrow>
       Some (if k \<in> set (map r_id rs) then moved E RS_LOCKED None r else r))" by auto
  have "m_forEach (r # rs) (\<lambda>r. m_then (lockRound E (r_id r)) (m_return ())) s = (Inr (), s')"
    using lock s'(1) by (simp add: m_bind_def m_then_def m_return_def)
  moreover have "peek k (rounds s') = (case peek k (rounds s) of None \<Rightarrow> None | Some x \<Rightarrow>
       Some (if k \<in> set (map r_id (r # rs)) then moved E RS_LOCKED None x else x))" for k
    using s'(3) [of k] r(1) Cons.prems(2) by (cases "k = r_id r") (auto split: option.splits)
  ultimately show ?case using s'(2) by blast
qed

text \<open>C40. Locking expired rounds: the pass always completes, locks exactly the ACTIVE rounds whose end time has come,
  and leaves every other round as it was.\<close>

theorem autoLock_complete:
  fixes s :: "'c app"
  assumes "wf_db s"
  shows "\<exists>s'. autoLockExpiredRounds E now s = (Inr (), s') \<and>
    (\<forall>k. peek k (rounds s') = map_option (\<lambda>r. if expired_round now r then moved E RS_LOCKED None r else r) (peek k (rounds s)))"
proof -
  let ?rs = "filtered (expired_round now) (rounds s)"
  have id: "wf_collection (rounds s)" "idField (rounds s) = r_id" using rounds.tbl_wf [OF assms] by (auto simp: wf_t_def)
  have mem: "peek (r_id r) (rounds s) = Some r \<and> r_status r = RS_ACTIVE" if "r \<in> set ?rs" for r
    using filtered_memD [OF id(1) that] that id(2) by (auto simp: filtered_def expired_round_def)
  have in_rs: "k \<in> set (map r_id ?rs) \<longleftrightarrow> expired_round now r" if "peek k (rounds s) = Some r" for k r
    using filtered_memI [OF that, of "expired_round now"] mem rounds.peek_id [OF assms that] that
    by (force simp: filtered_def)
  from lock_all [OF assms filtered_distinct [OF rounds.tbl_wf [OF assms]] mem, of "expired_round now" E]
  obtain s' where "m_forEach ?rs (\<lambda>r. m_then (lockRound E (r_id r)) (m_return ())) s = (Inr (), s')"
    "\<forall>k. peek k (rounds s') = (case peek k (rounds s) of None \<Rightarrow> None | Some r \<Rightarrow>
       Some (if k \<in> set (map r_id ?rs) then moved E RS_LOCKED None r else r))" by blast
  with in_rs show ?thesis
    by (auto simp: autoLockExpiredRounds_def m_catch_def m_bind_def m_gets_def c_findMany_def split: option.split)
qed

theorem autoLock_complete_witness:
  "\<exists>s'. autoLockExpiredRounds js_arith 60000 (demo_rounds RS_ACTIVE) = (Inr (), s') \<and> round_status s' ''r1'' = Some RS_LOCKED"
proof -
  have "expired_round 60000 (demo_round RS_ACTIVE)" by (simp add: expired_round_def demo_round_def)
  with autoLock_complete [OF demo_rounds_wf [of RS_ACTIVE], of js_arith 60000] show ?thesis
    by (auto simp: round_status_def)
qed

subsection \<open>The ranges of a LEGENDS round\<close>

fun apart :: "RoundPriceRange list \<Rightarrow> bool" where
  "apart [] = True"
| "apart [r] = (rng_min r < rng_max r)"
| "apart (r # r' # rs) = (rng_min r < rng_max r \<and> rng_max r \<le> rng_min r' \<and> apart (r' # rs))"

lemma apart_bounds:
  "apart (r # rs) \<Longrightarrow> rng_min r < rng_max r \<and> (\<forall>x \<in> set rs. rng_max r \<le> rng_min x \<and> rng_min x < rng_max x)"
  by (induction rs arbitrary: r) fastforce+

lemma find_winning_apart:
  "apart rs \<Longrightarrow> r \<in> set rs \<Longrightarrow> rng_min r \<le> q \<Longrightarrow> q < rng_max r \<Longrightarrow> find_winning q rs = Some r"
proof (induction rs rule: apart.induct)
  case (3 x x' rs)
  show ?case
  proof (cases "r = x")
    case False
    then have r: "r \<in> set (x' # rs)" using 3(3) by simp
    then have "rng_max x \<le> rng_min r" using apart_bounds [OF 3(2)] by blast
    then have "\<not> q < rng_max x" using 3(4) by linarith
    then show ?thesis using 3(1) [OF _ r 3(4,5)] 3(2) by simp
  qed (use 3 in simp)
qed auto

lemma check_apart:
  "check_ranges prev rs = Inr () \<longleftrightarrow> apart (map with_pool rs) \<and>
     (case (prev, rs) of (Some q, r # _) \<Rightarrow> urng_max q \<le> urng_min r | _ \<Rightarrow> True)"
proof (induction prev rs rule: check_ranges.induct)
  case (2 prev r rs)
  then show ?case by (cases rs; cases prev) (auto simp: with_pool_def not_less not_le)
qed (simp split: option.split)

lemma sorted_with_pool: "sortedRanges (map with_pool rs) = map with_pool (sort_key urng_min rs)"
proof -
  have min: "rng_min (with_pool x) = urng_min x" for x by (simp add: with_pool_def)
  have "insort_key rng_min (with_pool x) (map with_pool xs) = map with_pool (insort_key urng_min x xs)" for x xs
    by (induction xs) (simp_all add: min)
  then show ?thesis unfolding sortedRanges_def by (induction rs) simp_all
qed

lemma validated_ranges:
  assumes "validateLegendsRanges ranges = Inr ()"
  defines "rs \<equiv> map with_pool ranges"
  shows "2 \<le> length rs" "\<forall>r \<in> set rs. rng_pool r = 0 \<and> rng_min r < rng_max r"
    "\<forall>r \<in> set rs. rng_min r \<le> q \<and> q < rng_max r \<longrightarrow> winningRange q rs = Some r"
    "parseRoundPriceRanges (serializeRoundPriceRanges rs) = Inr rs"
proof -
  have ap: "apart (sortedRanges rs)" and len: "2 \<le> length rs"
    using assms by (auto simp: validateLegendsRanges_def check_apart sorted_with_pool split: if_splits)
  then show "2 \<le> length rs" by simp
  have set: "set (sortedRanges rs) = set rs" by (simp add: sortedRanges_def)
  have "apart xs \<Longrightarrow> \<forall>r \<in> set xs. rng_min r < rng_max r" for xs by (cases xs) (auto dest: apart_bounds)
  with ap set show all: "\<forall>r \<in> set rs. rng_pool r = 0 \<and> rng_min r < rng_max r"
    by (auto simp: rs_def with_pool_def)
  show "\<forall>r \<in> set rs. rng_min r \<le> q \<and> q < rng_max r \<longrightarrow> winningRange q rs = Some r"
    using find_winning_apart [OF ap] set by (simp add: winningRange_def)
  show "parseRoundPriceRanges (serializeRoundPriceRanges rs) = Inr rs" using all by (intro parse_serialize) blast
qed

context decimal_arith
begin

text \<open>The five default ranges touch and increase, whatever the rounding of the numbers.\<close>

lemma default_bounds:
  assumes "0 < p"
  defines "w \<equiv> toNum E (p * toNum E (5 / 100))"
  shows "toNum E (p - toNum E (w * 2)) < toNum E (p - w)" "toNum E (p - w) < p" "p < toNum E (p + w)"
    "toNum E (p + w) < toNum E (p + toNum E (w * 2))" "toNum E (p + toNum E (w * 2)) < toNum E (p + toNum E (w * 3))"
proof -
  define e :: rat where "e = 1 / 2 ^ 52"
  have e: "0 < e" "e \<le> 1 / 10000" by (simp_all add: e_def)
  have err: "\<bar>toNum E x - x\<bar> \<le> e * \<bar>x\<bar>" for x using toNum_err [of x] by (simp add: e_def)
  have close: "9999 / 10000 * x \<le> toNum E x \<and> toNum E x \<le> 10001 / 10000 * x" if "0 \<le> x" for x
  proof -
    have "e * x \<le> 1 / 10000 * x" using e that by (intro mult_right_mono) auto
    then show ?thesis using err [of x] that by auto
  qed
  define f where "f = toNum E (5 / 100)"
  have f: "49 / 1000 \<le> f" "f \<le> 51 / 1000" using close [of "5 / 100"] by (auto simp: f_def)
  have pf: "49 / 1000 * p \<le> p * f" "p * f \<le> 51 / 1000 * p"
    using mult_left_mono [OF f(1), of p] mult_left_mono [OF f(2), of p] assms(1) by (auto simp: mult.commute)
  have w_f: "w = toNum E (p * f)" by (simp add: w_def f_def)
  have "0 \<le> p * f" using f assms(1) by simp
  from close [OF this] pf assms(1) have w: "48 / 1000 * p \<le> w" "w \<le> 52 / 1000 * p"
    unfolding w_f by linarith+
  have w2: "95 / 1000 * p \<le> toNum E (w * 2)" "toNum E (w * 2) \<le> 105 / 1000 * p"
    using close [of "w * 2"] w assms(1) by auto
  have w3: "143 / 1000 * p \<le> toNum E (w * 3)"
    using close [of "w * 3"] w assms(1) by auto
  show "toNum E (p - toNum E (w * 2)) < toNum E (p - w)" "toNum E (p - w) < p" "p < toNum E (p + w)"
    "toNum E (p + w) < toNum E (p + toNum E (w * 2))" "toNum E (p + toNum E (w * 2)) < toNum E (p + toNum E (w * 3))"
    using close [of "p - toNum E (w * 2)"] close [of "p - w"] close [of "p + w"] close [of "p + toNum E (w * 2)"]
      close [of "p + toNum E (w * 3)"] w w2 w3 assms(1) by auto
qed

lemma default_ranges_tiled:
  assumes "0 < p"
  shows "validateLegendsRanges (generateDefaultLegendsRanges E p) = Inr ()"
    "tiled (sortedRanges (map with_pool (generateDefaultLegendsRanges E p)))"
proof -
  note b = default_bounds [OF assms]
  have sorted: "sort_key urng_min (generateDefaultLegendsRanges E p) = generateDefaultLegendsRanges E p"
    using b by (intro sort_key_id_if_sorted) (auto simp: generateDefaultLegendsRanges_def Let_def)
  show "validateLegendsRanges (generateDefaultLegendsRanges E p) = Inr ()"
    "tiled (sortedRanges (map with_pool (generateDefaultLegendsRanges E p)))"
    unfolding validateLegendsRanges_def check_apart sorted_with_pool sorted
    using b by (auto simp: generateDefaultLegendsRanges_def Let_def with_pool_def)
qed

end

text \<open>C39. The ranges of a new LEGENDS round: what is stored can be read back, has at least two ranges with empty pools,
  and decides the round: a final price in a range makes that range the winner, and no other.  Without custom
  ranges a positive start price always gives ranges, and they tile an interval, in spite of the rounding of numbers.\<close>

theorem legends_round_ranges:
  assumes "0 < p"
  shows "(\<forall>j. round_ranges js_arith LEGENDS p custom = Inr j \<longrightarrow> (\<exists>rs. parseRoundPriceRanges j = Inr rs \<and> 2 \<le> length rs \<and>
      (\<forall>r \<in> set rs. rng_pool r = 0 \<and> rng_min r < rng_max r) \<and>
      (\<forall>q. \<forall>r \<in> set rs. rng_min r \<le> q \<and> q < rng_max r \<longrightarrow> winningRange q rs = Some r) \<and>
      (custom = [] \<longrightarrow> tiled (sortedRanges rs)))) \<and>
    (custom = [] \<longrightarrow> (\<exists>j. round_ranges js_arith LEGENDS p custom = Inr j))"
proof (intro conjI allI impI)
  fix j assume "round_ranges js_arith LEGENDS p custom = Inr j"
  then have v: "validateLegendsRanges (rangesToUse js_arith p custom) = Inr ()"
    and j: "j = serializeRoundPriceRanges (map with_pool (rangesToUse js_arith p custom))"
    by (auto simp: round_ranges_def Let_def split: sum.splits)
  have "tiled (sortedRanges (map with_pool (rangesToUse js_arith p custom)))" if "custom = []"
    using js.default_ranges_tiled(2) [OF assms] that by (simp add: rangesToUse_def)
  with validated_ranges [OF v] j show "\<exists>rs. parseRoundPriceRanges j = Inr rs \<and> 2 \<le> length rs \<and>
      (\<forall>r \<in> set rs. rng_pool r = 0 \<and> rng_min r < rng_max r) \<and>
      (\<forall>q. \<forall>r \<in> set rs. rng_min r \<le> q \<and> q < rng_max r \<longrightarrow> winningRange q rs = Some r) \<and>
      (custom = [] \<longrightarrow> tiled (sortedRanges rs))" by blast
next
  assume "custom = []"
  then show "\<exists>j. round_ranges js_arith LEGENDS p custom = Inr j"
    using js.default_ranges_tiled(1) [OF assms] by (simp add: round_ranges_def rangesToUse_def)
qed

theorem legends_round_ranges_witness:
  "\<exists>j rs. round_ranges js_arith LEGENDS 1 [] = Inr j \<and> parseRoundPriceRanges j = Inr rs \<and> tiled (sortedRanges rs)"
  using legends_round_ranges [of 1 "[]"] by auto

end
